(* ===== verification/Prelude.thy ===== *)
theory Prelude
  imports "HOL-Library.Word" "HOL-Library.Char_ord" "HOL-Library.List_Lexorder" "HOL-Library.Multiset"
begin

text \<open>
  What every component shares: the names of the machine integers, C++ exceptions as the error
  side of a sum, the two combinators that sequence fallible steps, the conversion between
  \<open>char\<close> and \<open>uint8_t\<close>, \<open>c_str\<close> and \<open>std::to_string\<close>, the big-endian reference encoding of
  a word, and the collections of rewrite rules the component proofs use.
\<close>

unbundle bit_operations_syntax

named_theorems deser_simps \<open>what a deserialize operation returns, in terms of the unread bytes\<close>
named_theorems ser_simps \<open>what a serialize operation appends\<close>
named_theorems handler_defs \<open>the definitions of the command handlers\<close>
named_theorems rpc_simps \<open>evaluation of one remote call\<close>

section \<open>Machine integers\<close>

text \<open>
  A signed and an unsigned integer of the same width share the type of their bits; a signed one
  is read with \<open>sint\<close>, compared with \<open><s\<close> and shifted right with \<open>signed_drop_bit\<close>.
\<close>

type_synonym u8 = "8 word"
type_synonym u16 = "16 word"
type_synonym u32 = "32 word"
type_synonym u64 = "64 word"
type_synonym i32 = "32 word"
type_synonym i64 = "64 word"

section \<open>Exceptions\<close>

text \<open>
  One constructor per exception the code throws or the C++ library throws for it. The last two are
  no exceptions and no handler catches them: \<open>Blocked\<close> marks a call that never returns,
  \<open>Undefined\<close> undefined behaviour.
\<close>

datatype exn =
    RuntimeError string
  | InvalidArgument string
  | OutOfRange string
  | SystemError i32 string
  | AddressInfoError i32 string
  | CancellationException string
  | TransportClosed
  | QueueShutdown
  | RemoteWorkerException string
  | BrokenPromise
  | Blocked
  | Undefined string

type_synonym 'a result = "exn + 'a"

fun uncaught :: "exn \<Rightarrow> bool" where
  "uncaught (Undefined m) = True"
| "uncaught Blocked = True"
| "uncaught _ = False"

text \<open>\<open>e.what()\<close>; the text of an errno value comes from the C library's \<open>strerror\<close>.\<close>

fun exn_what :: "(i32 \<Rightarrow> string) \<Rightarrow> exn \<Rightarrow> string" where
  "exn_what strerror (RuntimeError m) = m"
| "exn_what strerror (InvalidArgument m) = m"
| "exn_what strerror (OutOfRange m) = m"
| "exn_what strerror (SystemError e m) = m @ '': '' @ strerror e"
| "exn_what strerror (AddressInfoError e m) = m"
| "exn_what strerror (CancellationException m) = m"
| "exn_what strerror TransportClosed = ''Transport Closed''"
| "exn_what strerror QueueShutdown = ''Queue Shutdown''"
| "exn_what strerror (RemoteWorkerException m) = m"
| "exn_what strerror BrokenPromise = ''std::future_error: Broken promise''"
| "exn_what strerror Blocked = []"
| "exn_what strerror (Undefined m) = m"

definition and_then :: "'a result \<Rightarrow> ('a \<Rightarrow> 'b result) \<Rightarrow> 'b result" where
  "and_then r k = (case r of Inl e \<Rightarrow> Inl e | Inr x \<Rightarrow> k x)"

lemma and_then_simps [simp]:
  "and_then (Inl e) k = Inl e"
  "and_then (Inr x) k = k x"
  by (simp_all add: and_then_def)

text \<open>
  The same inside an operation on a state: a step that throws leaves the operation with the
  state it has reached.
\<close>

definition try_in :: "'a result \<Rightarrow> 's \<Rightarrow> ('a \<Rightarrow> 'b result \<times> 's) \<Rightarrow> 'b result \<times> 's" where
  "try_in r s k = (case r of Inl e \<Rightarrow> (Inl e, s) | Inr x \<Rightarrow> k x)"

lemma try_in_simps [simp]:
  "try_in (Inl e) s k = (Inl e, s)"
  "try_in (Inr x) s k = k x"
  by (simp_all add: try_in_def)

lemma try_in_split:
  "P (try_in r s k) \<longleftrightarrow> (\<forall>e. r = Inl e \<longrightarrow> P (Inl e, s)) \<and> (\<forall>x. r = Inr x \<longrightarrow> P (k x))"
  by (cases r) simp_all

section \<open>Characters, C strings, decimal text\<close>

definition byte_of_char :: "char \<Rightarrow> u8" where
  "byte_of_char c = word_of_nat (of_char c)"

definition char_of_byte :: "u8 \<Rightarrow> char" where
  "char_of_byte b = char_of (unat b)"

lemma char_of_byte_of_char [simp]: "char_of_byte (byte_of_char c) = c"
proof -
  have "(of_char c :: nat) mod 256 < 256" by simp
  then have "(of_char c :: nat) < 256" by (simp only: of_char_mod_256)
  then have "unat (word_of_nat (of_char c) :: u8) = of_char c"
    by (simp add: unat_of_nat)
  then show ?thesis by (simp add: char_of_byte_def byte_of_char_def)
qed

lemma byte_of_char_of_byte [simp]: "byte_of_char (char_of_byte b) = b"
proof -
  have "unat b < 256" using unsigned_less [of b, where 'a = nat] by simp
  then show ?thesis by (simp add: char_of_byte_def byte_of_char_def)
qed

lemma map_char_byte [simp]: "map (char_of_byte \<circ> byte_of_char) s = s"
  by (simp add: comp_def)

lemma map_byte_char [simp]: "map (byte_of_char \<circ> char_of_byte) s = s"
  by (simp add: comp_def)

text \<open>What a C function sees of \<open>s.c_str()\<close>: the characters before the first NUL.\<close>

definition c_str :: "string \<Rightarrow> string" where
  "c_str s = takeWhile (\<lambda>c. c \<noteq> CHR 0x00) s"

lemma c_str_id: "CHR 0x00 \<notin> set s \<Longrightarrow> c_str s = s"
  by (auto simp: c_str_def takeWhile_eq_all_conv)

lemma c_str_no_nul: "CHR 0x00 \<notin> set (c_str s)"
  by (auto simp: c_str_def dest: set_takeWhileD)

lemma c_str_idem [simp]: "c_str (c_str s) = c_str s"
  by (simp add: c_str_id c_str_no_nul)

definition digit_char :: "nat \<Rightarrow> char" where
  "digit_char d = char_of (48 + d)"

text \<open>\<open>std::to_string\<close> of an unsigned value.\<close>

fun to_string :: "nat \<Rightarrow> string" where
  "to_string n = (if n < 10 then [digit_char n] else to_string (n div 10) @ [digit_char (n mod 10)])"

declare to_string.simps [simp del]

section \<open>Big-endian bytes of a word\<close>

text \<open>
  The reference encoding the serializer is compared with: \<open>be_bytes n v\<close> are the low \<open>n\<close> bytes
  of \<open>v\<close>, the most significant first; \<open>be_value\<close> reads them back.
\<close>

primrec be_bytes :: "nat \<Rightarrow> 'a::len word \<Rightarrow> u8 list" where
  "be_bytes 0 v = []"
| "be_bytes (Suc n) v = ucast (drop_bit (8 * n) v) # be_bytes n v"

definition be_step :: "'a::len word \<Rightarrow> u8 \<Rightarrow> 'a word" where
  "be_step a b = push_bit 8 a + ucast b"

definition be_value :: "u8 list \<Rightarrow> 'a::len word" where
  "be_value bs = foldl be_step 0 bs"

lemma length_be_bytes [simp]: "length (be_bytes n v) = n"
  by (induction n) simp_all

lemma be_step_drop_bit:
  "be_step (drop_bit (8 * Suc n) v) (ucast (drop_bit (8 * n) v)) = drop_bit (8 * n) (v :: 'a::len word)"
proof -
  define w where "w = drop_bit (8 * n) v"
  have drop: "drop_bit (8 * Suc n) v = drop_bit 8 w"
    by (simp add: w_def add.commute)
  have low: "(ucast (ucast w :: u8) :: 'a word) = take_bit 8 w"
    by (rule bit_word_eqI) (auto simp: bit_simps)
  have "push_bit 8 (drop_bit 8 w) + take_bit 8 w = w"
    by (simp add: bits_ident)
  then have "be_step (drop_bit 8 w) (ucast w) = w" by (simp only: be_step_def low)
  then show ?thesis by (simp only: drop w_def)
qed

lemma foldl_be_step: "foldl be_step (drop_bit (8 * n) v) (be_bytes n v) = v"
proof (induction n)
  case 0
  then show ?case by simp
next
  case (Suc n)
  have "foldl be_step (drop_bit (8 * Suc n) v) (be_bytes (Suc n) v)
      = foldl be_step (drop_bit (8 * n) v) (be_bytes n v)"
    by (simp only: be_bytes.simps foldl_Cons be_step_drop_bit)
  with Suc show ?case by simp
qed

lemma be_value_be_bytes: "LENGTH('a) \<le> 8 * n \<Longrightarrow> be_value (be_bytes n v) = (v :: 'a::len word)"
  using foldl_be_step [of n v] by (simp add: be_value_def drop_bit_word_beyond)

lemma be_bytes_inject:
  "LENGTH('a) \<le> 8 * n \<Longrightarrow> be_bytes n v = be_bytes n w \<longleftrightarrow> v = (w :: 'a::len word)"
  by (metis be_value_be_bytes)

abbreviation be32 :: "u32 \<Rightarrow> u8 list" where "be32 v \<equiv> be_bytes 4 v"
abbreviation be64 :: "u64 \<Rightarrow> u8 list" where "be64 v \<equiv> be_bytes 8 v"

lemma be_value_be32 [simp]: "be_value (be32 v) = v"
  by (rule be_value_be_bytes) simp

lemma be_value_be64 [simp]: "be_value (be64 v) = v"
  by (rule be_value_be_bytes) simp

text \<open>A run of known length at the front of a list.\<close>

lemma take_be_bytes [simp]: "take n (be_bytes n v @ xs) = be_bytes n v"
  by simp

lemma drop_be_bytes [simp]: "drop n (be_bytes n v @ xs) = xs"
  by simp

section \<open>Counting threads by program counter\<close>

text \<open>How many threads satisfy \<open>P\<close> after one of them moves.\<close>

definition tally :: "('p \<Rightarrow> bool) \<Rightarrow> ('t \<Rightarrow> 'p) \<Rightarrow> nat" where
  "tally P pc = card {t. P (pc t)}"

lemma tally_upd:
  assumes "finite {t. P (pc t)}"
  shows "tally P (pc(t := p)) + of_bool (P (pc t)) = tally P pc + of_bool (P p)"
proof -
  have "{u. P ((pc(t := p)) u)} = (if P p then insert t ({u. P (pc u)} - {t}) else {u. P (pc u)} - {t})"
    by auto
  moreover have "card ({u. P (pc u)} - {t}) + of_bool (P (pc t)) = card {u. P (pc u)}"
    using assms by (cases "P (pc t)") (auto simp: card_Suc_Diff1 simp del: card_Diff_insert)
  ultimately show ?thesis using assms by (auto simp: tally_def card_insert_if)
qed

lemma tally_pos: "finite {t. P (pc t)} \<Longrightarrow> 0 < tally P pc \<longleftrightarrow> (\<exists>t. P (pc t))"
  by (auto simp: tally_def card_gt_0_iff)

section \<open>What the threads of a list hold\<close>

text \<open>When one thread moves, what it held before leaves the sum and what it holds now enters it.\<close>

lemma mset_concat_update:
  assumes "i < length ts"
  shows "mset (concat (map f (ts[i := t]))) + mset (f (ts ! i)) = mset (concat (map f ts)) + mset (f t)"
  using assms
proof (induction ts arbitrary: i)
  case (Cons u ts)
  then show ?case by (cases i) (simp_all add: ac_simps)
qed simp

section \<open>What a step of a thread waits for\<close>

text \<open>
  \<open>By_Itself\<close>: nothing; the thread is running, or the call it was blocked in returns in the state at hand.
  \<open>From_Outside\<close>: the other end of a connection, or the failure of a call of the system. \<open>Is_Called\<close>: somebody
  calls an operation of the object.
\<close>

datatype cause = By_Itself | From_Outside | Is_Called

end
