(* ===== verification/Binary_Serializer.thy ===== *)
theory Binary_Serializer
  imports Prelude
begin

text \<open>
  \<open>common/BinarySerializer\<close>: the byte vector under construction and the 32-bit write index kept
  beside it. Every operation first resizes or extends the vector, then stores bytes, then moves
  the index; the index is a \<open>uint32_t\<close> and wraps. \<open>ser_of bs\<close> is the serializer that holds
  exactly \<open>bs\<close> with the index at its end, the only states reachable from a new serializer as long
  as the vector fits the index.
\<close>

record serializer =
  ser_bytes :: "u8 list"
  ser_index :: u32

definition new_serializer :: serializer where
  "new_serializer = \<lparr>ser_bytes = [], ser_index = 0\<rparr>"

text \<open>\<open>std::vector::resize\<close>: cut, or pad with zeros.\<close>

definition resize :: "nat \<Rightarrow> u8 list \<Rightarrow> u8 list" where
  "resize n xs = take n xs @ replicate (n - length xs) 0"

definition serialize_uint8 :: "u8 \<Rightarrow> serializer \<Rightarrow> serializer" where
  "serialize_uint8 value s =
     (let i = ser_index s; v = resize (unat i + 1) (ser_bytes s)
      in \<lparr>ser_bytes = v[unat i := value], ser_index = i + 1\<rparr>)"

definition serialize_uint32 :: "u32 \<Rightarrow> serializer \<Rightarrow> serializer" where
  "serialize_uint32 value s =
     (let i = ser_index s; v = resize (unat i + 4) (ser_bytes s)
      in \<lparr>ser_bytes = v
            [unat i := ucast (drop_bit 24 value AND 0xFF),
             unat (i + 1) := ucast (drop_bit 16 value AND 0xFF),
             unat (i + 2) := ucast (drop_bit 8 value AND 0xFF),
             unat (i + 3) := ucast (value AND 0xFF)],
          ser_index = i + 4\<rparr>)"

definition serialize_int32 :: "i32 \<Rightarrow> serializer \<Rightarrow> serializer" where
  "serialize_int32 value s =
     (let i = ser_index s; v = resize (unat i + 4) (ser_bytes s)
      in \<lparr>ser_bytes = v
            [unat i := ucast (signed_drop_bit 24 value AND 0xFF),
             unat (i + 1) := ucast (signed_drop_bit 16 value AND 0xFF),
             unat (i + 2) := ucast (signed_drop_bit 8 value AND 0xFF),
             unat (i + 3) := ucast (value AND 0xFF)],
          ser_index = i + 4\<rparr>)"

definition serialize_int64 :: "i64 \<Rightarrow> serializer \<Rightarrow> serializer" where
  "serialize_int64 value s =
     (let i = ser_index s; v = resize (unat i + 8) (ser_bytes s)
      in \<lparr>ser_bytes = v
            [unat i := ucast (signed_drop_bit 56 value AND 0xFF),
             unat (i + 1) := ucast (signed_drop_bit 48 value AND 0xFF),
             unat (i + 2) := ucast (signed_drop_bit 40 value AND 0xFF),
             unat (i + 3) := ucast (signed_drop_bit 32 value AND 0xFF),
             unat (i + 4) := ucast (signed_drop_bit 24 value AND 0xFF),
             unat (i + 5) := ucast (signed_drop_bit 16 value AND 0xFF),
             unat (i + 6) := ucast (signed_drop_bit 8 value AND 0xFF),
             unat (i + 7) := ucast (value AND 0xFF)],
          ser_index = i + 8\<rparr>)"

text \<open>The length header is the length modulo \<open>2 ^ 32\<close>; the characters follow, all of them.\<close>

definition serialize_str :: "string \<Rightarrow> serializer \<Rightarrow> serializer" where
  "serialize_str value s =
     (let len = (word_of_nat (length value) :: u32); s1 = serialize_uint32 len s
      in \<lparr>ser_bytes = ser_bytes s1 @ map byte_of_char value, ser_index = ser_index s1 + len\<rparr>)"

text \<open>The \<open>const char *\<close> overload; \<open>None\<close> is the null pointer.\<close>

definition serialize_cstr :: "string option \<Rightarrow> serializer \<Rightarrow> serializer result" where
  "serialize_cstr ptr s =
     (case ptr of
        None \<Rightarrow> Inl (InvalidArgument ''NULL Parameter'')
      | Some value \<Rightarrow>
          let str = c_str value; len = (word_of_nat (length str) :: u32); s1 = serialize_uint32 len s
          in Inr \<lparr>ser_bytes = ser_bytes s1 @ map byte_of_char str, ser_index = ser_index s1 + len\<rparr>)"

definition serialize_byte_vector :: "u8 list \<Rightarrow> serializer \<Rightarrow> serializer" where
  "serialize_byte_vector value s =
     (let len = (word_of_nat (length value) :: u32); s1 = serialize_uint32 len s
      in \<lparr>ser_bytes = ser_bytes s1 @ value, ser_index = ser_index s1 + len\<rparr>)"

text \<open>\<open>bytes\<close> is the memory the pointer gives access to; reading past it is undefined.\<close>

definition serialize_bytes :: "u8 list \<Rightarrow> u32 \<Rightarrow> serializer \<Rightarrow> serializer result" where
  "serialize_bytes bytes len s =
     (if length bytes < unat len then Inl (Undefined ''read past the end of a buffer'')
      else let s1 = serialize_uint32 len s
           in Inr \<lparr>ser_bytes = ser_bytes s1 @ take (unat len) bytes, ser_index = ser_index s1 + len\<rparr>)"

text \<open>\<open>data()\<close> moves the vector out and leaves the serializer empty.\<close>

definition data :: "serializer \<Rightarrow> u8 list \<times> serializer" where
  "data s = (ser_bytes s, \<lparr>ser_bytes = [], ser_index = 0\<rparr>)"

section \<open>What the operations append\<close>

definition ser_of :: "u8 list \<Rightarrow> serializer" where
  "ser_of bs = \<lparr>ser_bytes = bs, ser_index = word_of_nat (length bs)\<rparr>"

lemma new_serializer_eq [ser_simps]: "new_serializer = ser_of []"
  by (simp add: new_serializer_def ser_of_def)

lemma data_ser_of [ser_simps]: "data (ser_of bs) = (bs, ser_of [])"
  by (simp add: data_def ser_of_def)

lemma resize_append: "resize (length bs + n) bs = bs @ replicate n 0"
  by (simp add: resize_def)

text \<open>The arithmetic shift and the mask give the same byte as the logical shift.\<close>

lemma ucast_mask_byte [simp]: "(ucast (w AND 0xFF) :: u8) = ucast (w :: 'a::len word)"
proof -
  have "(0xFF :: 'a word) = mask 8" by (simp add: mask_eq_exp_minus_1)
  moreover have "(ucast (w AND mask 8) :: u8) = ucast w"
    by (rule bit_word_eqI) (auto simp: bit_simps intro: bit_imp_le_length)
  ultimately show ?thesis by simp
qed

lemma ucast_signed_drop_bit:
  "n + 8 \<le> LENGTH('a) \<Longrightarrow> (ucast (signed_drop_bit n w) :: u8) = ucast (drop_bit n (w :: 'a::len word))"
  by (rule bit_word_eqI) (auto simp: bit_simps min_def)

text \<open>The index addresses the bytes just added, as long as they fit it.\<close>

lemma unat_index [simp]:
  "length bs < 2 ^ 32 \<Longrightarrow> unat (word_of_nat (length bs) :: u32) = length bs"
  by (simp add: unat_of_nat)

lemma store_at:
  "length bs + k < 2 ^ 32 \<Longrightarrow>
   (bs @ ys)[unat (word_of_nat (length bs) + word_of_nat k :: u32) := x] = bs @ ys[k := x]"
  by (simp add: unat_of_nat list_update_append flip: of_nat_add)

lemma store_first: "(bs @ ys)[length bs := x] = bs @ ys[0 := x]"
  by (simp add: list_update_append)

lemmas stores =
  store_first store_at [where k = 1, unfolded of_nat_1]
  store_at [where k = 2, unfolded of_nat_numeral] store_at [where k = 3, unfolded of_nat_numeral]
  store_at [where k = 4, unfolded of_nat_numeral] store_at [where k = 5, unfolded of_nat_numeral]
  store_at [where k = 6, unfolded of_nat_numeral] store_at [where k = 7, unfolded of_nat_numeral]

lemma replicate_zeros:
  "replicate 4 x = [x, x, x, x]" "replicate 8 x = [x, x, x, x, x, x, x, x]"
  by (simp_all add: eval_nat_numeral)

lemma be_bytes_numeral:
  "be_bytes (numeral k) v
     = ucast (drop_bit (8 * pred_numeral k) v) # be_bytes (pred_numeral k) v"
  by (simp add: numeral_eq_Suc)

lemma be32_unfold:
  "be32 v = [ucast (drop_bit 24 v), ucast (drop_bit 16 v), ucast (drop_bit 8 v), ucast v]"
  by (simp add: be_bytes_numeral)

lemma be64_unfold:
  "be64 v = [ucast (drop_bit 56 v), ucast (drop_bit 48 v), ucast (drop_bit 40 v),
     ucast (drop_bit 32 v), ucast (drop_bit 24 v), ucast (drop_bit 16 v), ucast (drop_bit 8 v),
     ucast v]"
  by (simp add: be_bytes_numeral)

lemma serialize_uint8_ser_of [ser_simps]:
  "length bs + 1 \<le> 2 ^ 32 \<Longrightarrow> serialize_uint8 v (ser_of bs) = ser_of (bs @ [v])"
  by (simp add: serialize_uint8_def ser_of_def Let_def resize_append [of _ 1, simplified] stores
      add.commute)

lemma serialize_uint32_ser_of [ser_simps]:
  "length bs + 4 \<le> 2 ^ 32 \<Longrightarrow> serialize_uint32 v (ser_of bs) = ser_of (bs @ be32 v)"
  unfolding serialize_uint32_def ser_of_def Let_def be32_unfold
  by (simp add: resize_append stores replicate_zeros)

lemma serialize_int32_ser_of [ser_simps]:
  "length bs + 4 \<le> 2 ^ 32 \<Longrightarrow> serialize_int32 v (ser_of bs) = ser_of (bs @ be32 v)"
  unfolding serialize_int32_def ser_of_def Let_def be32_unfold
  by (simp add: resize_append stores ucast_signed_drop_bit replicate_zeros)

lemma serialize_int64_ser_of [ser_simps]:
  "length bs + 8 \<le> 2 ^ 32 \<Longrightarrow> serialize_int64 v (ser_of bs) = ser_of (bs @ be64 v)"
  unfolding serialize_int64_def ser_of_def Let_def be64_unfold
  by (simp add: resize_append stores ucast_signed_drop_bit replicate_zeros)

text \<open>The encoding of a length-prefixed run of bytes.\<close>

definition enc_bytes :: "u8 list \<Rightarrow> u8 list" where
  "enc_bytes bs = be32 (word_of_nat (length bs)) @ bs"

definition enc_str :: "string \<Rightarrow> u8 list" where
  "enc_str s = enc_bytes (map byte_of_char s)"

lemma length_enc_bytes [simp]: "length (enc_bytes bs) = length bs + 4"
  by (simp add: enc_bytes_def)

lemma length_enc_str [simp]: "length (enc_str s) = length s + 4"
  by (simp add: enc_str_def)

lemma serialize_str_ser_of [ser_simps]:
  "length bs + 4 \<le> 2 ^ 32 \<Longrightarrow> serialize_str v (ser_of bs) = ser_of (bs @ enc_str v)"
  by (simp add: serialize_str_def serialize_uint32_ser_of Let_def enc_str_def enc_bytes_def)
    (simp add: ser_of_def)

lemma serialize_cstr_ser_of [ser_simps]:
  "length bs + 4 \<le> 2 ^ 32 \<Longrightarrow>
   serialize_cstr (Some v) (ser_of bs) = Inr (ser_of (bs @ enc_str (c_str v)))"
  by (simp add: serialize_cstr_def serialize_uint32_ser_of Let_def enc_str_def enc_bytes_def)
    (simp add: ser_of_def)

lemma serialize_cstr_null [simp]:
  "serialize_cstr None s = Inl (InvalidArgument ''NULL Parameter'')"
  by (simp add: serialize_cstr_def)

lemma serialize_byte_vector_ser_of [ser_simps]:
  "length bs + 4 \<le> 2 ^ 32 \<Longrightarrow> serialize_byte_vector v (ser_of bs) = ser_of (bs @ enc_bytes v)"
  by (simp add: serialize_byte_vector_def serialize_uint32_ser_of Let_def enc_bytes_def)
    (simp add: ser_of_def)

lemma serialize_bytes_ser_of [ser_simps]:
  "length bs + 4 \<le> 2 ^ 32 \<Longrightarrow> unat n \<le> length v \<Longrightarrow>
   serialize_bytes v n (ser_of bs) = Inr (ser_of (bs @ enc_bytes (take (unat n) v)))"
  by (simp add: serialize_bytes_def serialize_uint32_ser_of Let_def enc_bytes_def min_def)
    (simp add: ser_of_def min_def)

end
