(* ===== verification/Binary_Deserializer.thy ===== *)
theory Binary_Deserializer
  imports Binary_Serializer
begin

text \<open>
  \<open>common/BinaryDeserializer\<close>: the byte vector read from and a 32-bit read index. Every operation
  compares what it needs with \<open>bytes_available()\<close> first and throws; then it reads and moves the
  index. The signed variants shift and add in a signed integer: their addition carries an explicit
  branch for signed overflow, which is shown never to be taken.
\<close>

record deserializer =
  de_bytes :: "u8 list"
  de_index :: u32

definition new_deserializer :: "u8 list \<Rightarrow> deserializer" where
  "new_deserializer serialized = \<lparr>de_bytes = serialized, de_index = 0\<rparr>"

text \<open>The 64-bit difference, narrowed to the 32-bit result.\<close>

definition bytes_available :: "deserializer \<Rightarrow> u32" where
  "bytes_available d = ucast ((word_of_nat (length (de_bytes d)) :: u64) - ucast (de_index d))"

definition overflow_error :: "u32 \<Rightarrow> u32 \<Rightarrow> exn" where
  "overflow_error needed available = RuntimeError
     (''Expected size of serialized object is larger than available bytes: ''
        @ to_string (unat needed) @ '' > '' @ to_string (unat available))"

definition validate_no_overflow :: "u32 \<Rightarrow> deserializer \<Rightarrow> unit result" where
  "validate_no_overflow needed d =
     (if needed > bytes_available d then Inl (overflow_error needed (bytes_available d)) else Inr ())"

definition current_byte :: "deserializer \<Rightarrow> u8" where
  "current_byte d = de_bytes d ! unat (de_index d)"

definition advance :: "u32 \<Rightarrow> deserializer \<Rightarrow> deserializer" where
  "advance n d = d\<lparr>de_index := de_index d + n\<rparr>"

definition deserialize_uint8 :: "deserializer \<Rightarrow> (u8 \<times> deserializer) result" where
  "deserialize_uint8 d =
     and_then (validate_no_overflow 1 d) (\<lambda>_. Inr (current_byte d, advance 1 d))"

text \<open>The loop of the unsigned reader.\<close>

primrec unsigned_loop :: "nat \<Rightarrow> 'a::len word \<Rightarrow> deserializer \<Rightarrow> 'a word \<times> deserializer" where
  "unsigned_loop 0 value d = (value, d)"
| "unsigned_loop (Suc n) value d =
     unsigned_loop n (push_bit 8 value + ucast (current_byte d)) (advance 1 d)"

definition deserialize_uint32 :: "deserializer \<Rightarrow> (u32 \<times> deserializer) result" where
  "deserialize_uint32 d =
     and_then (validate_no_overflow 4 d) (\<lambda>_. Inr (unsigned_loop 4 0 d))"

text \<open>
  \<open>value += byte\<close> on a signed \<open>value\<close>: the left shift is modulo \<open>2 ^ N\<close>, the sum has to fit.
\<close>

definition signed_add :: "'a::len word \<Rightarrow> u8 \<Rightarrow> 'a word result" where
  "signed_add value byte =
     (let total = sint value + uint byte
      in if total < 2 ^ (LENGTH('a) - 1) then Inr (word_of_int total)
         else Inl (Undefined ''signed overflow''))"

primrec signed_loop :: "nat \<Rightarrow> 'a::len word \<Rightarrow> deserializer \<Rightarrow> ('a word \<times> deserializer) result" where
  "signed_loop 0 value d = Inr (value, d)"
| "signed_loop (Suc n) value d =
     and_then (signed_add (push_bit 8 value) (current_byte d))
       (\<lambda>value'. signed_loop n value' (advance 1 d))"

definition deserialize_int32 :: "deserializer \<Rightarrow> (i32 \<times> deserializer) result" where
  "deserialize_int32 d = and_then (validate_no_overflow 4 d) (\<lambda>_. signed_loop 4 0 d)"

definition deserialize_int64 :: "deserializer \<Rightarrow> (i64 \<times> deserializer) result" where
  "deserialize_int64 d = and_then (validate_no_overflow 8 d) (\<lambda>_. signed_loop 8 0 d)"

definition slice :: "u32 \<Rightarrow> deserializer \<Rightarrow> u8 list" where
  "slice n d = take (unat n) (drop (unat (de_index d)) (de_bytes d))"

definition deserialize_str :: "deserializer \<Rightarrow> (string \<times> deserializer) result" where
  "deserialize_str d =
     and_then (deserialize_uint32 d) (\<lambda>(len, d1).
     and_then (validate_no_overflow len d1) (\<lambda>_.
       Inr (map char_of_byte (slice len d1), advance len d1)))"

definition deserialize_bytes :: "u32 \<Rightarrow> deserializer \<Rightarrow> (u8 list \<times> deserializer) result" where
  "deserialize_bytes len d =
     and_then (validate_no_overflow len d) (\<lambda>_. Inr (slice len d, advance len d))"

definition deserialize_byte_vector :: "deserializer \<Rightarrow> (u8 list \<times> deserializer) result" where
  "deserialize_byte_vector d =
     and_then (deserialize_uint32 d) (\<lambda>(len, d1). deserialize_bytes len d1)"

section \<open>No signed overflow\<close>

text \<open>
  The shift leaves the low byte zero, so the signed value is a multiple of 256 and at most
  \<open>2 ^ (N - 1) - 256\<close>: the byte always fits.
\<close>

lemma sint_push_bit_8:
  assumes "8 < LENGTH('a)"
  shows "sint (push_bit 8 (w :: 'a::len word)) + uint (b :: u8) < 2 ^ (LENGTH('a) - 1)"
proof -
  have "LENGTH('a) - 1 = 8 + (LENGTH('a) - 9)" using assms by simp
  then have limit: "(2 :: int) ^ (LENGTH('a) - 1) = 256 * 2 ^ (LENGTH('a) - 9)"
    by (simp only: power_add) simp
  have dvd: "256 dvd sint (push_bit 8 w)"
  proof -
    have "take_bit 8 (sint (push_bit 8 w)) = 0"
      using assms by (intro bit_eqI) (auto simp: bit_simps bit_sint_iff)
    then show ?thesis by (simp add: take_bit_eq_mod dvd_eq_mod_eq_0)
  qed
  have "sint (push_bit 8 w) < 256 * 2 ^ (LENGTH('a) - 9)"
    using sint_lt [of "push_bit 8 w"] by (simp only: limit)
  with dvd have "sint (push_bit 8 w) + 256 \<le> 256 * 2 ^ (LENGTH('a) - 9)"
    by (auto elim!: dvdE)
  moreover have "uint b < 256" using uint_lt2p [of b] by simp
  ultimately show ?thesis by (simp only: limit)
qed

lemma signed_add_eq:
  "8 < LENGTH('a) \<Longrightarrow>
   signed_add (push_bit 8 (w :: 'a::len word)) b = Inr (push_bit 8 w + ucast b)"
  using sint_push_bit_8 [of w b]
  by (simp add: signed_add_def Let_def wi_hom_add [symmetric] flip: word_of_int_uint)

lemma signed_loop_eq:
  "8 < LENGTH('a) \<Longrightarrow> signed_loop n (v :: 'a::len word) d = Inr (unsigned_loop n v d)"
  by (induction n arbitrary: v d) (simp_all add: signed_add_eq)

section \<open>The only exception of a read\<close>

definition read_error :: "'a result \<Rightarrow> bool" where
  "read_error r \<longleftrightarrow> (\<forall>e. r = Inl e \<longrightarrow> (\<exists>m. e = RuntimeError m))"

lemma read_error_simps [simp]:
  "read_error (Inr x)" "read_error (Inl (RuntimeError m))"
  by (simp_all add: read_error_def)

lemma read_error_and_then:
  "read_error r \<Longrightarrow> (\<And>x. r = Inr x \<Longrightarrow> read_error (k x)) \<Longrightarrow> read_error (and_then r k)"
  by (cases r) (auto simp: read_error_def)

lemma read_error_validate [simp]: "read_error (validate_no_overflow n d)"
  by (simp add: validate_no_overflow_def overflow_error_def)

lemma read_error_reads [simp]:
  "read_error (deserialize_uint8 d)" "read_error (deserialize_uint32 d)"
  "read_error (deserialize_int32 d)" "read_error (deserialize_int64 d)"
  "read_error (deserialize_bytes n d)" "read_error (deserialize_byte_vector d)"
  "read_error (deserialize_str d)"
  by (auto simp: deserialize_uint8_def deserialize_uint32_def deserialize_int32_def
      deserialize_int64_def deserialize_bytes_def deserialize_byte_vector_def deserialize_str_def
      signed_loop_eq split: prod.splits intro!: read_error_and_then)

end
