(* ===== verification/Codec.thy ===== *)
theory Codec
  imports Binary_Deserializer
begin

text \<open>
  The serializer and the deserializer together. \<open>de_cur pre post\<close> is the deserializer that has
  read \<open>pre\<close> and has \<open>post\<close> before it; every operation is first described on these states, short
  input included. The locale \<open>codec\<close> is the contract of one encoding (reading what was written
  returns it and stops right behind it; what can be read was written by exactly one value; a cut
  encoding throws), with its consequences proved once; it is interpreted for every pair of
  operations of the two classes.
\<close>

definition de_cur :: "u8 list \<Rightarrow> u8 list \<Rightarrow> deserializer" where
  "de_cur pre post = \<lparr>de_bytes = pre @ post, de_index = word_of_nat (length pre)\<rparr>"

definition fits :: "u8 list \<Rightarrow> u8 list \<Rightarrow> bool" where
  "fits pre post \<longleftrightarrow> length pre + length post < 2 ^ 32"

lemma new_deserializer_eq: "new_deserializer bs = de_cur [] bs"
  by (simp add: new_deserializer_def de_cur_def)

lemma fits_Nil [simp]: "fits [] bs \<longleftrightarrow> length bs < 2 ^ 32"
  by (simp add: fits_def)

lemma fits_append [simp]: "fits (pre @ xs) post \<longleftrightarrow> fits pre (xs @ post)"
  by (simp add: fits_def add.assoc)

lemma ucast_word_of_nat:
  "n < 2 ^ LENGTH('a) \<Longrightarrow> (ucast (word_of_nat n :: 'a::len word) :: 'b::len word) = word_of_nat n"
  by (simp add: unsigned_of_nat take_bit_nat_eq_self)

lemma bytes_available_cur [simp]:
  "fits pre post \<Longrightarrow> bytes_available (de_cur pre post) = word_of_nat (length post)"
  by (simp add: bytes_available_def de_cur_def fits_def ucast_word_of_nat)

lemma validate_cur:
  "fits pre post \<Longrightarrow> n < 2 ^ 32 \<Longrightarrow>
   validate_no_overflow (word_of_nat n) (de_cur pre post)
     = (if length post < n then Inl (overflow_error (word_of_nat n) (word_of_nat (length post)))
        else Inr ())"
  by (simp add: validate_no_overflow_def word_less_nat_alt unat_of_nat fits_def)

lemma validate_cur_word:
  "fits pre post \<Longrightarrow>
   validate_no_overflow n (de_cur pre post)
     = (if length post < unat n then Inl (overflow_error n (word_of_nat (length post))) else Inr ())"
  using validate_cur [of pre post "unat n"] unsigned_less [of n, where 'a = nat] by simp

lemma current_byte_cur: "fits pre (b # post) \<Longrightarrow> current_byte (de_cur pre (b # post)) = b"
  by (simp add: current_byte_def de_cur_def fits_def unat_of_nat nth_append)

lemma advance_cur:
  "n \<le> length post \<Longrightarrow>
   advance (word_of_nat n) (de_cur pre post) = de_cur (pre @ take n post) (drop n post)"
  by (simp add: advance_def de_cur_def min_def)

lemma unsigned_loop_cur:
  "n \<le> length post \<Longrightarrow> fits pre post \<Longrightarrow>
   unsigned_loop n v (de_cur pre post)
     = (foldl be_step v (take n post), de_cur (pre @ take n post) (drop n post))"
proof (induction n arbitrary: v pre post)
  case (Suc n)
  then obtain b post' where post: "post = b # post'" by (cases post) auto
  have "advance 1 (de_cur pre post) = de_cur (pre @ [b]) post'"
    using advance_cur [of 1 post pre] by (simp add: post)
  with Suc show ?case by (simp add: post current_byte_cur be_step_def)
qed simp

lemma slice_cur:
  "fits pre post \<Longrightarrow> slice n (de_cur pre post) = take (unat n) post"
  by (simp add: slice_def de_cur_def fits_def unat_of_nat)

section \<open>Every read, short input included\<close>

definition short :: "nat \<Rightarrow> u8 list \<Rightarrow> exn" where
  "short n post = overflow_error (word_of_nat n) (word_of_nat (length post))"

lemma deserialize_uint8_cur:
  "fits pre post \<Longrightarrow>
   deserialize_uint8 (de_cur pre post)
     = (case post of [] \<Rightarrow> Inl (short 1 post) | b # post' \<Rightarrow> Inr (b, de_cur (pre @ [b]) post'))"
  using validate_cur [of pre post 1] advance_cur [of 1 post pre]
  by (cases post) (simp_all add: deserialize_uint8_def current_byte_cur short_def)

lemma deserialize_uint32_cur:
  "fits pre post \<Longrightarrow>
   deserialize_uint32 (de_cur pre post)
     = (if length post < 4 then Inl (short 4 post)
        else Inr (be_value (take 4 post), de_cur (pre @ take 4 post) (drop 4 post)))"
  using validate_cur [of pre post 4]
  by (simp add: deserialize_uint32_def unsigned_loop_cur be_value_def short_def)

lemma deserialize_int32_cur:
  "fits pre post \<Longrightarrow> deserialize_int32 (de_cur pre post) = deserialize_uint32 (de_cur pre post)"
  by (simp add: deserialize_int32_def deserialize_uint32_def signed_loop_eq)

lemma deserialize_int64_cur:
  "fits pre post \<Longrightarrow>
   deserialize_int64 (de_cur pre post)
     = (if length post < 8 then Inl (short 8 post)
        else Inr (be_value (take 8 post), de_cur (pre @ take 8 post) (drop 8 post)))"
  using validate_cur [of pre post 8]
  by (simp add: deserialize_int64_def signed_loop_eq unsigned_loop_cur be_value_def short_def)

lemma deserialize_bytes_cur:
  "fits pre post \<Longrightarrow>
   deserialize_bytes n (de_cur pre post)
     = (if length post < unat n then Inl (short (unat n) post)
        else Inr (take (unat n) post, de_cur (pre @ take (unat n) post) (drop (unat n) post)))"
  using advance_cur [of "unat n" post pre]
  by (simp add: deserialize_bytes_def validate_cur_word slice_cur short_def)

lemma deserialize_byte_vector_cur:
  "fits pre post \<Longrightarrow>
   deserialize_byte_vector (de_cur pre post)
     = (if length post < 4 then Inl (short 4 post)
        else deserialize_bytes (be_value (take 4 post)) (de_cur (pre @ take 4 post) (drop 4 post)))"
  by (simp add: deserialize_byte_vector_def deserialize_uint32_cur)

lemma deserialize_str_eq:
  "deserialize_str d
     = and_then (deserialize_byte_vector d) (\<lambda>(bs, d'). Inr (map char_of_byte bs, d'))"
  by (cases "deserialize_uint32 d")
    (auto simp: deserialize_str_def deserialize_byte_vector_def deserialize_bytes_def
      and_then_def split: sum.splits)

text \<open>What the reads return on the bytes the serializer writes.\<close>

lemma deserialize_uint8_read [deser_simps]:
  "fits pre (b # xs) \<Longrightarrow> deserialize_uint8 (de_cur pre (b # xs)) = Inr (b, de_cur (pre @ [b]) xs)"
  by (simp add: deserialize_uint8_cur)

lemma deserialize_uint32_read [deser_simps]:
  "fits pre (be32 v @ xs) \<Longrightarrow>
   deserialize_uint32 (de_cur pre (be32 v @ xs)) = Inr (v, de_cur (pre @ be32 v) xs)"
  by (simp add: deserialize_uint32_cur)

lemma deserialize_int32_read [deser_simps]:
  "fits pre (be32 v @ xs) \<Longrightarrow>
   deserialize_int32 (de_cur pre (be32 v @ xs)) = Inr (v, de_cur (pre @ be32 v) xs)"
  by (simp add: deserialize_int32_cur deserialize_uint32_cur)

lemma deserialize_int64_read [deser_simps]:
  "fits pre (be64 v @ xs) \<Longrightarrow>
   deserialize_int64 (de_cur pre (be64 v @ xs)) = Inr (v, de_cur (pre @ be64 v) xs)"
  by (simp add: deserialize_int64_cur)

lemma deserialize_byte_vector_read [deser_simps]:
  "fits pre (enc_bytes v @ xs) \<Longrightarrow>
   deserialize_byte_vector (de_cur pre (enc_bytes v @ xs)) = Inr (v, de_cur (pre @ enc_bytes v) xs)"
  by (simp add: deserialize_byte_vector_cur enc_bytes_def deserialize_bytes_cur fits_def)

lemma deserialize_str_read [deser_simps]:
  "fits pre (enc_str v @ xs) \<Longrightarrow>
   deserialize_str (de_cur pre (enc_str v @ xs)) = Inr (v, de_cur (pre @ enc_str v) xs)"
  by (simp add: deserialize_str_eq enc_str_def deserialize_byte_vector_read)

section \<open>The contract of an encoding\<close>

locale codec =
  fixes enc :: "'a \<Rightarrow> u8 list"
    and dec :: "deserializer \<Rightarrow> ('a \<times> deserializer) result"
    and encodable :: "'a \<Rightarrow> bool"
  assumes dec_enc: "encodable x \<Longrightarrow> fits pre (enc x @ xs) \<Longrightarrow>
      dec (de_cur pre (enc x @ xs)) = Inr (x, de_cur (pre @ enc x) xs)"
    and dec_sound: "fits pre post \<Longrightarrow> dec (de_cur pre post) = Inr (x, d) \<Longrightarrow>
      encodable x \<and> (\<exists>xs. post = enc x @ xs \<and> d = de_cur (pre @ enc x) xs)"
    and dec_error: "fits pre post \<Longrightarrow> dec (de_cur pre post) = Inl e \<Longrightarrow> \<exists>m. e = RuntimeError m"
begin

lemma dec_enc_whole: "encodable x \<Longrightarrow> length (enc x) < 2 ^ 32 \<Longrightarrow>
  dec (new_deserializer (enc x)) = Inr (x, de_cur (enc x) [])"
  using dec_enc [of x "[]" "[]"] by (simp add: new_deserializer_eq)

lemma prefix_free:
  assumes "encodable x" "encodable y" "length (enc x @ xs) < 2 ^ 32" "enc x @ xs = enc y @ ys"
  shows "x = y \<and> xs = ys"
proof -
  have "dec (de_cur [] (enc x @ xs)) = Inr (x, de_cur (enc x) xs)"
    using dec_enc [of x "[]" xs] assms by simp
  moreover have "dec (de_cur [] (enc x @ xs)) = Inr (y, de_cur (enc y) ys)"
    using dec_enc [of y "[]" ys] assms by simp
  ultimately have "x = y" by simp
  with assms(4) show ?thesis by simp
qed

text \<open>A strict prefix of an encoding is refused: no value is read from cut input.\<close>

lemma cut_refused:
  assumes "encodable x" "length (enc x) < 2 ^ 32" "enc x = p @ c # q"
  shows "\<exists>m. dec (new_deserializer p) = Inl (RuntimeError m)"
proof (cases "dec (de_cur [] p)")
  case (Inl e)
  moreover have "fits [] p" using assms(2,3) by simp
  ultimately have "\<exists>m. e = RuntimeError m" by (rule dec_error [rotated])
  with Inl show ?thesis by (auto simp: new_deserializer_eq)
next
  case (Inr r)
  obtain y d where r: "r = (y, d)" by (cases r)
  have "fits [] p" using assms(2,3) by simp
  with Inr r obtain ys where y: "encodable y" "p = enc y @ ys" using dec_sound by blast
  with assms have "enc x @ [] = enc y @ (ys @ c # q)" by simp
  with assms(1,2) y(1) prefix_free [of x y "[]" "ys @ c # q"] have "ys @ c # q = []" by simp
  then show ?thesis by simp
qed

end

text \<open>Reading bytes and writing the value again gives the same bytes.\<close>

lemma bit_be_step:
  "8 \<le> LENGTH('a) \<Longrightarrow>
   bit (be_step a b :: 'a::len word) i
     \<longleftrightarrow> i < LENGTH('a) \<and> (if i < 8 then bit b i else bit a (i - 8))"
proof -
  have "push_bit 8 a + ucast b = (push_bit 8 a OR ucast b :: 'a word)"
    by (rule disjunctive_add_eq_or, rule bit_word_eqI) (auto simp: bit_simps dest: bit_imp_le_length)
  then show ?thesis
    by (auto simp: be_step_def bit_simps dest: bit_imp_le_length)
qed

lemma be_bytes_snoc: "be_bytes (Suc n) v = be_bytes n (drop_bit 8 v) @ [ucast v]"
  by (induction n) (simp_all add: add.commute)

lemma be_bytes_cong:
  "(\<And>i. i < 8 * n \<Longrightarrow> bit v i = bit w i) \<Longrightarrow> be_bytes n v = be_bytes n (w :: 'a::len word)"
proof (induction n)
  case (Suc n)
  have "(ucast (drop_bit (8 * n) v) :: u8) = ucast (drop_bit (8 * n) w)"
    by (rule bit_word_eqI) (simp add: bit_simps Suc.prems)
  with Suc show ?case by simp
qed simp

lemma be_bytes_be_value:
  "8 * length bs \<le> LENGTH('a) \<Longrightarrow> be_bytes (length bs) (be_value bs :: 'a::len word) = bs"
proof (induction bs rule: rev_induct)
  case (snoc b bs)
  let ?v = "be_value bs :: 'a word"
  have "(ucast (be_step ?v b) :: u8) = b"
    using snoc.prems by (intro bit_word_eqI) (simp add: bit_simps bit_be_step)
  moreover have "be_bytes (length bs) (drop_bit 8 (be_step ?v b)) = be_bytes (length bs) ?v"
    using snoc.prems by (intro be_bytes_cong) (simp add: bit_simps bit_be_step)
  ultimately show ?case
    using snoc by (simp add: be_bytes_snoc be_value_def del: be_bytes.simps)
qed simp

lemma be32_be_value: "length bs = 4 \<Longrightarrow> be32 (be_value bs) = bs"
  using be_bytes_be_value [of bs, where 'a = 32] by simp

lemma be64_be_value: "length bs = 8 \<Longrightarrow> be64 (be_value bs) = bs"
  using be_bytes_be_value [of bs, where 'a = 64] by simp

section \<open>Every encoding of the wire keeps it\<close>

lemma split_be32: "4 \<le> length post \<Longrightarrow> be32 (be_value (take 4 post)) @ drop 4 post = post"
  by (simp add: be32_be_value)

lemma split_be64: "8 \<le> length post \<Longrightarrow> be64 (be_value (take 8 post)) @ drop 8 post = post"
  by (simp add: be64_be_value)

lemma deserialize_uint32_sound:
  assumes "fits pre post" "deserialize_uint32 (de_cur pre post) = Inr (v, d)"
  shows "\<exists>xs. post = be32 v @ xs \<and> d = de_cur (pre @ be32 v) xs"
  using assms split_be32 [of post]
  by (auto simp: deserialize_uint32_cur be32_be_value split: if_splits intro!: exI [of _ "drop 4 post"])

lemma deserialize_int64_sound:
  assumes "fits pre post" "deserialize_int64 (de_cur pre post) = Inr (v, d)"
  shows "\<exists>xs. post = be64 v @ xs \<and> d = de_cur (pre @ be64 v) xs"
  using assms split_be64 [of post]
  by (auto simp: deserialize_int64_cur be64_be_value split: if_splits intro!: exI [of _ "drop 8 post"])

lemma deserialize_byte_vector_sound:
  assumes "fits pre post" "deserialize_byte_vector (de_cur pre post) = Inr (v, d)"
  shows "length v < 2 ^ 32 \<and> (\<exists>xs. post = enc_bytes v @ xs \<and> d = de_cur (pre @ enc_bytes v) xs)"
proof -
  define n where "n = (be_value (take 4 post) :: u32)"
  define rest where "rest = drop 4 post"
  have long: "4 \<le> length post"
    using assms by (auto simp: deserialize_byte_vector_cur split: if_splits)
  then have post: "post = be32 n @ rest" by (simp add: n_def rest_def be32_be_value)
  have fits: "fits (pre @ be32 n) rest" using assms(1) by (simp add: post)
  have "deserialize_bytes n (de_cur (pre @ be32 n) rest) = Inr (v, d)"
    using assms by (simp add: post deserialize_byte_vector_cur)
  then have v: "v = take (unat n) rest" "unat n \<le> length rest"
    and d: "d = de_cur ((pre @ be32 n) @ v) (drop (unat n) rest)"
    using fits by (auto simp: deserialize_bytes_cur split: if_splits)
  have len: "length v = unat n" using v by simp
  then have enc: "enc_bytes v = be32 n @ v" by (simp add: enc_bytes_def)
  have "length v < 2 ^ 32" using len unsigned_less [of n, where 'a = nat] by simp
  moreover have "post = enc_bytes v @ drop (unat n) rest"
    unfolding enc post by (simp add: v(1))
  ultimately show ?thesis using d enc by auto
qed

lemma read_errors:
  "fits pre post \<Longrightarrow> deserialize_uint8 (de_cur pre post) = Inl e \<Longrightarrow> \<exists>m. e = RuntimeError m"
  "fits pre post \<Longrightarrow> deserialize_uint32 (de_cur pre post) = Inl e \<Longrightarrow> \<exists>m. e = RuntimeError m"
  "fits pre post \<Longrightarrow> deserialize_int32 (de_cur pre post) = Inl e \<Longrightarrow> \<exists>m. e = RuntimeError m"
  "fits pre post \<Longrightarrow> deserialize_int64 (de_cur pre post) = Inl e \<Longrightarrow> \<exists>m. e = RuntimeError m"
  "fits pre post \<Longrightarrow> deserialize_byte_vector (de_cur pre post) = Inl e \<Longrightarrow> \<exists>m. e = RuntimeError m"
  by (auto simp: deserialize_uint8_cur deserialize_uint32_cur deserialize_int32_cur
      deserialize_int64_cur deserialize_byte_vector_cur deserialize_bytes_cur short_def
      overflow_error_def fits_def split: list.splits if_splits)

interpretation uint8: codec "\<lambda>b. [b]" deserialize_uint8 "\<lambda>_. True"
  by unfold_locales
    (auto simp: deserialize_uint8_cur short_def overflow_error_def split: list.splits)

interpretation uint32: codec be32 deserialize_uint32 "\<lambda>_. True"
  by unfold_locales
    (auto simp: deserialize_uint32_read dest: deserialize_uint32_sound read_errors [rotated])

interpretation int32: codec be32 deserialize_int32 "\<lambda>_. True"
  by unfold_locales
    (auto simp: deserialize_int32_cur deserialize_uint32_read
      dest: deserialize_uint32_sound read_errors [rotated])

interpretation int64: codec be64 deserialize_int64 "\<lambda>_. True"
  by unfold_locales
    (auto simp: deserialize_int64_read dest: deserialize_int64_sound read_errors [rotated])

interpretation byte_vector: codec enc_bytes deserialize_byte_vector "\<lambda>v. length v < 2 ^ 32"
  by unfold_locales
    (use deserialize_byte_vector_sound in
      \<open>auto simp: deserialize_byte_vector_read dest: read_errors [rotated]\<close>)

lemma deserialize_str_sound:
  assumes "fits pre post" "deserialize_str (de_cur pre post) = Inr (s, d)"
  shows "length s < 2 ^ 32 \<and> (\<exists>xs. post = enc_str s @ xs \<and> d = de_cur (pre @ enc_str s) xs)"
proof -
  obtain v where v: "deserialize_byte_vector (de_cur pre post) = Inr (v, d)"
    and s: "s = map char_of_byte v"
    using assms(2) by (auto simp: deserialize_str_eq and_then_def split: sum.splits)
  have "map byte_of_char s = v" by (simp add: s)
  then show ?thesis
    using deserialize_byte_vector_sound [OF assms(1) v] by (auto simp: enc_str_def s)
qed

lemma deserialize_str_error:
  assumes "fits pre post" "deserialize_str (de_cur pre post) = Inl e"
  shows "\<exists>m. e = RuntimeError m"
  using assms read_errors(5) [of pre post e]
  by (auto simp: deserialize_str_eq and_then_def split: sum.splits)

interpretation str: codec enc_str deserialize_str "\<lambda>s. length s < 2 ^ 32"
  by unfold_locales
    (use deserialize_str_sound deserialize_str_error in \<open>auto simp: deserialize_str_read\<close>)

text \<open>A string whose encoding was cut anywhere is refused with an exception; nothing is read past the end.\<close>

lemma cut_string_is_refused:
  assumes "length s + 4 < 2 ^ 32" "fst (data (serialize_str s new_serializer)) = p @ c # q"
  shows "\<exists>text. deserialize_str (new_deserializer p) = Inl (RuntimeError text)"
proof (rule str.cut_refused)
  show "enc_str s = p @ c # q" using assms(2) by (simp add: ser_simps)
qed (use assms(1) in simp_all)

section \<open>Sequences of values\<close>

text \<open>
  One constructor per \<open>serialize_\<close> operation: what is written, and the kind of value the reader must ask
  for. A \<open>const char *\<close> ends at its first NUL, a pointer with a length gives that many of its bytes.
\<close>

datatype field =
    Uint8 u8
  | Uint32 u32
  | Int32 i32
  | Int64 i64
  | Str string
  | Cstr string
  | Byte_Vector "u8 list"
  | Byte_Range "u8 list" u32

datatype kind = Kind_Uint8 | Kind_Uint32 | Kind_Int32 | Kind_Int64 | Kind_Str | Kind_Bytes

fun put_field :: "field \<Rightarrow> serializer \<Rightarrow> serializer result" where
  "put_field (Uint8 b) s = Inr (serialize_uint8 b s)"
| "put_field (Uint32 v) s = Inr (serialize_uint32 v s)"
| "put_field (Int32 v) s = Inr (serialize_int32 v s)"
| "put_field (Int64 v) s = Inr (serialize_int64 v s)"
| "put_field (Str t) s = Inr (serialize_str t s)"
| "put_field (Cstr t) s = serialize_cstr (Some t) s"
| "put_field (Byte_Vector v) s = Inr (serialize_byte_vector v s)"
| "put_field (Byte_Range bs n) s = serialize_bytes bs n s"

fun put_fields :: "field list \<Rightarrow> serializer \<Rightarrow> serializer result" where
  "put_fields [] s = Inr s"
| "put_fields (f # fs) s = and_then (put_field f s) (put_fields fs)"

fun get_field :: "kind \<Rightarrow> deserializer \<Rightarrow> (field \<times> deserializer) result" where
  "get_field Kind_Uint8 d = and_then (deserialize_uint8 d) (\<lambda>(b, d1). Inr (Uint8 b, d1))"
| "get_field Kind_Uint32 d = and_then (deserialize_uint32 d) (\<lambda>(v, d1). Inr (Uint32 v, d1))"
| "get_field Kind_Int32 d = and_then (deserialize_int32 d) (\<lambda>(v, d1). Inr (Int32 v, d1))"
| "get_field Kind_Int64 d = and_then (deserialize_int64 d) (\<lambda>(v, d1). Inr (Int64 v, d1))"
| "get_field Kind_Str d = and_then (deserialize_str d) (\<lambda>(t, d1). Inr (Str t, d1))"
| "get_field Kind_Bytes d = and_then (deserialize_byte_vector d) (\<lambda>(v, d1). Inr (Byte_Vector v, d1))"

fun get_fields :: "kind list \<Rightarrow> deserializer \<Rightarrow> (field list \<times> deserializer) result" where
  "get_fields [] d = Inr ([], d)"
| "get_fields (k # ks) d =
     and_then (get_field k d) (\<lambda>(f, d1). and_then (get_fields ks d1) (\<lambda>(fs, d2). Inr (f # fs, d2)))"

text \<open>What a field is read as, and the bytes it takes.\<close>

fun kind_of :: "field \<Rightarrow> kind" where
  "kind_of (Uint8 b) = Kind_Uint8"
| "kind_of (Uint32 v) = Kind_Uint32"
| "kind_of (Int32 v) = Kind_Int32"
| "kind_of (Int64 v) = Kind_Int64"
| "kind_of (Str t) = Kind_Str"
| "kind_of (Cstr t) = Kind_Str"
| "kind_of (Byte_Vector v) = Kind_Bytes"
| "kind_of (Byte_Range bs n) = Kind_Bytes"

fun as_read :: "field \<Rightarrow> field" where
  "as_read (Cstr t) = Str (c_str t)"
| "as_read (Byte_Range bs n) = Byte_Vector (take (unat n) bs)"
| "as_read f = f"

fun field_bytes :: "field \<Rightarrow> u8 list" where
  "field_bytes (Uint8 b) = [b]"
| "field_bytes (Uint32 v) = be32 v"
| "field_bytes (Int32 v) = be32 v"
| "field_bytes (Int64 v) = be64 v"
| "field_bytes (Str t) = enc_str t"
| "field_bytes (Cstr t) = enc_str (c_str t)"
| "field_bytes (Byte_Vector v) = enc_bytes v"
| "field_bytes (Byte_Range bs n) = enc_bytes (take (unat n) bs)"

fun readable :: "field \<Rightarrow> bool" where
  "readable (Byte_Range bs n) \<longleftrightarrow> unat n \<le> length bs"
| "readable f \<longleftrightarrow> True"

lemma put_field_ser_of:
  "length bs + length (field_bytes f) < 2 ^ 32 \<Longrightarrow> readable f \<Longrightarrow>
   put_field f (ser_of bs) = Inr (ser_of (bs @ field_bytes f))"
  by (cases f) (simp_all add: ser_simps)

lemma put_fields_ser_of:
  "length bs + length (concat (map field_bytes fs)) < 2 ^ 32 \<Longrightarrow> \<forall>f \<in> set fs. readable f \<Longrightarrow>
   put_fields fs (ser_of bs) = Inr (ser_of (bs @ concat (map field_bytes fs)))"
  by (induction fs arbitrary: bs) (simp_all add: put_field_ser_of)

lemma get_field_read:
  "fits pre (field_bytes f @ xs) \<Longrightarrow>
   get_field (kind_of f) (de_cur pre (field_bytes f @ xs)) = Inr (as_read f, de_cur (pre @ field_bytes f) xs)"
  by (cases f) (simp_all add: deser_simps)

lemma get_fields_read:
  "fits pre (concat (map field_bytes fs)) \<Longrightarrow>
   get_fields (map kind_of fs) (de_cur pre (concat (map field_bytes fs)))
     = Inr (map as_read fs, de_cur (pre @ concat (map field_bytes fs)) [])"
  by (induction fs arbitrary: pre) (simp_all add: get_field_read)

section \<open>Properties\<close>

text \<open>
  C31. The signed readers add bytes to a signed integer without ever overflowing it: on every input they
  give what the unsigned loop gives, or throw for lack of bytes.
\<close>

theorem signed_reads_never_overflow:
  "deserialize_int32 d = deserialize_uint32 d
   \<and> deserialize_int64 d = and_then (validate_no_overflow 8 d) (\<lambda>_. Inr (unsigned_loop 8 0 d))"
  by (simp add: deserialize_int32_def deserialize_uint32_def deserialize_int64_def signed_loop_eq)

text \<open>
  C32. What the serializer writes the deserializer reads back: any sequence of values of all the types it has, in
  any order, leaves nothing unread, as long as its bytes fit the index and every pointer gives access to as
  many bytes as its length says. A C string is read back up to its first NUL.
\<close>

theorem any_sequence_round_trips:
  assumes "length (concat (map field_bytes fs)) < 2 ^ 32" "\<forall>f \<in> set fs. readable f"
  shows "\<exists>s d. put_fields fs new_serializer = Inr s
    \<and> get_fields (map kind_of fs) (new_deserializer (fst (data s))) = Inr (map as_read fs, d)
    \<and> bytes_available d = 0"
  using put_fields_ser_of [of "[]" fs] get_fields_read [of "[]" fs] assms
  by (simp add: new_serializer_eq data_ser_of new_deserializer_eq fits_def)

theorem any_sequence_round_trips_witness:
  "\<exists>s d. put_fields [Uint32 4000000000, Byte_Range [1, 2, 3] 2, Int64 (-5), Cstr ''ab'', Uint8 7, Int32 (-1)] new_serializer
       = Inr s
    \<and> get_fields [Kind_Uint32, Kind_Bytes, Kind_Int64, Kind_Str, Kind_Uint8, Kind_Int32] (new_deserializer (fst (data s)))
       = Inr ([Uint32 4000000000, Byte_Vector [1, 2], Int64 (-5), Str ''ab'', Uint8 7, Int32 (-1)], d)
    \<and> bytes_available d = 0"
  using any_sequence_round_trips [of "[Uint32 4000000000, Byte_Range [1, 2, 3] 2, Int64 (-5), Cstr ''ab'', Uint8 7, Int32 (-1)]"]
  by (simp add: c_str_def)

end
