(* ===== verification/Posix.thy ===== *)
theory Posix
  imports Codec
begin

text \<open>
  The interface to the C library and the kernel, which are not part of the sources. A call is a
  function on the world: \<open>errno\<close> of the calling thread and whatever the kernel keeps. The two
  records collect one such function per system call the sources make; every model function that
  makes system calls takes the record as its first argument, and nothing is assumed about its
  fields except where a theorem says so. The data the calls exchange is here as well.
\<close>

record 'w world =
  errno :: i32
  os :: 'w

type_synonym ('r, 'w) call = "'w world \<Rightarrow> 'r \<times> 'w world"

abbreviation EPERM :: i32 where "EPERM \<equiv> 1"
abbreviation ENOENT :: i32 where "ENOENT \<equiv> 2"
abbreviation EIO :: i32 where "EIO \<equiv> 5"
abbreviation EBADF :: i32 where "EBADF \<equiv> 9"
abbreviation EEXIST :: i32 where "EEXIST \<equiv> 17"
abbreviation EXDEV :: i32 where "EXDEV \<equiv> 18"
abbreviation EISDIR :: i32 where "EISDIR \<equiv> 21"
abbreviation EINVAL :: i32 where "EINVAL \<equiv> 22"

section \<open>Files and directories\<close>

record stat =
  st_mode :: u32
  st_nlink :: u64
  st_uid :: u32
  st_gid :: u32
  st_size :: i64
  st_atime :: i64
  st_mtime :: i64
  st_ctime :: i64

record statvfs =
  f_bsize :: u64
  f_frsize :: u64
  f_blocks :: u64
  f_bfree :: u64
  f_bavail :: u64
  f_files :: u64
  f_ffree :: u64
  f_favail :: u64
  f_fsid :: u64
  f_flag :: u64
  f_namemax :: u64

record dirent =
  d_ino :: u64
  d_type :: u8
  d_name :: string

record timespec =
  tv_sec :: i64
  tv_nsec :: i64

text \<open>A \<open>DIR *\<close> is an address; address 0 is the null pointer.\<close>

type_synonym dir_ptr = u64

abbreviation nullptr :: dir_ptr where "nullptr \<equiv> 0"

text \<open>
  Paths reach the C library as C strings. \<open>px_stat\<close> and \<open>px_statvfs\<close> take the buffer the caller
  passes and return its contents after the call, and so do \<open>px_read\<close> and \<open>px_pread\<close>. The two
  \<open>px_stack\<close> fields are what an automatic variable of the structure holds before anything is
  stored in it.
\<close>

record 'w posix =
  px_strerror :: "i32 \<Rightarrow> string"
  px_stack_stat :: "'w world \<Rightarrow> stat"
  px_stack_statvfs :: "'w world \<Rightarrow> statvfs"
  px_stat :: "string \<Rightarrow> stat \<Rightarrow> (i32 \<times> stat, 'w) call"
  px_access :: "string \<Rightarrow> i32 \<Rightarrow> (i32, 'w) call"
  px_rename :: "string \<Rightarrow> string \<Rightarrow> (i32, 'w) call"
  px_truncate :: "string \<Rightarrow> i64 \<Rightarrow> (i32, 'w) call"
  px_unlink :: "string \<Rightarrow> (i32, 'w) call"
  px_chmod :: "string \<Rightarrow> u32 \<Rightarrow> (i32, 'w) call"
  px_chown :: "string \<Rightarrow> u32 \<Rightarrow> u32 \<Rightarrow> (i32, 'w) call"
  px_utimensat :: "string \<Rightarrow> timespec \<Rightarrow> timespec \<Rightarrow> (i32, 'w) call"
  px_statvfs :: "string \<Rightarrow> statvfs \<Rightarrow> (i32 \<times> statvfs, 'w) call"
  px_open :: "string \<Rightarrow> i32 \<Rightarrow> u32 \<Rightarrow> (i32, 'w) call"
  px_close :: "i32 \<Rightarrow> (i32, 'w) call"
  px_read :: "i32 \<Rightarrow> u8 list \<Rightarrow> (i64 \<times> u8 list, 'w) call"
  px_pread :: "i32 \<Rightarrow> u8 list \<Rightarrow> i64 \<Rightarrow> (i64 \<times> u8 list, 'w) call"
  px_write :: "i32 \<Rightarrow> u8 list \<Rightarrow> (i64, 'w) call"
  px_pwrite :: "i32 \<Rightarrow> u8 list \<Rightarrow> i64 \<Rightarrow> (i64, 'w) call"
  px_opendir :: "string \<Rightarrow> (dir_ptr, 'w) call"
  px_closedir :: "dir_ptr \<Rightarrow> (i32, 'w) call"
  px_readdir :: "dir_ptr \<Rightarrow> (dirent option, 'w) call"
  px_mkdir :: "string \<Rightarrow> u32 \<Rightarrow> (i32, 'w) call"
  px_rmdir :: "string \<Rightarrow> (i32, 'w) call"

text \<open>
  A C library whose every call fails with the same \<open>errno\<close>: the instance the examples start from.
\<close>

definition fails :: "i32 \<Rightarrow> 'r \<Rightarrow> ('r, 'w) call" where
  "fails e r w = (r, w\<lparr>errno := e\<rparr>)"

definition blank_stat :: stat where
  "blank_stat = \<lparr>st_mode = 0, st_nlink = 0, st_uid = 0, st_gid = 0, st_size = 0, st_atime = 0,
     st_mtime = 0, st_ctime = 0\<rparr>"

definition blank_statvfs :: statvfs where
  "blank_statvfs = \<lparr>f_bsize = 0, f_frsize = 0, f_blocks = 0, f_bfree = 0, f_bavail = 0, f_files = 0,
     f_ffree = 0, f_favail = 0, f_fsid = 0, f_flag = 0, f_namemax = 0\<rparr>"

definition failing_posix :: "i32 \<Rightarrow> 'w posix" where
  "failing_posix e =
     \<lparr>px_strerror = (\<lambda>_. ''failed''), px_stack_stat = (\<lambda>_. blank_stat),
      px_stack_statvfs = (\<lambda>_. blank_statvfs),
      px_stat = (\<lambda>_ buf. fails e (-1, buf)), px_access = (\<lambda>_ _. fails e (-1)),
      px_rename = (\<lambda>_ _. fails e (-1)), px_truncate = (\<lambda>_ _. fails e (-1)),
      px_unlink = (\<lambda>_. fails e (-1)), px_chmod = (\<lambda>_ _. fails e (-1)),
      px_chown = (\<lambda>_ _ _. fails e (-1)), px_utimensat = (\<lambda>_ _ _. fails e (-1)),
      px_statvfs = (\<lambda>_ buf. fails e (-1, buf)), px_open = (\<lambda>_ _ _. fails e (-1)),
      px_close = (\<lambda>_. fails e (-1)), px_read = (\<lambda>_ buf. fails e (-1, buf)),
      px_pread = (\<lambda>_ buf _. fails e (-1, buf)), px_write = (\<lambda>_ _. fails e (-1)),
      px_pwrite = (\<lambda>_ _ _. fails e (-1)), px_opendir = (\<lambda>_. fails e nullptr),
      px_closedir = (\<lambda>_. fails e (-1)), px_readdir = (\<lambda>_. fails e None),
      px_mkdir = (\<lambda>_ _. fails e (-1)), px_rmdir = (\<lambda>_. fails e (-1))\<rparr>"

section \<open>Sockets and pipes\<close>

type_synonym address = "u32 \<times> u16"

text \<open>
  \<open>nt_getaddrinfo\<close> gives the result code and the first entry of the list; \<open>nt_accept\<close> the new
  descriptor with the peer's address and port as they are in memory; \<open>nt_recv\<close> the result and the
  bytes stored; \<open>nt_poll\<close> the result and whether the pipe has input; \<open>nt_pipe\<close> the result and the
  two ends.
\<close>

record 'w net =
  nt_strerror :: "i32 \<Rightarrow> string"
  nt_gai_strerror :: "i32 \<Rightarrow> string"
  nt_inet_ntoa :: "u32 \<Rightarrow> string"
  nt_getaddrinfo :: "string \<Rightarrow> string \<Rightarrow> (i32 \<times> address option, 'w) call"
  nt_freeaddrinfo :: "address \<Rightarrow> (unit, 'w) call"
  nt_socket :: "(i32, 'w) call"
  nt_connect :: "i32 \<Rightarrow> address \<Rightarrow> (i32, 'w) call"
  nt_reuseaddr :: "i32 \<Rightarrow> (i32, 'w) call"
  nt_bind :: "i32 \<Rightarrow> address \<Rightarrow> (i32, 'w) call"
  nt_listen :: "i32 \<Rightarrow> i32 \<Rightarrow> (i32, 'w) call"
  nt_accept :: "i32 \<Rightarrow> (i32 \<times> u32 \<times> u16, 'w) call"
  nt_shutdown :: "i32 \<Rightarrow> (i32, 'w) call"
  nt_close :: "i32 \<Rightarrow> (i32, 'w) call"
  nt_recv :: "i32 \<Rightarrow> u64 \<Rightarrow> (i64 \<times> u8 list, 'w) call"
  nt_send :: "i32 \<Rightarrow> u8 list \<Rightarrow> (i64, 'w) call"
  nt_poll :: "i32 \<Rightarrow> i32 \<Rightarrow> (i32 \<times> bool, 'w) call"
  nt_pipe :: "(i32 \<times> i32 \<times> i32, 'w) call"
  nt_write :: "i32 \<Rightarrow> u8 list \<Rightarrow> (i64, 'w) call"
  nt_read :: "i32 \<Rightarrow> u64 \<Rightarrow> (i64, 'w) call"

text \<open>A network whose every call fails, for the examples to start from.\<close>

definition failing_net :: "i32 \<Rightarrow> 'w net" where
  "failing_net e =
     \<lparr>nt_strerror = (\<lambda>_. ''failed''), nt_gai_strerror = (\<lambda>_. ''failed''),
      nt_inet_ntoa = (\<lambda>_. ''10.0.0.1''), nt_getaddrinfo = (\<lambda>_ _. fails e (-1, None)),
      nt_freeaddrinfo = (\<lambda>_ w. ((), w)),
      nt_socket = fails e (-1), nt_connect = (\<lambda>_ _. fails e (-1)),
      nt_reuseaddr = (\<lambda>_. fails e (-1)), nt_bind = (\<lambda>_ _. fails e (-1)),
      nt_listen = (\<lambda>_ _. fails e (-1)), nt_accept = (\<lambda>_. fails e (-1, 0, 0)),
      nt_shutdown = (\<lambda>_. fails e (-1)), nt_close = (\<lambda>_. fails e (-1)),
      nt_recv = (\<lambda>_ _. fails e (-1, [])), nt_send = (\<lambda>_ _. fails e (-1)),
      nt_poll = (\<lambda>_ _. fails e (-1, False)),
      nt_pipe = fails e (-1, 0, 0), nt_write = (\<lambda>_ _. fails e (-1)),
      nt_read = (\<lambda>_ _. fails e (-1))\<rparr>"

text \<open>
  A network whose only connection carries the bytes \<open>os\<close> of the world, at most three of them per
  call of \<open>recv\<close>.
\<close>

definition stream_net :: "u8 list net" where
  "stream_net = (failing_net EIO)
     \<lparr>nt_recv := (\<lambda>_ n w. let k = min 3 (min (unat n) (length (os w)))
        in ((word_of_nat k, take k (os w)), w\<lparr>os := drop k (os w)\<rparr>)),
      nt_poll := (\<lambda>_ _ w. ((1, False), w))\<rparr>"

text \<open>A kernel that opens the descriptors 3, 4 and 5, and keeps the open ones in \<open>os\<close>.\<close>

definition ledger_net :: "i32 multiset net" where
  "ledger_net = (failing_net EIO)
     \<lparr>nt_socket := (\<lambda>w. (3, w\<lparr>os := add_mset 3 (os w)\<rparr>)),
      nt_pipe := (\<lambda>w. ((0, 4, 5), w\<lparr>os := add_mset 4 (add_mset 5 (os w))\<rparr>)),
      nt_close := (\<lambda>fd w. (0, w\<lparr>os := os w - {#fd#}\<rparr>))\<rparr>"

end
