(* ===== verification/Sockets.thy ===== *)
theory Sockets
  imports Posix
begin

text \<open>
  \<open>base/Pipe\<close>, \<open>base/AddressInfo\<close>, \<open>base/AddressInfoErrorCategory\<close>, \<open>base/TcpSocket\<close> and
  \<open>common/CancellationPipe\<close>. A socket object is its descriptor, -1 when it owns none; a pipe object
  is its two descriptors.
\<close>

definition system_error :: "'w world \<Rightarrow> string \<Rightarrow> exn" where
  "system_error w what = SystemError (errno w) what"

section \<open>Pipe\<close>

record pipe =
  pipe_read_fd :: i32
  pipe_write_fd :: i32

definition pipe_new :: "'w net \<Rightarrow> (pipe result, 'w) call" where
  "pipe_new N w =
     (case nt_pipe N w of ((result, rfd, wfd), w') \<Rightarrow>
        if result \<noteq> 0 then (Inl (system_error w' ''Failed to create pipe''), w')
        else (Inr \<lparr>pipe_read_fd = rfd, pipe_write_fd = wfd\<rparr>, w'))"

text \<open>The move constructor: the new object and what is left of the old one.\<close>

definition pipe_move :: "pipe \<Rightarrow> pipe \<times> pipe" where
  "pipe_move other = (other, \<lparr>pipe_read_fd = -1, pipe_write_fd = -1\<rparr>)"

definition close_fd :: "'w net \<Rightarrow> i32 \<Rightarrow> 'w world \<Rightarrow> i32 \<times> 'w world" where
  "close_fd N fd w = (if fd \<noteq> -1 then (-1, snd (nt_close N fd w)) else (fd, w))"

definition pipe_delete :: "'w net \<Rightarrow> pipe \<Rightarrow> 'w world \<Rightarrow> pipe \<times> 'w world" where
  "pipe_delete N p w =
     (let (r, w1) = close_fd N (pipe_read_fd p) w; (s, w2) = close_fd N (pipe_write_fd p) w1
      in (\<lparr>pipe_read_fd = r, pipe_write_fd = s\<rparr>, w2))"

section \<open>CancellationPipe\<close>

definition cancellation_notify :: "'w net \<Rightarrow> pipe \<Rightarrow> (unit result, 'w) call" where
  "cancellation_notify N p w =
     (case nt_write N (pipe_write_fd p) [1] w of (result, w') \<Rightarrow>
        if result = -1 then (Inl (system_error w' ''Failed to write to cancellation pipe''), w')
        else (Inr (), w'))"

definition cancellation_clear :: "'w net \<Rightarrow> pipe \<Rightarrow> (unit result, 'w) call" where
  "cancellation_clear N p w =
     (case nt_read N (pipe_read_fd p) 64 w of (result, w') \<Rightarrow>
        if result = -1 then (Inl (system_error w' ''Failed to clear cancellation pipe''), w')
        else (Inr (), w'))"

section \<open>AddressInfo\<close>

abbreviation EAI_SYSTEM :: i32 where "EAI_SYSTEM \<equiv> -11"

text \<open>
  \<open>AddressInfoErrorCategory::message\<close>: the category holds the \<open>errno\<close> of its construction; the
  text is looked up under the current \<open>errno\<close>, not under the code it is asked about.
\<close>

definition gai_message :: "'w net \<Rightarrow> i32 \<Rightarrow> i32 \<Rightarrow> i32 \<Rightarrow> string" where
  "gai_message N category_errno current_errno gai_error =
     (if gai_error = EAI_SYSTEM then nt_strerror N category_errno
      else nt_gai_strerror N current_errno)"

definition address_info :: "'w net \<Rightarrow> string \<Rightarrow> u16 \<Rightarrow> (address option result, 'w) call" where
  "address_info N host port w =
     (case nt_getaddrinfo N (c_str host) (to_string (unat port)) w of ((result, info), w') \<Rightarrow>
        if result \<noteq> 0
        then (Inl (AddressInfoError result
                (''Failed to get address info: '' @ gai_message N (errno w') (errno w') result)), w')
        else (Inr info, w'))"

text \<open>The object owns the list: \<open>None\<close> is the null pointer, which a moved object is left with.\<close>

definition address_is_empty :: "address option \<Rightarrow> bool" where
  "address_is_empty info \<longleftrightarrow> info = None"

definition address_move :: "address option \<Rightarrow> address option \<times> address option" where
  "address_move other = (other, None)"

definition address_delete :: "'w net \<Rightarrow> address option \<Rightarrow> 'w world \<Rightarrow> address option \<times> 'w world" where
  "address_delete N info w =
     (case info of None \<Rightarrow> (None, w) | Some addr \<Rightarrow> (None, snd (nt_freeaddrinfo N addr w)))"

section \<open>TcpSocket\<close>

definition tcp_new :: "'w net \<Rightarrow> (i32 result, 'w) call" where
  "tcp_new N w =
     (case nt_socket N w of (fd, w') \<Rightarrow>
        if fd = -1 then (Inl (system_error w' ''Failed to create socket''), w') else (Inr fd, w'))"

definition tcp_move :: "i32 \<Rightarrow> i32 \<times> i32" where
  "tcp_move other = (other, -1)"

text \<open>\<open>connect\<close> and \<open>bind\<close> release the list of addresses on every way out.\<close>

definition resolved ::
    "'w net \<Rightarrow> string \<Rightarrow> u16 \<Rightarrow> (address \<Rightarrow> (unit result, 'w) call) \<Rightarrow> (unit result, 'w) call" where
  "resolved N host port k w =
     (case address_info N host port w of
        (Inl e, w1) \<Rightarrow> (Inl e, w1)
      | (Inr info, w1) \<Rightarrow>
          (case (case info of
                   None \<Rightarrow> (Inl (RuntimeError (''Unable to resolve hostname: '' @ host)), w1)
                 | Some addr \<Rightarrow> k addr w1) of
             (r, w2) \<Rightarrow> (r, snd (address_delete N info w2))))"

definition tcp_connect :: "'w net \<Rightarrow> i32 \<Rightarrow> string \<Rightarrow> u16 \<Rightarrow> (unit result, 'w) call" where
  "tcp_connect N sock host port = resolved N host port (\<lambda>addr w.
     case nt_connect N sock addr w of (result, w1) \<Rightarrow>
       if result = -1 then (Inl (system_error w1 ''Failed to connect''), w1) else (Inr (), w1))"

definition tcp_bind :: "'w net \<Rightarrow> i32 \<Rightarrow> string \<Rightarrow> u16 \<Rightarrow> (unit result, 'w) call" where
  "tcp_bind N sock host port = resolved N host port (\<lambda>addr w.
     case nt_reuseaddr N sock w of (result, w1) \<Rightarrow>
       if result = -1 then (Inl (system_error w1 ''Failed to set socket option REUSEADDR''), w1)
       else (case nt_bind N sock addr w1 of (result, w2) \<Rightarrow>
               if result = -1 then (Inl (system_error w2 ''Failed to bind''), w2) else (Inr (), w2)))"

definition tcp_listen :: "'w net \<Rightarrow> i32 \<Rightarrow> i32 \<Rightarrow> (unit result, 'w) call" where
  "tcp_listen N sock backlog w =
     (case nt_listen N sock backlog w of (result, w') \<Rightarrow>
        if result = -1 then (Inl (system_error w' ''Failed to set backlog''), w') else (Inr (), w'))"

definition tcp_close :: "'w net \<Rightarrow> i32 \<Rightarrow> 'w world \<Rightarrow> i32 \<times> 'w world" where
  "tcp_close N sock w =
     (if sock \<noteq> -1 then (-1, snd (nt_close N sock (snd (nt_shutdown N sock w)))) else (sock, w))"

text \<open>The destructor: what \<open>close\<close> might throw is logged.\<close>

abbreviation tcp_delete :: "'w net \<Rightarrow> i32 \<Rightarrow> 'w world \<Rightarrow> 'w world" where
  "tcp_delete N sock w \<equiv> snd (tcp_close N sock w)"

definition tcp_accept :: "'w net \<Rightarrow> i32 \<Rightarrow> ((i32 \<times> u32 \<times> u16) result, 'w) call" where
  "tcp_accept N sock w =
     (case nt_accept N sock w of ((fd, ip, port), w') \<Rightarrow>
        if fd = -1 then (Inl (system_error w' ''Failed to accept''), w')
        else (Inr (fd, ip, port), w'))"

text \<open>\<open>recv\<close> returns how many bytes it stored; the model returns the bytes with the count.\<close>

definition tcp_recv :: "'w net \<Rightarrow> i32 \<Rightarrow> u64 \<Rightarrow> ((u64 \<times> u8 list) result, 'w) call" where
  "tcp_recv N sock n w =
     (case nt_recv N sock n w of ((result, bytes), w') \<Rightarrow>
        if sint result \<le> -1 then (Inl (system_error w' ''Failed to recv''), w')
        else (Inr (result, bytes), w'))"

text \<open>\<open>send\<close> looks only at the sign of the result, not at how many bytes were taken.\<close>

definition tcp_send :: "'w net \<Rightarrow> i32 \<Rightarrow> u8 list \<Rightarrow> (unit result, 'w) call" where
  "tcp_send N sock bytes w =
     (case nt_send N sock bytes w of (result, w') \<Rightarrow>
        if sint result \<le> -1 then (Inl (system_error w' ''Failed to send''), w') else (Inr (), w'))"

definition tcp_poll :: "'w net \<Rightarrow> i32 \<Rightarrow> i32 \<Rightarrow> (bool result, 'w) call" where
  "tcp_poll N sock cancellation_pipe w =
     (case nt_poll N sock cancellation_pipe w of ((result, pipe_ready), w') \<Rightarrow>
        if sint result \<le> -1 then (Inl (system_error w' ''Failed to poll''), w')
        else if pipe_ready then (Inr False, snd (nt_read N cancellation_pipe 64 w'))
        else (Inr True, w'))"

text \<open>The port is not part of the name.\<close>

definition format_connection :: "'w net \<Rightarrow> u32 \<Rightarrow> u16 \<Rightarrow> string" where
  "format_connection N ip port = nt_inet_ntoa N ip"

section \<open>Ownership of descriptors\<close>

lemma tcp_close_result: "fst (tcp_close N sock w) = -1"
  by (simp add: tcp_close_def)

lemma tcp_close_closed: "tcp_close N (-1) w = (-1, w)"
  by (simp add: tcp_close_def)

lemma pipe_delete_moved: "pipe_delete N (snd (pipe_move p)) w = (snd (pipe_move p), w)"
  by (simp add: pipe_delete_def pipe_move_def close_fd_def)

lemma pipe_delete_twice:
  "pipe_delete N p w = (p', w') \<Longrightarrow> pipe_delete N p' w' = (p', w')"
  by (auto simp: pipe_delete_def close_fd_def split: if_splits)

text \<open>
  \<open>keeps_ledger N L\<close>: \<open>L\<close> are the descriptors that are open in a world, as the documentation of the
  calls has it. \<open>socket\<close>, \<open>accept\<close> and \<open>pipe\<close> open some when they succeed, \<open>close\<close> closes one, and no
  other call does either.
\<close>

definition same_ledger :: "('w world \<Rightarrow> i32 multiset) \<Rightarrow> ('r, 'w) call \<Rightarrow> bool" where
  "same_ledger L f \<longleftrightarrow> (\<forall>w r w'. f w = (r, w') \<longrightarrow> L w' = L w)"

definition keeps_ledger :: "'w net \<Rightarrow> ('w world \<Rightarrow> i32 multiset) \<Rightarrow> bool" where
  "keeps_ledger N L \<longleftrightarrow>
     (\<forall>w fd w'. nt_socket N w = (fd, w') \<longrightarrow> L w' = (if fd = -1 then L w else add_mset fd (L w)))
     \<and> (\<forall>sock w fd peer w'. nt_accept N sock w = ((fd, peer), w') \<longrightarrow>
          L w' = (if fd = -1 then L w else add_mset fd (L w)))
     \<and> (\<forall>w result r s w'. nt_pipe N w = ((result, r, s), w') \<longrightarrow>
          (if result \<noteq> 0 then L w' = L w
           else r \<noteq> -1 \<and> s \<noteq> -1 \<and> L w' = add_mset r (add_mset s (L w))))
     \<and> (\<forall>fd w r w'. nt_close N fd w = (r, w') \<longrightarrow> L w' = L w - {#fd#})
     \<and> (\<forall>host port. same_ledger L (nt_getaddrinfo N host port))
     \<and> (\<forall>addr. same_ledger L (nt_freeaddrinfo N addr))
     \<and> (\<forall>sock addr. same_ledger L (nt_connect N sock addr))
     \<and> (\<forall>sock. same_ledger L (nt_reuseaddr N sock))
     \<and> (\<forall>sock addr. same_ledger L (nt_bind N sock addr))
     \<and> (\<forall>sock n. same_ledger L (nt_listen N sock n))
     \<and> (\<forall>sock. same_ledger L (nt_shutdown N sock))
     \<and> (\<forall>fd bytes. same_ledger L (nt_write N fd bytes))"

lemma same_ledgerD: "same_ledger L f \<Longrightarrow> f w = (r, w') \<Longrightarrow> L w' = L w"
  unfolding same_ledger_def by blast

lemma same_ledger_snd: "same_ledger L f \<Longrightarrow> L (snd (f w)) = L w"
  by (cases "f w") (auto dest: same_ledgerD)

lemma keeps_ledgerD:
  assumes "keeps_ledger N L"
  shows "nt_socket N w = (fd, w') \<Longrightarrow> L w' = (if fd = -1 then L w else add_mset fd (L w))"
    "nt_accept N sock w = ((fd, peer), w') \<Longrightarrow> L w' = (if fd = -1 then L w else add_mset fd (L w))"
    "nt_pipe N w = ((result, r, s), w') \<Longrightarrow>
      if result \<noteq> 0 then L w' = L w
      else r \<noteq> -1 \<and> s \<noteq> -1 \<and> L w' = add_mset r (add_mset s (L w))"
    "nt_close N fd w = (closed, w') \<Longrightarrow> L w' = L w - {#fd#}"
    "same_ledger L (nt_shutdown N sock)"
    "same_ledger L (nt_getaddrinfo N host port)" "same_ledger L (nt_freeaddrinfo N addr)"
    "same_ledger L (nt_connect N sock addr)" "same_ledger L (nt_reuseaddr N sock)"
    "same_ledger L (nt_bind N sock addr)" "same_ledger L (nt_listen N sock n)"
    "same_ledger L (nt_write N fd bytes)"
  using assms unfolding keeps_ledger_def by meson+

text \<open>What an object with this descriptor closes.\<close>

definition held :: "i32 \<Rightarrow> i32 multiset" where
  "held fd = (if fd = -1 then {#} else {#fd#})"

definition pipe_held :: "pipe \<Rightarrow> i32 multiset" where
  "pipe_held p = held (pipe_read_fd p) + held (pipe_write_fd p)"

lemma close_ledger:
  assumes "keeps_ledger N L"
  shows "close_fd N fd w = (fd', w') \<Longrightarrow> L w' = L w - held fd"
    "tcp_close N fd w = (fd', w') \<Longrightarrow> L w' = L w - held fd"
proof -
  have "L (snd (nt_close N fd w)) = L w - {#fd#}" "L (snd (nt_shutdown N fd w)) = L w" for w
    using keeps_ledgerD(4) [OF assms] same_ledgerD [OF keeps_ledgerD(5) [OF assms]]
    by (metis prod.collapse)+
  then show "close_fd N fd w = (fd', w') \<Longrightarrow> L w' = L w - held fd"
    "tcp_close N fd w = (fd', w') \<Longrightarrow> L w' = L w - held fd"
    by (auto simp: close_fd_def tcp_close_def held_def split: if_splits)
qed

lemma pipe_delete_ledger:
  assumes "keeps_ledger N L" "pipe_delete N p w = (p', w')"
  shows "L w' = L w - pipe_held p"
proof -
  obtain r w1 s where "close_fd N (pipe_read_fd p) w = (r, w1)" "close_fd N (pipe_write_fd p) w1 = (s, w')"
    using assms(2) by (auto simp: pipe_delete_def Let_def split: prod.splits)
  then show ?thesis by (simp add: close_ledger(1) [OF assms(1)] pipe_held_def)
qed

lemma tcp_new_ledger:
  assumes "keeps_ledger N L"
  shows "tcp_new N w = (Inr fd, w') \<Longrightarrow> L w' = L w + held fd"
    "tcp_new N w = (Inl e, w') \<Longrightarrow> L w' = L w"
  by (auto simp: tcp_new_def held_def split: prod.splits if_splits dest!: keeps_ledgerD(1) [OF assms])

lemma pipe_new_ledger:
  assumes "keeps_ledger N L"
  shows "pipe_new N w = (Inr p, w') \<Longrightarrow> L w' = L w + pipe_held p"
    "pipe_new N w = (Inl e, w') \<Longrightarrow> L w' = L w"
  by (auto simp: pipe_new_def pipe_held_def held_def split: prod.splits if_splits
      dest!: keeps_ledgerD(3) [OF assms])

lemma address_ledger:
  assumes "keeps_ledger N L"
  shows "address_info N host port w = (r, w') \<Longrightarrow> L w' = L w"
    "L (snd (address_delete N info w)) = L w"
proof -
  show "address_info N host port w = (r, w') \<Longrightarrow> L w' = L w"
    by (auto simp: address_info_def split: prod.splits if_splits
        dest!: same_ledgerD [OF keeps_ledgerD(6) [OF assms]])
  show "L (snd (address_delete N info w)) = L w"
    by (simp add: address_delete_def same_ledger_snd [OF keeps_ledgerD(7) [OF assms]] split: option.split)
qed

lemma resolved_ledger:
  assumes "keeps_ledger N L" "\<And>addr. same_ledger L (k addr)"
  shows "same_ledger L (resolved N host port k)"
proof -
  note facts = address_ledger [OF assms(1)]
  have "L (snd (resolved N host port k w)) = L w" for w
    by (auto simp: resolved_def facts(2) split: sum.splits option.splits prod.splits
        dest!: facts(1) same_ledgerD [OF assms(2)])
  then show ?thesis unfolding same_ledger_def by (metis snd_conv)
qed

lemma socket_calls_ledger:
  assumes "keeps_ledger N L"
  shows "same_ledger L (tcp_connect N sock host port)" "same_ledger L (tcp_bind N sock host port)"
    "same_ledger L (tcp_listen N sock n)" "same_ledger L (cancellation_notify N p)"
proof -
  note calls = keeps_ledgerD(8-12) [OF assms, THEN same_ledgerD]
  show "same_ledger L (tcp_connect N sock host port)"
    unfolding tcp_connect_def
    by (intro resolved_ledger [OF assms])
      (auto simp: same_ledger_def split: prod.splits if_splits dest!: calls)
  show "same_ledger L (tcp_bind N sock host port)"
    unfolding tcp_bind_def
    by (intro resolved_ledger [OF assms])
      (auto simp: same_ledger_def split: prod.splits if_splits dest!: calls)
  show "same_ledger L (tcp_listen N sock n)" "same_ledger L (cancellation_notify N p)"
    by (auto simp: same_ledger_def tcp_listen_def cancellation_notify_def
        split: prod.splits if_splits dest!: calls)
qed

lemma ledger_net_keeps: "keeps_ledger ledger_net os"
  unfolding keeps_ledger_def same_ledger_def ledger_net_def failing_net_def fails_def by auto

end
