(* ===== verification/Message_Transport.thy ===== *)
theory Message_Transport
  imports Sockets
begin

text \<open>
  \<open>common/MessageTransport\<close>: the message types of the wire, the message, and the transport that
  frames messages on a TCP stream: a nine-byte header (id, type, length of the data) and the data.
  \<open>read\<close> polls and receives until it has exactly the bytes it wants; \<open>write\<close> sends one buffer.
\<close>

section \<open>Message types\<close>

datatype commander_message_type =
    Disconnect | GetAttr | Access | Rename | Truncate | Unlink | ChangeMode | ChangeOwner
  | SetTimes | StatFileSystem | Open | Close | Read | PRead | Write | PWrite | OpenDir | CloseDir
  | ReadDir | MakeDir | RemoveDir | GetXAttr | SetXAttr | ListXAttr | RemoveXAttr

fun commander_code :: "commander_message_type \<Rightarrow> u8" where
  "commander_code Disconnect = 0"
| "commander_code GetAttr = 1"
| "commander_code Access = 2"
| "commander_code Rename = 3"
| "commander_code Truncate = 4"
| "commander_code Unlink = 5"
| "commander_code ChangeMode = 6"
| "commander_code ChangeOwner = 7"
| "commander_code SetTimes = 8"
| "commander_code StatFileSystem = 9"
| "commander_code Open = 10"
| "commander_code Close = 11"
| "commander_code Read = 12"
| "commander_code PRead = 13"
| "commander_code Write = 14"
| "commander_code PWrite = 15"
| "commander_code OpenDir = 16"
| "commander_code CloseDir = 17"
| "commander_code ReadDir = 18"
| "commander_code MakeDir = 19"
| "commander_code RemoveDir = 20"
| "commander_code GetXAttr = 21"
| "commander_code SetXAttr = 22"
| "commander_code ListXAttr = 23"
| "commander_code RemoveXAttr = 24"

datatype worker_message_type = CommandResult | CommandError | CommandUnknown

fun worker_code :: "worker_message_type \<Rightarrow> u8" where
  "worker_code CommandResult = 0"
| "worker_code CommandError = 1"
| "worker_code CommandUnknown = 2"

text \<open>The enumerations are ordered by their codes, as in the source.\<close>

lemma commander_code_inject: "commander_code a = commander_code b \<Longrightarrow> a = b"
  by (cases a; cases b) simp_all

lemma worker_code_inject: "worker_code a = worker_code b \<Longrightarrow> a = b"
  by (cases a; cases b) simp_all

instantiation commander_message_type :: linorder
begin

definition less_eq_commander_message_type ::
    "commander_message_type \<Rightarrow> commander_message_type \<Rightarrow> bool" where
  "less_eq_commander_message_type a b \<longleftrightarrow> commander_code a \<le> commander_code b"

definition less_commander_message_type ::
    "commander_message_type \<Rightarrow> commander_message_type \<Rightarrow> bool" where
  "less_commander_message_type a b \<longleftrightarrow> commander_code a < commander_code b"

instance
  by standard
    (auto simp: less_eq_commander_message_type_def less_commander_message_type_def
      intro: commander_code_inject)

end

section \<open>Messages\<close>

record message =
  msg_id :: u32
  msg_type :: u8
  msg_data :: "u8 list"

definition encode_message :: "message \<Rightarrow> u8 list" where
  "encode_message m =
     fst (data (serialize_byte_vector (msg_data m)
       (serialize_uint8 (msg_type m) (serialize_uint32 (msg_id m) new_serializer))))"

definition decode_header :: "u8 list \<Rightarrow> (u32 \<times> u8 \<times> u32) result" where
  "decode_header header =
     and_then (deserialize_uint32 (new_deserializer header)) (\<lambda>(ident, d1).
     and_then (deserialize_uint8 d1) (\<lambda>(type, d2).
     and_then (deserialize_uint32 d2) (\<lambda>(data_size, _). Inr (ident, type, data_size))))"

section \<open>The transport\<close>

record transport =
  mt_socket :: i32
  mt_pipe :: pipe

text \<open>
  \<open>_read_exactly\<close>: \<open>buffer\<close> is the part of the caller's buffer filled so far. A kernel that stores
  more than it was asked for writes past the buffer, which is undefined; a kernel that returns 0
  reports the end of the stream. Everything else shrinks what is left to read.
\<close>

lemma sub_decreases: "0 < r \<Longrightarrow> r \<le> x \<Longrightarrow> unat (x - r) < unat (x :: 'a::len word)"
  by (simp add: unat_sub word_le_nat_alt word_less_nat_alt)

lemma ucast_le_narrow:
  assumes "result \<le> (ucast x :: u64)"
  shows "(ucast result :: u32) \<le> x" "unat (ucast result :: u32) = unat result"
proof -
  have small: "unat x < 2 ^ 32" using unsigned_less [of x, where 'a = nat] by simp
  then have "unat (ucast x :: u64) = unat x"
    by (simp add: unsigned_ucast_eq take_bit_nat_eq_self)
  then have le: "unat result \<le> unat x" using assms by (simp add: word_le_nat_alt)
  moreover note small
  ultimately show "unat (ucast result :: u32) = unat result"
    by (simp add: unsigned_ucast_eq take_bit_nat_eq_self)
  with le show "(ucast result :: u32) \<le> x" by (simp add: word_le_nat_alt)
qed

function read_exactly_loop ::
    "'w net \<Rightarrow> transport \<Rightarrow> u32 \<Rightarrow> u32 \<Rightarrow> u8 list \<Rightarrow> (u8 list result, 'w) call" where
  "read_exactly_loop N t wanted got buffer w =
     (if got < wanted then
        (case tcp_poll N (mt_socket t) (pipe_read_fd (mt_pipe t)) w of
           (Inl e, w1) \<Rightarrow> (Inl e, w1)
         | (Inr ready, w1) \<Rightarrow>
             if \<not> ready then (Inl (CancellationException ''Poll was cancelled''), w1)
             else
               (case tcp_recv N (mt_socket t) (ucast (wanted - got)) w1 of
                  (Inl e, w2) \<Rightarrow> (Inl e, w2)
                | (Inr (result, bytes), w2) \<Rightarrow>
                    if ucast (wanted - got) < result
                    then (Inl (Undefined ''recv stored more than it was asked for''), w2)
                    else if (ucast result :: u32) = 0 then (Inl TransportClosed, w2)
                    else read_exactly_loop N t wanted (got + ucast result) (buffer @ bytes) w2))
      else (Inr buffer, w))"
  by pat_completeness auto
termination
proof (relation "measure (\<lambda>(N, t, wanted, got, buffer, w). unat (wanted - got))", goal_cases)
  case (2 N t wanted got buffer w poll_result w1 ready recv_result w2 received result bytes)
  then have "(ucast result :: u32) \<le> wanted - got" by (intro ucast_le_narrow) simp
  with 2 show ?case
    using sub_decreases [of "ucast result" "wanted - got"]
    by (simp add: word_gt_0 diff_diff_eq)
qed simp

declare read_exactly_loop.simps [simp del]

definition read_exactly :: "'w net \<Rightarrow> transport \<Rightarrow> u32 \<Rightarrow> (u8 list result, 'w) call" where
  "read_exactly N t wanted w = read_exactly_loop N t wanted 0 [] w"

definition transport_read :: "'w net \<Rightarrow> transport \<Rightarrow> (message result, 'w) call" where
  "transport_read N t w =
     (case read_exactly N t 9 w of
        (Inl e, w1) \<Rightarrow> (Inl e, w1)
      | (Inr header, w1) \<Rightarrow>
          (case decode_header header of
             Inl e \<Rightarrow> (Inl e, w1)
           | Inr (ident, type, data_size) \<Rightarrow>
               (case read_exactly N t data_size w1 of
                  (Inl e, w2) \<Rightarrow> (Inl e, w2)
                | (Inr msg_buffer, w2) \<Rightarrow>
                    (and_then (deserialize_bytes data_size (new_deserializer msg_buffer))
                       (\<lambda>(dat, _). Inr \<lparr>msg_id = ident, msg_type = type, msg_data = dat\<rparr>), w2))))"

definition transport_write :: "'w net \<Rightarrow> transport \<Rightarrow> message \<Rightarrow> (unit result, 'w) call" where
  "transport_write N t m w = tcp_send N (mt_socket t) (encode_message m) w"

text \<open>\<open>close\<close>: if the notification throws, the socket stays open.\<close>

definition transport_close ::
    "'w net \<Rightarrow> transport \<Rightarrow> 'w world \<Rightarrow> unit result \<times> transport \<times> 'w world" where
  "transport_close N t w =
     (case cancellation_notify N (mt_pipe t) w of
        (Inl e, w1) \<Rightarrow> (Inl e, t, w1)
      | (Inr _, w1) \<Rightarrow>
          (case tcp_close N (mt_socket t) w1 of (sock, w2) \<Rightarrow>
             (Inr (), t\<lparr>mt_socket := sock\<rparr>, w2)))"

text \<open>
  The constructors and the destructor. A constructor that throws destroys the members that are
  already there, in the reverse of their order; the destructor logs what \<open>close\<close> throws, and then the
  members close whatever is still open.
\<close>

definition delete_members :: "'w net \<Rightarrow> transport \<Rightarrow> 'w world \<Rightarrow> 'w world" where
  "delete_members N t w = tcp_delete N (mt_socket t) (snd (pipe_delete N (mt_pipe t) w))"

definition transport_of_socket :: "'w net \<Rightarrow> i32 \<Rightarrow> (transport result, 'w) call" where
  "transport_of_socket N sock w =
     (case pipe_new N w of
        (Inl e, w1) \<Rightarrow> (Inl e, tcp_delete N sock w1)
      | (Inr p, w1) \<Rightarrow> (Inr \<lparr>mt_socket = sock, mt_pipe = p\<rparr>, w1))"

definition transport_new :: "'w net \<Rightarrow> string \<Rightarrow> u16 \<Rightarrow> (transport result, 'w) call" where
  "transport_new N host port w =
     (case tcp_new N w of
        (Inl e, w1) \<Rightarrow> (Inl e, w1)
      | (Inr sock, w1) \<Rightarrow>
          (case transport_of_socket N sock w1 of
             (Inl e, w2) \<Rightarrow> (Inl e, w2)
           | (Inr t, w2) \<Rightarrow>
               (case tcp_connect N sock host port w2 of
                  (Inl e, w3) \<Rightarrow> (Inl e, delete_members N t w3)
                | (Inr _, w3) \<Rightarrow> (Inr t, w3))))"

definition delete_transport :: "'w net \<Rightarrow> transport \<Rightarrow> 'w world \<Rightarrow> 'w world" where
  "delete_transport N t w = (case transport_close N t w of (_, t1, w1) \<Rightarrow> delete_members N t1 w1)"

section \<open>Framing\<close>

lemma encode_message_eq:
  "encode_message m = be32 (msg_id m) @ msg_type m # enc_bytes (msg_data m)"
  by (simp add: encode_message_def ser_simps)

definition header_of :: "message \<Rightarrow> u8 list" where
  "header_of m = be32 (msg_id m) @ msg_type m # be32 (word_of_nat (length (msg_data m)))"

lemma encode_message_header: "encode_message m = header_of m @ msg_data m"
  by (simp add: encode_message_eq header_of_def enc_bytes_def)

lemma length_header_of [simp]: "length (header_of m) = 9"
  by (simp add: header_of_def)

lemma decode_header_of:
  "decode_header (header_of m) = Inr (msg_id m, msg_type m, word_of_nat (length (msg_data m)))"
  using deserialize_uint32_read [of _ "word_of_nat (length (msg_data m))" "[]"]
  by (simp add: decode_header_def header_of_def new_deserializer_eq deser_simps fits_def)

text \<open>
  What TCP promises about a connected socket while nobody cancels: \<open>poll\<close> reports it readable,
  and \<open>recv\<close> takes some of the bytes the peer sent, in order and at least one of them until they
  are all taken; then it returns 0. \<open>pending w\<close> are the bytes not yet taken.
\<close>

definition reliable_stream :: "'w net \<Rightarrow> transport \<Rightarrow> ('w world \<Rightarrow> u8 list) \<Rightarrow> bool" where
  "reliable_stream N t pending \<longleftrightarrow>
     (\<forall>w. (\<exists>result w'. nt_poll N (mt_socket t) (pipe_read_fd (mt_pipe t)) w = ((result, False), w')
              \<and> 0 < sint result \<and> pending w' = pending w)
        \<and> (\<forall>n. 0 < n \<and> n < 2 ^ 32 \<longrightarrow>
             (\<exists>k w'. nt_recv N (mt_socket t) n w = ((word_of_nat k, take k (pending w)), w')
                \<and> k \<le> unat n \<and> k \<le> length (pending w) \<and> (pending w \<noteq> [] \<longrightarrow> 0 < k)
                \<and> pending w' = drop k (pending w))))"

lemma reliable_poll:
  assumes "reliable_stream N t pending"
  obtains w' where "tcp_poll N (mt_socket t) (pipe_read_fd (mt_pipe t)) w = (Inr True, w')"
    "pending w' = pending w"
proof -
  from assms obtain result w' where
    "nt_poll N (mt_socket t) (pipe_read_fd (mt_pipe t)) w = ((result, False), w')"
    "0 < sint result" "pending w' = pending w"
    by (metis reliable_stream_def)
  then show thesis by (intro that [of w']) (simp_all add: tcp_poll_def)
qed

lemma reliable_recv:
  assumes "reliable_stream N t pending" "0 < n" "n < 2 ^ 32"
  obtains k w' where
    "tcp_recv N (mt_socket t) n w = (Inr (word_of_nat k, take k (pending w)), w')"
    "k \<le> unat n" "k \<le> length (pending w)" "pending w \<noteq> [] \<Longrightarrow> 0 < k"
    "pending w' = drop k (pending w)"
proof -
  from assms obtain k w' where
    recv: "nt_recv N (mt_socket t) n w = ((word_of_nat k, take k (pending w)), w')"
    and k: "k \<le> unat n" "k \<le> length (pending w)" "pending w \<noteq> [] \<Longrightarrow> 0 < k"
      "pending w' = drop k (pending w)"
    unfolding reliable_stream_def by blast
  have "unat n < 2 ^ 32" using assms(3) by (simp add: word_less_nat_alt)
  with k(1) have "k < 2 ^ 32" by simp
  then have "sint (word_of_nat k :: i64) = int k"
    by (simp add: signed_of_nat signed_take_bit_int_eq_self)
  then show thesis using that [of k w'] recv k by (simp add: tcp_recv_def)
qed

text \<open>One round of the loop on such a stream.\<close>

lemma read_exactly_round:
  assumes stream: "reliable_stream N t pending" and less: "got < wanted"
  obtains k w' where
    "k \<le> unat (wanted - got)" "k \<le> length (pending w)" "pending w \<noteq> [] \<Longrightarrow> 0 < k"
    "pending w' = drop k (pending w)"
    "read_exactly_loop N t wanted got buffer w
       = (if k = 0 then (Inl TransportClosed, w')
          else read_exactly_loop N t wanted (got + word_of_nat k) (buffer @ take k (pending w)) w')"
proof -
  let ?n = "wanted - got"
  have n: "0 < ?n" using less by (simp add: word_gt_0)
  have bound: "unat ?n < 2 ^ 32" using unsigned_less [of ?n, where 'a = nat] by simp
  have wide: "unat (ucast ?n :: u64) = unat ?n"
    using bound by (simp add: unsigned_ucast_eq take_bit_nat_eq_self)
  obtain w1 where poll: "tcp_poll N (mt_socket t) (pipe_read_fd (mt_pipe t)) w = (Inr True, w1)"
    and w1: "pending w1 = pending w"
    by (rule reliable_poll [OF stream])
  have "0 < (ucast ?n :: u64)" "(ucast ?n :: u64) < 2 ^ 32"
    using n bound wide by (simp_all add: word_less_nat_alt)
  then obtain k w2 where recv:
      "tcp_recv N (mt_socket t) (ucast ?n) w1 = (Inr (word_of_nat k, take k (pending w1)), w2)"
    and k: "k \<le> unat (ucast ?n :: u64)" "k \<le> length (pending w1)"
      "pending w1 \<noteq> [] \<Longrightarrow> 0 < k" "pending w2 = drop k (pending w1)"
    using reliable_recv [OF stream, where w = w1 and n = "ucast ?n"] by metis
  have k32: "k < 2 ^ 32" using k(1) wide bound by simp
  then have small: "(ucast (word_of_nat k :: u64) :: u32) = word_of_nat k"
    by (intro ucast_word_of_nat) simp
  have "\<not> (ucast ?n :: u64) < word_of_nat k"
    using k(1) k32 by (simp add: word_less_nat_alt unat_of_nat)
  moreover have "(word_of_nat k :: u32) = 0 \<longleftrightarrow> k = 0"
    using k32 by (auto simp: word_of_nat_eq_0_iff dest: nat_dvd_not_less)
  ultimately have "read_exactly_loop N t wanted got buffer w
      = (if k = 0 then (Inl TransportClosed, w2)
         else read_exactly_loop N t wanted (got + word_of_nat k) (buffer @ take k (pending w)) w2)"
    using less by (subst read_exactly_loop.simps) (simp add: poll recv small w1)
  with k show thesis by (intro that [of k w2]) (simp_all add: wide w1)
qed

lemma advance_word:
  assumes "got \<le> (wanted :: 'a::len word)" "k \<le> unat (wanted - got)"
  shows "unat (wanted - (got + word_of_nat k)) = unat (wanted - got) - k"
    and "got + word_of_nat k \<le> wanted"
proof -
  have diff: "unat (wanted - got) = unat wanted - unat got" using assms(1) by (rule unat_sub)
  have bound: "unat wanted < 2 ^ LENGTH('a)" by (rule unsigned_less)
  have sum: "unat got + k \<le> unat wanted"
    using assms diff by (simp add: word_le_nat_alt)
  then have "unat got + k < 2 ^ LENGTH('a)" using bound by linarith
  then have k: "unat (got + word_of_nat k) = unat got + k"
    by (simp add: unat_word_ariths unat_of_nat mod_simps)
  then show "got + word_of_nat k \<le> wanted" using sum by (simp add: word_le_nat_alt)
  then show "unat (wanted - (got + word_of_nat k)) = unat (wanted - got) - k"
    using k diff by (simp add: unat_sub)
qed

lemma read_exactly_loop_stream:
  assumes stream: "reliable_stream N t pending" and "got \<le> wanted"
  shows "if unat (wanted - got) \<le> length (pending w)
    then \<exists>w'. read_exactly_loop N t wanted got buffer w
           = (Inr (buffer @ take (unat (wanted - got)) (pending w)), w')
         \<and> pending w' = drop (unat (wanted - got)) (pending w)
    else \<exists>w'. read_exactly_loop N t wanted got buffer w = (Inl TransportClosed, w')"
  using assms(2)
proof (induction "unat (wanted - got)" arbitrary: got buffer w rule: less_induct)
  case less
  show ?case
  proof (cases "got = wanted")
    case True
    then show ?thesis by (subst (1 2) read_exactly_loop.simps) simp
  next
    case False
    with less.prems have lt: "got < wanted" by simp
    obtain k w' where k: "k \<le> unat (wanted - got)" "k \<le> length (pending w)"
        "pending w \<noteq> [] \<Longrightarrow> 0 < k" "pending w' = drop k (pending w)"
      and step: "read_exactly_loop N t wanted got buffer w
        = (if k = 0 then (Inl TransportClosed, w')
           else read_exactly_loop N t wanted (got + word_of_nat k) (buffer @ take k (pending w)) w')"
      using read_exactly_round [OF stream lt, where w = w and buffer = buffer] by metis
    have pos: "0 < unat (wanted - got)" using lt by (simp add: unat_gt_0)
    show ?thesis
    proof (cases "k = 0")
      case True
      with k have "pending w = []" by auto
      with True step pos show ?thesis by simp
    next
      case False
      let ?got = "got + word_of_nat k :: u32"
      have left: "unat (wanted - ?got) = unat (wanted - got) - k" and "?got \<le> wanted"
        using advance_word [OF less.prems k(1)] by simp_all
      then show ?thesis
        using less.hyps [of ?got w' "buffer @ take k (pending w)"] step False k pos
        by (auto simp: take_add [symmetric] split: if_splits)
    qed
  qed
qed

lemma read_exactly_stream:
  assumes "reliable_stream N t pending"
  shows "if unat wanted \<le> length (pending w)
    then \<exists>w'. read_exactly N t wanted w = (Inr (take (unat wanted) (pending w)), w')
         \<and> pending w' = drop (unat wanted) (pending w)
    else \<exists>w'. read_exactly N t wanted w = (Inl TransportClosed, w')"
  using read_exactly_loop_stream [OF assms, of 0 wanted w "[]"]
  by (auto simp: read_exactly_def split: if_splits)

text \<open>A whole message at the front of the stream is read, whatever pieces it arrives in.\<close>

lemma transport_read_message:
  assumes stream: "reliable_stream N t pending"
    and fit: "length (msg_data m) < 2 ^ 32"
    and front: "pending w = encode_message m @ rest"
  obtains w' where "transport_read N t w = (Inr m, w')" "pending w' = rest"
proof -
  have nine: "unat (9 :: u32) = 9" by simp
  obtain w1 where header: "read_exactly N t 9 w = (Inr (header_of m), w1)"
    and w1: "pending w1 = msg_data m @ rest"
    using read_exactly_stream [OF stream, of 9 w] front
    by (auto simp: nine encode_message_header simp del: unsigned_numeral split: if_splits)
  let ?n = "word_of_nat (length (msg_data m)) :: u32"
  have n: "unat ?n = length (msg_data m)" using fit by (rule unat_index)
  obtain w2 where body: "read_exactly N t ?n w1 = (Inr (msg_data m), w2)" and w2: "pending w2 = rest"
    using read_exactly_stream [OF stream, of ?n w1] w1 by (auto simp: n split: if_splits)
  have "deserialize_bytes ?n (new_deserializer (msg_data m)) = Inr (msg_data m, de_cur (msg_data m) [])"
    using fit by (simp add: new_deserializer_eq deserialize_bytes_cur n)
  then have "transport_read N t w = (Inr m, w2)"
    by (simp add: transport_read_def header decode_header_of body)
  from this w2 show thesis by (rule that)
qed

text \<open>A message that the stream ends inside is never delivered.\<close>

lemma transport_read_cut:
  assumes stream: "reliable_stream N t pending"
    and fit: "length (msg_data m) < 2 ^ 32"
    and cut: "encode_message m = pending w @ c # q"
  shows "fst (transport_read N t w) = Inl TransportClosed"
proof (cases "length (pending w) < 9")
  case True
  then show ?thesis
    using read_exactly_stream [OF stream, of 9 w]
    by (auto simp: transport_read_def split: if_splits)
next
  case False
  have split: "pending w = header_of m @ drop 9 (pending w)"
    using cut False by (metis append_eq_append_conv_if encode_message_header length_header_of
        append_take_drop_id linorder_not_less append_eq_conv_conj take_append)
  have short: "length (drop 9 (pending w)) < length (msg_data m)"
    using arg_cong [OF cut, of length] False by (simp add: encode_message_header)
  obtain w1 where header: "read_exactly N t 9 w = (Inr (header_of m), w1)"
    and w1: "pending w1 = drop 9 (pending w)"
    using read_exactly_stream [OF stream, of 9 w] False split
    by (auto split: if_splits) (metis append_eq_conv_conj length_header_of)
  let ?n = "word_of_nat (length (msg_data m)) :: u32"
  have n: "unat ?n = length (msg_data m)" using fit by (rule unat_index)
  show ?thesis
    using read_exactly_stream [OF stream, of ?n w1] short
    by (auto simp: transport_read_def header decode_header_of n w1 split: if_splits)
qed

text \<open>Reading one message after the other.\<close>

primrec transport_read_many ::
    "'w net \<Rightarrow> transport \<Rightarrow> nat \<Rightarrow> (message list result, 'w) call" where
  "transport_read_many N t 0 w = (Inr [], w)"
| "transport_read_many N t (Suc n) w =
     (case transport_read N t w of
        (Inl e, w1) \<Rightarrow> (Inl e, w1)
      | (Inr m, w1) \<Rightarrow>
          (case transport_read_many N t n w1 of
             (Inl e, w2) \<Rightarrow> (Inl e, w2)
           | (Inr ms, w2) \<Rightarrow> (Inr (m # ms), w2)))"

lemma transport_read_stream:
  assumes stream: "reliable_stream N t pending"
  shows "\<forall>m \<in> set ms. length (msg_data m) < 2 ^ 32 \<Longrightarrow>
    pending w = concat (map encode_message ms) @ rest \<Longrightarrow>
    \<exists>w'. transport_read_many N t (length ms) w = (Inr ms, w') \<and> pending w' = rest"
proof (induction ms arbitrary: w)
  case (Cons m ms)
  obtain w1 where first: "transport_read N t w = (Inr m, w1)"
    and w1: "pending w1 = concat (map encode_message ms) @ rest"
    using transport_read_message [OF stream, of m w "concat (map encode_message ms) @ rest"] Cons.prems
    by auto
  with Cons.IH [of w1] Cons.prems show ?case by auto
qed simp

text \<open>The byte stream of \<open>stream_net\<close> is one.\<close>

lemma stream_net_reliable: "reliable_stream stream_net t os"
  unfolding reliable_stream_def
proof (intro allI conjI impI)
  fix w :: "u8 list world"
  show "\<exists>result w'. nt_poll stream_net (mt_socket t) (pipe_read_fd (mt_pipe t)) w = ((result, False), w')
      \<and> 0 < sint result \<and> os w' = os w"
    by (simp add: stream_net_def failing_net_def)
next
  fix w :: "u8 list world" and n :: u64
  assume "0 < n \<and> n < 2 ^ 32"
  then have "0 < unat n" by (simp add: word_less_nat_alt)
  then show "\<exists>k w'. nt_recv stream_net (mt_socket t) n w = ((word_of_nat k, take k (os w)), w')
      \<and> k \<le> unat n \<and> k \<le> length (os w) \<and> (os w \<noteq> [] \<longrightarrow> 0 < k) \<and> os w' = drop k (os w)"
    by (intro exI [of _ "min 3 (min (unat n) (length (os w)))"]) (auto simp: stream_net_def failing_net_def Let_def)
qed

section \<open>Every descriptor is closed, and closed once\<close>

definition transport_held :: "transport \<Rightarrow> i32 multiset" where
  "transport_held t = held (mt_socket t) + pipe_held (mt_pipe t)"

lemma delete_members_ledger:
  assumes "keeps_ledger N L"
  shows "L (delete_members N t w) = L w - transport_held t"
proof -
  obtain p w1 s w2 where "pipe_delete N (mt_pipe t) w = (p, w1)" "tcp_close N (mt_socket t) w1 = (s, w2)"
    by (metis prod.exhaust)
  then show ?thesis
    using pipe_delete_ledger [OF assms] close_ledger(2) [OF assms]
    by (simp add: delete_members_def transport_held_def add.commute)
qed

lemma transport_of_socket_ledger:
  assumes "keeps_ledger N L" "held sock \<subseteq># L w"
  shows "transport_of_socket N sock w = (Inl e, w') \<Longrightarrow> L w' = L w - held sock"
    "transport_of_socket N sock w = (Inr t, w') \<Longrightarrow>
       mt_socket t = sock \<and> L w' = L w + pipe_held (mt_pipe t)"
  using pipe_new_ledger [OF assms(1)] close_ledger(2) [OF assms(1)]
  by (auto simp: transport_of_socket_def split: prod.splits sum.splits) (metis prod.collapse)

lemma transport_new_ledger:
  assumes "keeps_ledger N L"
  shows "transport_new N host port w = (Inl e, w') \<Longrightarrow> L w' = L w"
    "transport_new N host port w = (Inr t, w') \<Longrightarrow> L w' = L w + transport_held t"
proof -
  note facts = tcp_new_ledger [OF assms] transport_of_socket_ledger [OF assms]
    same_ledgerD [OF socket_calls_ledger(1) [OF assms]] delete_members_ledger [OF assms]
  show "transport_new N host port w = (Inl e, w') \<Longrightarrow> L w' = L w"
    by (auto simp: transport_new_def transport_held_def facts(6) split: prod.splits sum.splits
        dest!: facts(1,2,5) facts(3,4) [rotated])
  show "transport_new N host port w = (Inr t, w') \<Longrightarrow> L w' = L w + transport_held t"
    by (auto simp: transport_new_def transport_held_def split: prod.splits sum.splits
        dest!: facts(1,2,5) facts(4) [rotated])
qed

lemma delete_transport_ledger:
  assumes "keeps_ledger N L"
  shows "L (delete_transport N t w) = L w - transport_held t"
proof (cases "cancellation_notify N (mt_pipe t) w")
  case (Pair r w1)
  note members = delete_members_ledger [OF assms]
  have w1: "L w1 = L w" using same_ledgerD [OF socket_calls_ledger(4) [OF assms] Pair] .
  show ?thesis
  proof (cases r)
    case (Inl e)
    then show ?thesis by (simp add: delete_transport_def transport_close_def Pair members w1)
  next
    case (Inr u)
    obtain w2 where close: "tcp_close N (mt_socket t) w1 = (-1, w2)"
      using tcp_close_result [of N "mt_socket t" w1] by (metis prod.collapse)
    have "held (-1) = {#}" by (simp add: held_def)
    with Inr show ?thesis
      using close_ledger(2) [OF assms close]
      by (simp add: delete_transport_def transport_close_def Pair close members transport_held_def w1)
  qed
qed

text \<open>The encoding of messages is unambiguous: a stream starts with the encoding of at most one message.\<close>

lemma message_encoding_prefix_free:
  assumes "length (msg_data m) < 2 ^ 32" "length (msg_data m') < 2 ^ 32"
    and "encode_message m @ xs = encode_message m' @ ys"
  shows "m = m' \<and> xs = ys"
proof -
  have h: "header_of m = header_of m'" and rest: "msg_data m @ xs = msg_data m' @ ys"
    using assms(3) unfolding encode_message_header append_assoc by (simp_all add: append_eq_append_conv)
  have "msg_id m = msg_id m' \<and> msg_type m = msg_type m'
      \<and> (word_of_nat (length (msg_data m)) :: u32) = word_of_nat (length (msg_data m'))"
    using decode_header_of [of m] decode_header_of [of m'] h by simp
  then have "length (msg_data m) = length (msg_data m')"
    using assms(1,2) unat_index by metis
  with rest h \<open>_ \<and> _\<close> show ?thesis by simp
qed

section \<open>Properties\<close>

text \<open>
  C27. Reading from a stream that carries the encodings of some messages delivers those messages in their
  order, however the stream is cut into pieces, and stops right behind the last one.
\<close>

theorem stream_delivers_messages:
  assumes "reliable_stream N t pending" "\<forall>m \<in> set ms. length (msg_data m) < 2 ^ 32"
    and "pending w = concat (map encode_message ms) @ rest"
  shows "\<exists>w'. transport_read_many N t (length ms) w = (Inr ms, w') \<and> pending w' = rest"
  using transport_read_stream [OF assms(1)] assms(2,3) by blast

theorem stream_delivers_messages_witness:
  "\<exists>w'. transport_read_many stream_net \<lparr>mt_socket = 3, mt_pipe = \<lparr>pipe_read_fd = 4, pipe_write_fd = 5\<rparr>\<rparr> 1
      \<lparr>errno = 0, os = [0, 0, 0, 7, 1, 0, 0, 0, 2, 65, 66, 99]\<rparr>
    = (Inr [\<lparr>msg_id = 7, msg_type = 1, msg_data = [65, 66]\<rparr>], w') \<and> os w' = [99]"
  using stream_delivers_messages [OF stream_net_reliable, of "[\<lparr>msg_id = 7, msg_type = 1, msg_data = [65, 66]\<rparr>]"
      "\<lparr>errno = 0, os = [0, 0, 0, 7, 1, 0, 0, 0, 2, 65, 66, 99]\<rparr>" "[99]"]
  by (simp add: encode_message_eq enc_bytes_def be32_unfold)

text \<open>
  C28. A message that the stream ends inside is not delivered, not even in part: the read reports a closed
  transport.
\<close>

theorem cut_message_never_delivered:
  assumes "reliable_stream N t pending" "length (msg_data m) < 2 ^ 32"
    and "encode_message m = pending w @ c # q"
  shows "fst (transport_read N t w) = Inl TransportClosed"
  using assms by (rule transport_read_cut)

theorem cut_message_never_delivered_witness:
  "fst (transport_read stream_net \<lparr>mt_socket = 3, mt_pipe = \<lparr>pipe_read_fd = 4, pipe_write_fd = 5\<rparr>\<rparr>
      \<lparr>errno = 0, os = [0, 0, 0, 7, 1, 0, 0, 0, 2, 65]\<rparr>) = Inl TransportClosed"
  using cut_message_never_delivered [OF stream_net_reliable, of "\<lparr>msg_id = 7, msg_type = 1, msg_data = [65, 66]\<rparr>"
      "\<lparr>errno = 0, os = [0, 0, 0, 7, 1, 0, 0, 0, 2, 65]\<rparr>" 66 "[]"]
  by (simp add: encode_message_eq enc_bytes_def be32_unfold)

text \<open>
  C35. A constructor of the transport that throws has closed every descriptor it opened; one that succeeds
  holds the socket and the two ends of the pipe; the destructor closes each of them once, also when
  the notification in \<open>close\<close> throws.
\<close>

theorem transport_owns_its_descriptors:
  assumes "keeps_ledger N L"
  shows "(case transport_new N host port w of
       (Inl e, w1) \<Rightarrow> L w1 = L w | (Inr t, w1) \<Rightarrow> L w1 = L w + transport_held t)
    \<and> L (delete_transport N t w2) = L w2 - transport_held t"
  using transport_new_ledger [OF assms] delete_transport_ledger [OF assms]
  by (auto split: prod.split sum.split)

theorem transport_owns_its_descriptors_witness:
  "(case transport_new ledger_net ''h'' 80 \<lparr>errno = 0, os = {#}\<rparr> of
      (Inl e, w1) \<Rightarrow> os w1 = {#} | (Inr t, w1) \<Rightarrow> os w1 = transport_held t)
    \<and> os (delete_transport ledger_net \<lparr>mt_socket = 3, mt_pipe = \<lparr>pipe_read_fd = 4, pipe_write_fd = 5\<rparr>\<rparr>
        \<lparr>errno = 0, os = {#3, 4, 5, 9#}\<rparr>) = {#9#}"
  using transport_owns_its_descriptors [OF ledger_net_keeps, where host = "''h''" and port = 80
      and w = "\<lparr>errno = 0, os = {#}\<rparr>" and ?w2.0 = "\<lparr>errno = 0, os = {#3, 4, 5, 9#}\<rparr>"
      and t = "\<lparr>mt_socket = 3, mt_pipe = \<lparr>pipe_read_fd = 4, pipe_write_fd = 5\<rparr>\<rparr>"]
  by (auto simp: transport_held_def pipe_held_def held_def split: prod.splits sum.splits)

end
