(* ===== verification/Std_Map.thy ===== *)
theory Std_Map
  imports Prelude
begin

text \<open>
  The part of \<open>std::map\<close> the sources use: \<open>find\<close>, \<open>at\<close>, \<open>emplace\<close> (which keeps an existing
  entry), \<open>operator[]\<close> with an assignment (which replaces it), \<open>erase\<close> by key, and iteration in
  key order. A map is its list of entries in key order, so that iteration is the list itself.
  The locale \<open>dict\<close> is the contract the clients rely on; it is interpreted on these operations.
\<close>

type_synonym ('k, 'v) std_map = "('k \<times> 'v) list"

definition map_empty :: "('k, 'v) std_map" where
  "map_empty = []"

definition map_find :: "'k \<Rightarrow> ('k, 'v) std_map \<Rightarrow> 'v option" where
  "map_find k m = map_of m k"

definition map_at :: "'k \<Rightarrow> ('k, 'v) std_map \<Rightarrow> 'v result" where
  "map_at k m = (case map_find k m of None \<Rightarrow> Inl (OutOfRange ''map::at'') | Some v \<Rightarrow> Inr v)"

fun map_emplace :: "'k::linorder \<Rightarrow> 'v \<Rightarrow> ('k, 'v) std_map \<Rightarrow> ('k, 'v) std_map" where
  "map_emplace k v [] = [(k, v)]"
| "map_emplace k v ((k', v') # m) =
     (if k < k' then (k, v) # (k', v') # m
      else if k = k' then (k', v') # m
      else (k', v') # map_emplace k v m)"

fun map_assign :: "'k::linorder \<Rightarrow> 'v \<Rightarrow> ('k, 'v) std_map \<Rightarrow> ('k, 'v) std_map" where
  "map_assign k v [] = [(k, v)]"
| "map_assign k v ((k', v') # m) =
     (if k < k' then (k, v) # (k', v') # m
      else if k = k' then (k, v) # m
      else (k', v') # map_assign k v m)"

definition map_erase :: "'k \<Rightarrow> ('k, 'v) std_map \<Rightarrow> ('k, 'v) std_map" where
  "map_erase k m = filter (\<lambda>(k', v). k' \<noteq> k) m"

text \<open>Keys strictly increasing: what the red-black tree keeps.\<close>

definition map_ok :: "('k::linorder, 'v) std_map \<Rightarrow> bool" where
  "map_ok m \<longleftrightarrow> sorted_wrt (<) (map fst m)"

section \<open>The operations keep the order and mean what they should\<close>

lemma map_ok_Nil [simp]: "map_ok []"
  by (simp add: map_ok_def)

lemma map_ok_Cons: "map_ok ((k, v) # m) \<longleftrightarrow> (\<forall>k' \<in> fst ` set m. k < k') \<and> map_ok m"
  by (auto simp: map_ok_def)

lemma keys_emplace: "fst ` set (map_emplace k v m) = insert k (fst ` set m)"
  by (induction k v m rule: map_emplace.induct) auto

lemma keys_assign: "fst ` set (map_assign k v m) = insert k (fst ` set m)"
  by (induction k v m rule: map_assign.induct) auto

lemma keys_erase: "fst ` set (map_erase k m) = fst ` set m - {k}"
  by (auto simp: map_erase_def)

lemma map_find_key: "map_find k m = Some v \<Longrightarrow> k \<in> fst ` set m"
  by (force simp: map_find_def dest: map_of_SomeD)

lemma map_ok_emplace: "map_ok m \<Longrightarrow> map_ok (map_emplace k v m)"
  by (induction k v m rule: map_emplace.induct) (auto simp: map_ok_Cons keys_emplace)

lemma map_ok_assign: "map_ok m \<Longrightarrow> map_ok (map_assign k v m)"
  by (induction k v m rule: map_assign.induct) (auto simp: map_ok_Cons keys_assign)

lemma map_ok_erase: "map_ok m \<Longrightarrow> map_ok (map_erase k m)"
  unfolding map_erase_def by (induction m) (auto simp: map_ok_Cons)

lemma map_find_simps [simp]:
  "map_find k [] = None"
  "map_find k ((k', v) # m) = (if k = k' then Some v else map_find k m)"
  by (simp_all add: map_find_def)

lemma map_find_below:
  "map_ok ((k', v) # m) \<Longrightarrow> k < k' \<Longrightarrow> map_find (k :: 'k::linorder) m = None"
  unfolding map_find_def map_of_eq_None_iff by (force simp: map_ok_Cons)

lemma map_find_emplace:
  "map_ok m \<Longrightarrow>
   map_find j (map_emplace k v m)
     = (if j = k \<and> map_find k m = None then Some v else map_find j m)"
proof (induction k v m rule: map_emplace.induct)
  case (2 k v k' v' m)
  from "2.prems" have "map_ok m" by (simp add: map_ok_Cons)
  with "2.IH" "2.prems" show ?case by (auto dest: map_find_below)
qed simp

lemma map_find_assign:
  "map_find j (map_assign k v m) = (if j = k then Some v else map_find j m)"
  by (induction k v m rule: map_assign.induct) (auto simp: map_find_def)

lemma map_find_erase: "map_find j (map_erase k m) = (if j = k then None else map_find j m)"
  by (induction m) (auto simp: map_find_def map_erase_def)

lemma length_map_erase_le: "length (map_erase k m) \<le> length m"
  by (simp add: map_erase_def)

lemma length_map_erase: "map_find k m = Some v \<Longrightarrow> length (map_erase k m) < length m"
  unfolding map_find_def map_erase_def
  by (induction m) (auto split: if_splits simp: le_imp_less_Suc)

lemma map_ok_distinct: "map_ok m \<Longrightarrow> distinct m \<and> distinct (map fst m)"
  by (auto simp: map_ok_def strict_sorted_iff distinct_map)

lemma map_find_entry: "map_ok m \<Longrightarrow> (k, v) \<in> set m \<longleftrightarrow> map_find k m = Some v"
  by (simp add: map_find_def map_ok_distinct)

section \<open>The contract\<close>

locale dict =
  fixes empty :: "'m"
    and find :: "'k \<Rightarrow> 'm \<Rightarrow> 'v option"
    and emplace :: "'k \<Rightarrow> 'v \<Rightarrow> 'm \<Rightarrow> 'm"
    and assign :: "'k \<Rightarrow> 'v \<Rightarrow> 'm \<Rightarrow> 'm"
    and erase :: "'k \<Rightarrow> 'm \<Rightarrow> 'm"
    and ok :: "'m \<Rightarrow> bool"
  assumes find_empty: "find k empty = None"
    and find_emplace: "ok m \<Longrightarrow>
      find j (emplace k v m) = (if j = k \<and> find k m = None then Some v else find j m)"
    and find_assign: "ok m \<Longrightarrow> find j (assign k v m) = (if j = k then Some v else find j m)"
    and find_erase: "ok m \<Longrightarrow> find j (erase k m) = (if j = k then None else find j m)"
    and ok_empty: "ok empty"
    and ok_emplace: "ok m \<Longrightarrow> ok (emplace k v m)"
    and ok_assign: "ok m \<Longrightarrow> ok (assign k v m)"
    and ok_erase: "ok m \<Longrightarrow> ok (erase k m)"
begin

lemmas laws = find_empty find_emplace find_assign find_erase
lemmas oks = ok_empty ok_emplace ok_assign ok_erase

lemma find_emplace_fresh: "ok m \<Longrightarrow> find k m = None \<Longrightarrow> find k (emplace k v m) = Some v"
  by (simp add: find_emplace)

lemma find_emplace_taken: "ok m \<Longrightarrow> find k m = Some w \<Longrightarrow> find k (emplace k v m) = Some w"
  by (simp add: find_emplace)

lemma erase_emplace_fresh:
  "ok m \<Longrightarrow> find k m = None \<Longrightarrow> find j (erase k (emplace k v m)) = find j m"
  by (simp add: find_erase find_emplace ok_emplace)

lemma find_erase_emplace:
  "ok m \<Longrightarrow> find j (emplace k v (erase k m)) = (if j = k then Some v else find j m)"
  by (simp add: find_erase find_emplace ok_erase)

end

interpretation std: dict map_empty map_find map_emplace map_assign map_erase map_ok
  by unfold_locales
    (simp_all add: map_find_emplace map_find_assign map_find_erase map_ok_emplace map_ok_assign
      map_ok_erase, simp_all add: map_find_def map_empty_def)

end
