(* ===== verification/Command_Handler.thy ===== *)
theory Command_Handler
  imports Message_Transport Std_Map
begin

text \<open>
  What the two command handlers of the worker share. A handler takes a command and the state it
  works on (its own tables and the world) and gives the reply or the exception it throws. The
  tables hand out integer ids for open files and directories; the locale \<open>descriptor_table\<close> is
  what a table has to guarantee, and what follows for any sequence of its operations.
\<close>

type_synonym ('h, 'w) handler = "message \<Rightarrow> 'h \<times> 'w world \<Rightarrow> message result \<times> ('h \<times> 'w world)"

text \<open>\<open>Message(message.id, WorkerMessageType::CommandResult, serializer.data())\<close>.\<close>

definition command_result :: "message \<Rightarrow> serializer \<Rightarrow> message" where
  "command_result message s =
     \<lparr>msg_id = msg_id message, msg_type = worker_code CommandResult, msg_data = fst (data s)\<rparr>"

text \<open>The reply most commands end with: one byte for success, then \<open>errno\<close>.\<close>

definition status_result :: "message \<Rightarrow> i32 \<Rightarrow> 'w world \<Rightarrow> message" where
  "status_result message value w =
     command_result message
       (serialize_int32 (errno w) (serialize_uint8 (if value = 0 then 1 else 0) new_serializer))"

text \<open>The reply of the commands that return a number: the number, then \<open>errno\<close>.\<close>

definition value_result :: "message \<Rightarrow> i32 \<Rightarrow> 'w world \<Rightarrow> message" where
  "value_result message value w =
     command_result message (serialize_int32 (errno w) (serialize_int32 value new_serializer))"

lemma command_result_simps [simp]:
  "msg_id (command_result m s) = msg_id m"
  "msg_type (command_result m s) = 0"
  "msg_data (command_result m (ser_of bs)) = bs"
  by (simp_all add: command_result_def data_ser_of)

lemma status_result_data:
  "msg_data (status_result m value w) = (if value = 0 then 1 else 0) # be32 (errno w)"
  by (simp add: status_result_def ser_simps)

lemma value_result_data:
  "msg_data (value_result m value w) = be32 value @ be32 (errno w)"
  by (simp add: value_result_def ser_simps)

lemma result_ids [simp]:
  "msg_id (status_result m value w) = msg_id m" "msg_type (status_result m value w) = 0"
  "msg_id (value_result m value w) = msg_id m" "msg_type (value_result m value w) = 0"
  by (simp_all add: status_result_def value_result_def)

section \<open>Sound handlers\<close>

text \<open>
  A handler either replies with a \<open>CommandResult\<close> under the id of the command, or throws a
  \<open>std::runtime_error\<close> with the state as it was.
\<close>

definition sound_reply :: "message \<Rightarrow> 's \<Rightarrow> message result \<times> 's \<Rightarrow> bool" where
  "sound_reply m s r \<longleftrightarrow>
     (case r of
        (Inr reply, s') \<Rightarrow> msg_id reply = msg_id m \<and> msg_type reply = 0
      | (Inl e, s') \<Rightarrow> (\<exists>t. e = RuntimeError t) \<and> s' = s)"

lemma sound_reply_Inr [simp]:
  "sound_reply m s (Inr reply, s') \<longleftrightarrow> msg_id reply = msg_id m \<and> msg_type reply = 0"
  by (simp add: sound_reply_def)

lemma sound_reply_Inl [simp]:
  "sound_reply m s (Inl e, s') \<longleftrightarrow> (\<exists>t. e = RuntimeError t) \<and> s' = s"
  by (simp add: sound_reply_def)

lemma sound_reply_try:
  "read_error r \<Longrightarrow> (\<And>x. r = Inr x \<Longrightarrow> sound_reply m s (k x)) \<Longrightarrow> sound_reply m s (try_in r s k)"
  by (cases r) (auto simp: read_error_def)

section \<open>Tables of descriptors\<close>

text \<open>
  The ids are the values of a counter that only grows. Its type is a 32-bit signed integer: the
  laws hold while the counter has not reached \<open>2 ^ 31 - 1\<close>.
\<close>

definition id_room :: "i32 \<Rightarrow> bool" where
  "id_room next_id \<longleftrightarrow> 0 \<le> sint next_id \<and> sint next_id < 2 ^ 31 - 1"

lemma sint_next: "id_room n \<Longrightarrow> sint (n + 1) = sint n + 1"
proof -
  assume room: "id_room n"
  have "sint (word_of_int k :: i32) = k" if "0 \<le> k" "k < 2 ^ 31" for k
    using that by (simp add: signed_of_int signed_take_bit_int_eq_self)
  from this [of "sint n + 1"] have "sint (word_of_int (sint n + 1) :: i32) = sint n + 1"
    using room by (simp only: id_room_def) simp
  then show ?thesis by simp
qed

lemma sint_inject: "sint a = sint b \<longleftrightarrow> a = (b :: 'a::len word)"
  by (auto intro: signed_word_eqI)

text \<open>The keys of a table whose counter stands at \<open>n\<close>: a new id is not among them.\<close>

definition keys_issued :: "(int, 'v) std_map \<Rightarrow> i32 \<Rightarrow> bool" where
  "keys_issued m n \<longleftrightarrow> map_ok m \<and> (\<forall>i \<in> fst ` set m. 0 \<le> i \<and> i < sint n)"

lemma keys_issued_fresh: "keys_issued m n \<Longrightarrow> map_find (sint n) m = None"
  using map_find_key [of "sint n" m] by (cases "map_find (sint n) m") (force simp: keys_issued_def)+

lemma keys_issued_empty [simp]: "keys_issued map_empty n"
  by (simp add: keys_issued_def map_empty_def)

lemma keys_issued_erase: "keys_issued m n \<Longrightarrow> keys_issued (map_erase k m) n"
  unfolding keys_issued_def keys_erase by (auto simp: map_ok_erase)

lemma keys_issued_next:
  "keys_issued m n \<Longrightarrow> id_room n \<Longrightarrow> keys_issued m (n + 1)"
  "keys_issued m n \<Longrightarrow> id_room n \<Longrightarrow> keys_issued (map_emplace (sint n) v m) (n + 1)"
  by (auto simp: keys_issued_def map_ok_emplace keys_emplace sint_next id_room_def)

lemma keys_issued_find:
  "keys_issued m n \<Longrightarrow> map_find i m = Some v \<Longrightarrow> 0 \<le> i \<and> i < sint n"
  using map_find_key [of i m v] by (auto simp: keys_issued_def)

lemma keys_issued_emplace:
  "keys_issued m n \<Longrightarrow>
   map_find (sint j) (map_emplace (sint n) v m) = (if j = n then Some v else map_find (sint j) m)"
  using keys_issued_fresh [of m n]
  by (auto simp: keys_issued_def map_find_emplace sint_inject)

datatype 'v table_op = Alloc 'v | Drop i32

locale descriptor_table =
  fixes alloc :: "'v \<Rightarrow> 's \<Rightarrow> i32 \<times> 's"
    and lookup :: "i32 \<Rightarrow> 's \<Rightarrow> 'v option"
    and drop_id :: "i32 \<Rightarrow> 's \<Rightarrow> 's"
    and next_id :: "'s \<Rightarrow> i32"
    and table_ok :: "'s \<Rightarrow> bool"
  assumes alloc_id: "fst (alloc v s) = next_id s"
    and alloc_lookup: "table_ok s \<Longrightarrow> lookup j (snd (alloc v s))
        = (if j = next_id s then Some v else lookup j s)"
    and alloc_next: "next_id (snd (alloc v s)) = next_id s + 1"
    and alloc_ok: "table_ok s \<Longrightarrow> id_room (next_id s) \<Longrightarrow> table_ok (snd (alloc v s))"
    and drop_lookup: "table_ok s \<Longrightarrow> lookup j (drop_id i s) = (if j = i then None else lookup j s)"
    and drop_next: "next_id (drop_id i s) = next_id s"
    and drop_ok: "table_ok s \<Longrightarrow> table_ok (drop_id i s)"
    and issued: "table_ok s \<Longrightarrow> lookup j s = Some v \<Longrightarrow> 0 \<le> sint j \<and> sint j < sint (next_id s)"
begin

text \<open>An id that was never handed out finds nothing; in particular -1.\<close>

lemma lookup_unissued: "table_ok s \<Longrightarrow> sint (next_id s) \<le> sint j \<Longrightarrow> lookup j s = None"
  using issued by fastforce

lemma lookup_negative: "table_ok s \<Longrightarrow> sint j < 0 \<Longrightarrow> lookup j s = None"
  using issued by fastforce

lemma alloc_fresh: "table_ok s \<Longrightarrow> lookup (fst (alloc v s)) s = None"
  by (simp add: alloc_id lookup_unissued)

lemma alloc_finds: "table_ok s \<Longrightarrow> lookup (fst (alloc v s)) (snd (alloc v s)) = Some v"
  by (simp add: alloc_id alloc_lookup)

lemma alloc_keeps:
  "table_ok s \<Longrightarrow> lookup j s = Some w \<Longrightarrow> lookup j (snd (alloc v s)) = Some w"
  using issued [of s j w] by (auto simp: alloc_lookup)

fun table_run :: "'v table_op list \<Rightarrow> 's \<Rightarrow> 's" where
  "table_run [] s = s"
| "table_run (Alloc v # ops) s = table_run ops (snd (alloc v s))"
| "table_run (Drop i # ops) s = table_run ops (drop_id i s)"

lemma table_run_append: "table_run (xs @ ys) s = table_run ys (table_run xs s)"
  by (induction xs s rule: table_run.induct) simp_all

text \<open>As long as the counter has room, an entry survives everything but its own removal.\<close>

lemma entry_survives:
  "table_ok s \<Longrightarrow> 0 \<le> sint (next_id s) \<Longrightarrow> sint (next_id s) + int (length ops) < 2 ^ 31 \<Longrightarrow>
   lookup i s = Some v \<Longrightarrow> Drop i \<notin> set ops \<Longrightarrow> lookup i (table_run ops s) = Some v"
proof (induction ops arbitrary: s)
  case (Cons op ops)
  show ?case
  proof (cases op)
    case (Alloc w)
    have room: "id_room (next_id s)" using Cons.prems by (simp add: id_room_def)
    show ?thesis
      using Cons.prems Cons.IH [of "snd (alloc w s)"] sint_next [OF room] room
      by (simp add: Alloc alloc_ok alloc_next alloc_keeps)
  next
    case (Drop j)
    then show ?thesis
      using Cons.prems Cons.IH [of "drop_id j s"] by (auto simp: drop_ok drop_next drop_lookup)
  qed
qed simp

end

end
