(* ===== verification/File_Handler.thy ===== *)
theory File_Handler
  imports Command_Handler
begin

text \<open>
  \<open>worker/FileCommandsHandler\<close>: the table of open files and one handler per file command. Each
  handler decodes its whole request before it makes a system call, so a request that does not
  decode leaves the world and the table as they were.
\<close>

record file_handler =
  fh_fds :: "(int, i32) std_map"
  fh_next_fd_id :: i32

definition new_file_handler :: file_handler where
  "new_file_handler = \<lparr>fh_fds = map_empty, fh_next_fd_id = 0\<rparr>"

text \<open>The destructor closes every descriptor, in the order of the ids.\<close>

fun close_all :: "'w posix \<Rightarrow> (int \<times> i32) list \<Rightarrow> 'w world \<Rightarrow> 'w world" where
  "close_all P [] w = w"
| "close_all P ((i, fd) # fds) w = close_all P fds (snd (px_close P fd w))"

definition delete_file_handler :: "'w posix \<Rightarrow> file_handler \<Rightarrow> 'w world \<Rightarrow> 'w world" where
  "delete_file_handler P h w = close_all P (fh_fds h) w"

definition fh_get_fd :: "i32 \<Rightarrow> file_handler \<Rightarrow> i32" where
  "fh_get_fd fd_id h = (case map_find (sint fd_id) (fh_fds h) of None \<Rightarrow> -1 | Some fd \<Rightarrow> fd)"

definition fh_register :: "i32 \<Rightarrow> file_handler \<Rightarrow> i32 \<times> file_handler" where
  "fh_register fd h =
     (let fd_id = fh_next_fd_id h
      in (fd_id, \<lparr>fh_fds = map_emplace (sint fd_id) fd (fh_fds h), fh_next_fd_id = fd_id + 1\<rparr>))"

definition fh_forget :: "i32 \<Rightarrow> file_handler \<Rightarrow> file_handler" where
  "fh_forget fd_id h = h\<lparr>fh_fds := map_erase (sint fd_id) (fh_fds h)\<rparr>"

definition fh_getattr :: "'w posix \<Rightarrow> (file_handler, 'w) handler" where
  "fh_getattr P message = (\<lambda>(h, w).
     try_in (deserialize_str (new_deserializer (msg_data message))) (h, w) (\<lambda>(file_path, _).
     case px_stat P (c_str file_path) (px_stack_stat P w) w of ((stat_result, file_info), w1) \<Rightarrow>
     let serializer = serialize_int32 (errno w1)
           (serialize_uint8 (if stat_result = 0 then 1 else 0) new_serializer);
         serializer =
           (if stat_result = 0 then
              serialize_int64 (st_ctime file_info) (serialize_int64 (st_mtime file_info)
              (serialize_int64 (st_atime file_info) (serialize_int64 (st_size file_info)
              (serialize_uint32 (st_gid file_info) (serialize_uint32 (st_uid file_info)
              (serialize_uint32 (st_mode file_info) serializer))))))
            else serializer)
     in (Inr (command_result message serializer), (h, w1))))"

definition fh_access :: "'w posix \<Rightarrow> (file_handler, 'w) handler" where
  "fh_access P message = (\<lambda>(h, w).
     try_in (deserialize_str (new_deserializer (msg_data message))) (h, w) (\<lambda>(file_path, d).
     try_in (deserialize_int32 d) (h, w) (\<lambda>(mode, _).
     case px_access P (c_str file_path) mode w of (result, w1) \<Rightarrow>
     (Inr (status_result message result w1), (h, w1)))))"

abbreviation RENAME_NOREPLACE :: u8 where "RENAME_NOREPLACE \<equiv> 1"
abbreviation RENAME_EXCHANGE :: u8 where "RENAME_EXCHANGE \<equiv> 2"

definition fh_rename :: "'w posix \<Rightarrow> (file_handler, 'w) handler" where
  "fh_rename P message = (\<lambda>(h, w).
     try_in (deserialize_str (new_deserializer (msg_data message))) (h, w) (\<lambda>(old_path, d1).
     try_in (deserialize_str d1) (h, w) (\<lambda>(new_path, d2).
     try_in (deserialize_uint8 d2) (h, w) (\<lambda>(flags, _).
     case (if flags AND RENAME_NOREPLACE \<noteq> 0 then
             (case px_stat P (c_str new_path) (px_stack_stat P w) w of ((stat_result, _), w1) \<Rightarrow>
                if stat_result = 0 then (False, w1\<lparr>errno := EEXIST\<rparr>) else (True, w1))
           else (True, w)) of (should_rename, w2) \<Rightarrow>
     case (if flags AND RENAME_EXCHANGE \<noteq> 0 then (False, w2\<lparr>errno := EINVAL\<rparr>)
           else (should_rename, w2)) of (should_rename, w3) \<Rightarrow>
     case (if should_rename then px_rename P (c_str old_path) (c_str new_path) w3 else (-1, w3)) of
       (value, w4) \<Rightarrow>
     (Inr (status_result message value w4), (h, w4))))))"

definition fh_truncate :: "'w posix \<Rightarrow> (file_handler, 'w) handler" where
  "fh_truncate P message = (\<lambda>(h, w).
     try_in (deserialize_str (new_deserializer (msg_data message))) (h, w) (\<lambda>(file_path, d).
     try_in (deserialize_int64 d) (h, w) (\<lambda>(len, _).
     case px_truncate P (c_str file_path) len w of (value, w1) \<Rightarrow>
     (Inr (status_result message value w1), (h, w1)))))"

definition fh_unlink :: "'w posix \<Rightarrow> (file_handler, 'w) handler" where
  "fh_unlink P message = (\<lambda>(h, w).
     try_in (deserialize_str (new_deserializer (msg_data message))) (h, w) (\<lambda>(file_path, _).
     case px_unlink P (c_str file_path) w of (value, w1) \<Rightarrow>
     (Inr (status_result message value w1), (h, w1))))"

definition fh_chmod :: "'w posix \<Rightarrow> (file_handler, 'w) handler" where
  "fh_chmod P message = (\<lambda>(h, w).
     try_in (deserialize_str (new_deserializer (msg_data message))) (h, w) (\<lambda>(file_path, d).
     try_in (deserialize_int32 d) (h, w) (\<lambda>(mode, _).
     case px_chmod P (c_str file_path) mode w of (value, w1) \<Rightarrow>
     (Inr (status_result message value w1), (h, w1)))))"

definition fh_chown :: "'w posix \<Rightarrow> (file_handler, 'w) handler" where
  "fh_chown P message = (\<lambda>(h, w).
     try_in (deserialize_str (new_deserializer (msg_data message))) (h, w) (\<lambda>(file_path, d1).
     try_in (deserialize_int32 d1) (h, w) (\<lambda>(owner, d2).
     try_in (deserialize_int32 d2) (h, w) (\<lambda>(group, _).
     case px_chown P (c_str file_path) owner group w of (value, w1) \<Rightarrow>
     (Inr (status_result message value w1), (h, w1))))))"

definition fh_utimens :: "'w posix \<Rightarrow> (file_handler, 'w) handler" where
  "fh_utimens P message = (\<lambda>(h, w).
     try_in (deserialize_str (new_deserializer (msg_data message))) (h, w) (\<lambda>(file_path, d1).
     try_in (deserialize_int64 d1) (h, w) (\<lambda>(sec0, d2).
     try_in (deserialize_int64 d2) (h, w) (\<lambda>(sec1, _).
     case px_utimensat P (c_str file_path) \<lparr>tv_sec = sec0, tv_nsec = 0\<rparr>
            \<lparr>tv_sec = sec1, tv_nsec = 0\<rparr> w of (value, w1) \<Rightarrow>
     (Inr (status_result message value w1), (h, w1))))))"

text \<open>Every field is narrowed to 32 bits; the fields are sent whatever the call returned.\<close>

definition fh_statvfs :: "'w posix \<Rightarrow> (file_handler, 'w) handler" where
  "fh_statvfs P message = (\<lambda>(h, w).
     try_in (deserialize_str (new_deserializer (msg_data message))) (h, w) (\<lambda>(file_path, _).
     case px_statvfs P (c_str file_path) (px_stack_statvfs P w) w of ((value, stbuf), w1) \<Rightarrow>
     let s = serialize_int32 (errno w1)
               (serialize_uint8 (if value = 0 then 1 else 0) new_serializer);
         s = serialize_uint32 (ucast (f_bsize stbuf)) s;
         s = serialize_uint32 (ucast (f_frsize stbuf)) s;
         s = serialize_uint32 (ucast (f_blocks stbuf)) s;
         s = serialize_uint32 (ucast (f_bfree stbuf)) s;
         s = serialize_uint32 (ucast (f_bavail stbuf)) s;
         s = serialize_uint32 (ucast (f_files stbuf)) s;
         s = serialize_uint32 (ucast (f_ffree stbuf)) s;
         s = serialize_uint32 (ucast (f_favail stbuf)) s;
         s = serialize_uint32 (ucast (f_fsid stbuf)) s;
         s = serialize_uint32 (ucast (f_flag stbuf)) s;
         s = serialize_uint32 (ucast (f_namemax stbuf)) s
     in (Inr (command_result message s), (h, w1))))"

definition fh_open :: "'w posix \<Rightarrow> (file_handler, 'w) handler" where
  "fh_open P message = (\<lambda>(h, w).
     try_in (deserialize_str (new_deserializer (msg_data message))) (h, w) (\<lambda>(file_path, d1).
     try_in (deserialize_int32 d1) (h, w) (\<lambda>(flags, d2).
     try_in (deserialize_int32 d2) (h, w) (\<lambda>(mode, _).
     case px_open P (c_str file_path) flags mode w of (fd, w1) \<Rightarrow>
     case (if 0 \<le> sint fd then fh_register fd h else (-1, h)) of (fd_id, h1) \<Rightarrow>
     (Inr (value_result message fd_id w1), (h1, w1))))))"

definition fh_close :: "'w posix \<Rightarrow> (file_handler, 'w) handler" where
  "fh_close P message = (\<lambda>(h, w).
     try_in (deserialize_int32 (new_deserializer (msg_data message))) (h, w) (\<lambda>(fd_id, _).
     case px_close P (fh_get_fd fd_id h) w of (value, w1) \<Rightarrow>
     (Inr (status_result message value w1), (fh_forget fd_id h, w1))))"

text \<open>
  The reply of the reads: the value and \<open>errno\<close>, then the buffer, cut to the value when the call
  succeeded and whole when it failed.
\<close>

definition read_result :: "message \<Rightarrow> i64 \<Rightarrow> u8 list \<Rightarrow> 'w world \<Rightarrow> message" where
  "read_result message result buffer w =
     (let value = (ucast result :: i32);
          s = serialize_int32 (errno w) (serialize_int32 value new_serializer);
          buffer = (if 0 \<le> sint value then resize (unat value) buffer else buffer)
      in command_result message (serialize_byte_vector buffer s))"

definition fh_read :: "'w posix \<Rightarrow> (file_handler, 'w) handler" where
  "fh_read P message = (\<lambda>(h, w).
     try_in (deserialize_int32 (new_deserializer (msg_data message))) (h, w) (\<lambda>(fd_id, d).
     try_in (deserialize_uint32 d) (h, w) (\<lambda>(len, _).
     case px_read P (fh_get_fd fd_id h) (replicate (unat len) 0) w of ((result, buffer), w1) \<Rightarrow>
     (Inr (read_result message result buffer w1), (h, w1)))))"

definition fh_pread :: "'w posix \<Rightarrow> (file_handler, 'w) handler" where
  "fh_pread P message = (\<lambda>(h, w).
     try_in (deserialize_int32 (new_deserializer (msg_data message))) (h, w) (\<lambda>(fd_id, d1).
     try_in (deserialize_uint32 d1) (h, w) (\<lambda>(len, d2).
     try_in (deserialize_int64 d2) (h, w) (\<lambda>(offset, _).
     case px_pread P (fh_get_fd fd_id h) (replicate (unat len) 0) offset w of
       ((result, buffer), w1) \<Rightarrow>
     (Inr (read_result message result buffer w1), (h, w1))))))"

definition fh_write :: "'w posix \<Rightarrow> (file_handler, 'w) handler" where
  "fh_write P message = (\<lambda>(h, w).
     try_in (deserialize_int32 (new_deserializer (msg_data message))) (h, w) (\<lambda>(fd_id, d).
     try_in (deserialize_byte_vector d) (h, w) (\<lambda>(bytes, _).
     case px_write P (fh_get_fd fd_id h) bytes w of (result, w1) \<Rightarrow>
     (Inr (value_result message (ucast result) w1), (h, w1)))))"

definition fh_pwrite :: "'w posix \<Rightarrow> (file_handler, 'w) handler" where
  "fh_pwrite P message = (\<lambda>(h, w).
     try_in (deserialize_int32 (new_deserializer (msg_data message))) (h, w) (\<lambda>(fd_id, d1).
     try_in (deserialize_int64 d1) (h, w) (\<lambda>(offset, d2).
     try_in (deserialize_byte_vector d2) (h, w) (\<lambda>(bytes, _).
     case px_pwrite P (fh_get_fd fd_id h) bytes offset w of (result, w1) \<Rightarrow>
     (Inr (value_result message (ucast result) w1), (h, w1))))))"

lemmas file_handler_defs =
  fh_getattr_def fh_access_def fh_rename_def fh_truncate_def fh_unlink_def fh_chmod_def
  fh_chown_def fh_utimens_def fh_statvfs_def fh_open_def fh_close_def fh_read_def fh_pread_def
  fh_write_def fh_pwrite_def

section \<open>Every handler is sound\<close>

lemma read_result_ids [simp]:
  "msg_id (read_result m r b w) = msg_id m" "msg_type (read_result m r b w) = 0"
  by (simp_all add: read_result_def Let_def)

lemma file_handlers_sound:
  "sound_reply m s (fh_getattr P m s)" "sound_reply m s (fh_access P m s)"
  "sound_reply m s (fh_rename P m s)" "sound_reply m s (fh_truncate P m s)"
  "sound_reply m s (fh_unlink P m s)" "sound_reply m s (fh_chmod P m s)"
  "sound_reply m s (fh_chown P m s)" "sound_reply m s (fh_utimens P m s)"
  "sound_reply m s (fh_statvfs P m s)" "sound_reply m s (fh_open P m s)"
  "sound_reply m s (fh_close P m s)" "sound_reply m s (fh_read P m s)"
  "sound_reply m s (fh_pread P m s)" "sound_reply m s (fh_write P m s)"
  "sound_reply m s (fh_pwrite P m s)"
  by (cases s; auto simp: file_handler_defs Let_def split: prod.splits intro!: sound_reply_try)+

section \<open>The table of open files\<close>

definition fh_lookup :: "i32 \<Rightarrow> file_handler \<Rightarrow> i32 option" where
  "fh_lookup fd_id h = map_find (sint fd_id) (fh_fds h)"

text \<open>Every id in the table was handed out: it lies below the counter.\<close>

definition fh_ok :: "file_handler \<Rightarrow> bool" where
  "fh_ok h \<longleftrightarrow> keys_issued (fh_fds h) (fh_next_fd_id h)"

interpretation fh: descriptor_table fh_register fh_lookup fh_forget fh_next_fd_id fh_ok
  by unfold_locales
    (auto simp: fh_ok_def fh_register_def fh_lookup_def fh_forget_def Let_def map_find_erase
      sint_inject keys_issued_emplace keys_issued_next keys_issued_erase dest: keys_issued_find)

lemma fh_get_fd_lookup: "fh_get_fd i h = (case fh_lookup i h of None \<Rightarrow> -1 | Some fd \<Rightarrow> fd)"
  by (simp add: fh_get_fd_def fh_lookup_def)

lemma fh_ok_new [simp]: "fh_ok new_file_handler"
  by (simp add: fh_ok_def new_file_handler_def)

end
