(* ===== verification/Dir_Handler.thy ===== *)
theory Dir_Handler
  imports Command_Handler
begin

text \<open>
  \<open>worker/DirCommandsHandler\<close>: the table of open directories, the table of the directories whose
  listing is fixed at build time (only the Android build has any), and the directory commands.
\<close>

abbreviation DT_DIR :: u8 where "DT_DIR \<equiv> 4"

definition fixed_dir :: "string \<Rightarrow> dirent" where
  "fixed_dir name = \<lparr>d_ino = 0, d_type = DT_DIR, d_name = name\<rparr>"

definition dirs_to_override :: "bool \<Rightarrow> (string, dirent list) std_map" where
  "dirs_to_override android =
     (if android then
        [(''/'', [fixed_dir ''sdcard'', fixed_dir ''storage'']),
         (''/storage'', [fixed_dir ''emulated'']),
         (''/storage/emulated'', [fixed_dir ''0''])]
      else map_empty)"

record dir_handler =
  dh_fds :: "(int, dir_ptr) std_map"
  dh_next_fd_id :: i32
  dh_overridden_fds :: "(int, dirent list) std_map"

definition new_dir_handler :: dir_handler where
  "new_dir_handler = \<lparr>dh_fds = map_empty, dh_next_fd_id = 0, dh_overridden_fds = map_empty\<rparr>"

fun closedir_all :: "'w posix \<Rightarrow> (int \<times> dir_ptr) list \<Rightarrow> 'w world \<Rightarrow> 'w world" where
  "closedir_all P [] w = w"
| "closedir_all P ((i, fd) # fds) w = closedir_all P fds (snd (px_closedir P fd w))"

definition delete_dir_handler :: "'w posix \<Rightarrow> dir_handler \<Rightarrow> 'w world \<Rightarrow> 'w world" where
  "delete_dir_handler P h w = closedir_all P (dh_fds h) w"

definition dh_get_fd :: "i32 \<Rightarrow> dir_handler \<Rightarrow> dir_ptr" where
  "dh_get_fd fd_id h = (case map_find (sint fd_id) (dh_fds h) of None \<Rightarrow> nullptr | Some fd \<Rightarrow> fd)"

definition dh_register :: "dir_ptr \<Rightarrow> dir_handler \<Rightarrow> i32 \<times> dir_handler" where
  "dh_register fd h =
     (let fd_id = dh_next_fd_id h
      in (fd_id, h\<lparr>dh_next_fd_id := fd_id + 1, dh_fds := map_emplace (sint fd_id) fd (dh_fds h)\<rparr>))"

definition dh_register_overridden :: "dirent list \<Rightarrow> dir_handler \<Rightarrow> i32 \<times> dir_handler" where
  "dh_register_overridden entries h =
     (let fd_id = dh_next_fd_id h
      in (fd_id, h\<lparr>dh_next_fd_id := fd_id + 1,
                   dh_overridden_fds := map_emplace (sint fd_id) entries (dh_overridden_fds h)\<rparr>))"

definition dh_forget :: "i32 \<Rightarrow> dir_handler \<Rightarrow> dir_handler" where
  "dh_forget fd_id h = h\<lparr>dh_fds := map_erase (sint fd_id) (dh_fds h)\<rparr>"

definition dh_opendir :: "'w posix \<Rightarrow> bool \<Rightarrow> (dir_handler, 'w) handler" where
  "dh_opendir P android message = (\<lambda>(h, w).
     try_in (deserialize_str (new_deserializer (msg_data message))) (h, w) (\<lambda>(dir_path, _).
     case map_find dir_path (dirs_to_override android) of
       Some entries \<Rightarrow>
         (case dh_register_overridden entries h of (fd_id, h1) \<Rightarrow>
            (Inr (command_result message (serialize_int32 0 (serialize_int32 fd_id new_serializer))),
             (h1, w)))
     | None \<Rightarrow>
         (case px_opendir P (c_str dir_path) w of (fd, w1) \<Rightarrow>
          case (if fd \<noteq> nullptr then dh_register fd h else (-1, h)) of (fd_id, h1) \<Rightarrow>
            (Inr (value_result message fd_id w1), (h1, w1)))))"

definition dh_closedir :: "'w posix \<Rightarrow> (dir_handler, 'w) handler" where
  "dh_closedir P message = (\<lambda>(h, w).
     try_in (deserialize_int32 (new_deserializer (msg_data message))) (h, w) (\<lambda>(fd_id, _).
     case map_find (sint fd_id) (dh_overridden_fds h) of
       Some entries \<Rightarrow>
         (Inr (command_result message (serialize_int32 0 (serialize_uint8 1 new_serializer))),
          (h\<lparr>dh_overridden_fds := map_erase (sint fd_id) (dh_overridden_fds h)\<rparr>, w))
     | None \<Rightarrow>
         (case px_closedir P (dh_get_fd fd_id h) w of (value, w1) \<Rightarrow>
            (Inr (status_result message value w1), (dh_forget fd_id h, w1)))))"

text \<open>
  The loop of \<open>readdir\<close>: \<open>n\<close> rounds are left, \<open>i\<close> is the loop variable. A fixed listing is indexed
  by the loop variable of this call; an open directory keeps its own position in the kernel.
\<close>

fun readdir_loop ::
    "'w posix \<Rightarrow> dir_ptr \<Rightarrow> dirent list option \<Rightarrow> nat \<Rightarrow> nat \<Rightarrow> serializer \<Rightarrow> (serializer result, 'w) call"
where
  "readdir_loop P fd overridden 0 i s w = (Inr s, w)"
| "readdir_loop P fd overridden (Suc n) i s w =
     (case (case overridden of
              None \<Rightarrow> px_readdir P fd (w\<lparr>errno := 0\<rparr>)
            | Some entries \<Rightarrow> (if i < length entries then Some (entries ! i) else None, w)) of
        (None, w1) \<Rightarrow> (Inr s, w1)
      | (Some dir, w1) \<Rightarrow>
          (case serialize_cstr (Some (d_name dir))
                  (serialize_uint8 (d_type dir) (serialize_uint32 (ucast (d_ino dir)) s)) of
             Inl e \<Rightarrow> (Inl e, w1)
           | Inr s1 \<Rightarrow> readdir_loop P fd overridden n (Suc i) s1 w1))"

definition dh_readdir :: "'w posix \<Rightarrow> (dir_handler, 'w) handler" where
  "dh_readdir P message = (\<lambda>(h, w).
     try_in (deserialize_int32 (new_deserializer (msg_data message))) (h, w) (\<lambda>(fd_id, d).
     try_in (deserialize_uint32 d) (h, w) (\<lambda>(entries, _).
     let overridden = map_find (sint fd_id) (dh_overridden_fds h);
         fd = (if overridden = None then dh_get_fd fd_id h else nullptr)
     in if overridden = None \<and> fd = nullptr
        then (Inr (command_result message (serialize_int32 EBADF new_serializer)), (h, w))
        else
          (case readdir_loop P fd overridden (unat entries) 0 new_serializer w of
             (Inl e, w1) \<Rightarrow> (Inl e, (h, w1))
           | (Inr s, w1) \<Rightarrow>
               (Inr (command_result message
                  (serialize_int32 (if overridden \<noteq> None then 0 else errno w1) s)), (h, w1))))))"

definition dh_mkdir :: "'w posix \<Rightarrow> (dir_handler, 'w) handler" where
  "dh_mkdir P message = (\<lambda>(h, w).
     try_in (deserialize_str (new_deserializer (msg_data message))) (h, w) (\<lambda>(dir_path, d).
     try_in (deserialize_int32 d) (h, w) (\<lambda>(mode, _).
     case px_mkdir P (c_str dir_path) mode w of (value, w1) \<Rightarrow>
     (Inr (status_result message value w1), (h, w1)))))"

definition dh_rmdir :: "'w posix \<Rightarrow> (dir_handler, 'w) handler" where
  "dh_rmdir P message = (\<lambda>(h, w).
     try_in (deserialize_str (new_deserializer (msg_data message))) (h, w) (\<lambda>(dir_path, _).
     case px_rmdir P (c_str dir_path) w of (value, w1) \<Rightarrow>
     (Inr (status_result message value w1), (h, w1))))"

lemmas dir_handler_defs =
  dh_opendir_def dh_closedir_def dh_readdir_def dh_mkdir_def dh_rmdir_def

section \<open>Every handler is sound\<close>

lemma readdir_loop_result:
  "\<exists>s' w'. readdir_loop P fd overridden n i s w = (Inr s', w')"
  by (induction P fd overridden n i s w rule: readdir_loop.induct)
    (auto simp: serialize_cstr_def Let_def split: prod.splits option.splits)

lemma dir_handlers_sound:
  "sound_reply m s (dh_opendir P android m s)" "sound_reply m s (dh_closedir P m s)"
  "sound_reply m s (dh_readdir P m s)" "sound_reply m s (dh_mkdir P m s)"
  "sound_reply m s (dh_rmdir P m s)"
proof -
  show "sound_reply m s (dh_readdir P m s)"
  proof (cases s)
    case (Pair h w)
    have "\<exists>s' w'. readdir_loop P fd o' n 0 new_serializer w = (Inr s', w')" for fd o' n
      by (rule readdir_loop_result)
    then show ?thesis
      unfolding Pair
      by (auto simp: dh_readdir_def Let_def split: prod.splits sum.splits intro!: sound_reply_try)
        (metis Inl_Inr_False prod.inject)+
  qed
qed (cases s; auto simp: dir_handler_defs split: prod.splits option.splits intro!: sound_reply_try)+

section \<open>The two tables of open directories\<close>

definition dh_lookup :: "i32 \<Rightarrow> dir_handler \<Rightarrow> dir_ptr option" where
  "dh_lookup fd_id h = map_find (sint fd_id) (dh_fds h)"

definition dh_lookup_overridden :: "i32 \<Rightarrow> dir_handler \<Rightarrow> dirent list option" where
  "dh_lookup_overridden fd_id h = map_find (sint fd_id) (dh_overridden_fds h)"

definition dh_forget_overridden :: "i32 \<Rightarrow> dir_handler \<Rightarrow> dir_handler" where
  "dh_forget_overridden fd_id h =
     h\<lparr>dh_overridden_fds := map_erase (sint fd_id) (dh_overridden_fds h)\<rparr>"

definition dh_ok :: "dir_handler \<Rightarrow> bool" where
  "dh_ok h \<longleftrightarrow> keys_issued (dh_fds h) (dh_next_fd_id h)
     \<and> keys_issued (dh_overridden_fds h) (dh_next_fd_id h)"

lemmas dh_table_defs =
  dh_ok_def dh_register_def dh_register_overridden_def dh_lookup_def dh_lookup_overridden_def
  dh_forget_def dh_forget_overridden_def Let_def

interpretation dh: descriptor_table dh_register dh_lookup dh_forget dh_next_fd_id dh_ok
  by unfold_locales
    (auto simp: dh_table_defs map_find_erase sint_inject keys_issued_emplace keys_issued_next
      keys_issued_erase dest: keys_issued_find)

interpretation overridden: descriptor_table dh_register_overridden dh_lookup_overridden
  dh_forget_overridden dh_next_fd_id dh_ok
  by unfold_locales
    (auto simp: dh_table_defs map_find_erase sint_inject keys_issued_emplace keys_issued_next
      keys_issued_erase dest: keys_issued_find)

text \<open>The tables share the counter, so no id is in both.\<close>

lemma tables_disjoint_step:
  "dh_ok h \<Longrightarrow> dh_lookup_overridden (fst (dh_register fd h)) (snd (dh_register fd h)) = None"
  "dh_ok h \<Longrightarrow> dh_lookup (fst (dh_register_overridden es h)) (snd (dh_register_overridden es h)) = None"
  by (simp_all add: dh_table_defs keys_issued_fresh)

lemma dh_get_fd_lookup: "dh_get_fd i h = (case dh_lookup i h of None \<Rightarrow> nullptr | Some fd \<Rightarrow> fd)"
  by (simp add: dh_get_fd_def dh_lookup_def)

lemma dh_ok_new [simp]: "dh_ok new_dir_handler"
  by (simp add: dh_ok_def new_dir_handler_def)

end
