(* ===== verification/Concurrent_Queue.thy ===== *)
theory Concurrent_Queue
  imports Prelude
begin

text \<open>
  \<open>base/ConcurrentQueue.hpp\<close>, twice. First the operations one at a time, as the single-threaded
  clients see them. Then the same operations as steps of any number of threads that share the
  mutex, the condition variable and the flag: the flag is stored outside the mutex, a sleeping
  thread is woken by a notification or spuriously, and a woken thread takes the mutex again before
  it re-tests its predicate. The invariant of the second model is that no wake-up is lost.
\<close>

section \<open>One operation at a time\<close>

record 'a cqueue =
  q_shutdown :: bool
  q_items :: "'a list"

definition new_queue :: "'a cqueue" where
  "new_queue = \<lparr>q_shutdown = False, q_items = []\<rparr>"

definition queue_empty :: "'a cqueue \<Rightarrow> bool" where
  "queue_empty q \<longleftrightarrow> q_items q = []"

text \<open>\<open>push(const T &)\<close> tests the flag, \<open>push(T &&)\<close> does not.\<close>

definition queue_push :: "'a \<Rightarrow> 'a cqueue \<Rightarrow> unit result \<times> 'a cqueue" where
  "queue_push v q =
     (if q_shutdown q then (Inl QueueShutdown, q) else (Inr (), q\<lparr>q_items := q_items q @ [v]\<rparr>))"

definition queue_push_move :: "'a \<Rightarrow> 'a cqueue \<Rightarrow> 'a cqueue" where
  "queue_push_move v q = q\<lparr>q_items := q_items q @ [v]\<rparr>"

text \<open>\<open>pop\<close> blocks while the queue is empty and open; a shut queue throws even with items left.\<close>

datatype 'a pop_outcome = Blocks | Pops "'a result"

definition queue_pop :: "'a cqueue \<Rightarrow> 'a pop_outcome \<times> 'a cqueue" where
  "queue_pop q =
     (if \<not> (q_items q \<noteq> [] \<or> q_shutdown q) then (Blocks, q)
      else if q_shutdown q then (Pops (Inl QueueShutdown), q)
      else (Pops (Inr (hd (q_items q))), q\<lparr>q_items := tl (q_items q)\<rparr>))"

definition queue_shutdown :: "'a cqueue \<Rightarrow> 'a cqueue" where
  "queue_shutdown q = (if q_shutdown q then q else q\<lparr>q_shutdown := True\<rparr>)"

text \<open>The destructor.\<close>

abbreviation delete_queue :: "'a cqueue \<Rightarrow> 'a cqueue" where
  "delete_queue q \<equiv> queue_shutdown q"

lemma queue_pop_cases:
  "queue_pop \<lparr>q_shutdown = True, q_items = xs\<rparr>
     = (Pops (Inl QueueShutdown), \<lparr>q_shutdown = True, q_items = xs\<rparr>)"
  "queue_pop \<lparr>q_shutdown = False, q_items = []\<rparr> = (Blocks, \<lparr>q_shutdown = False, q_items = []\<rparr>)"
  "queue_pop \<lparr>q_shutdown = False, q_items = x # xs\<rparr>
     = (Pops (Inr x), \<lparr>q_shutdown = False, q_items = xs\<rparr>)"
  by (simp_all add: queue_pop_def)

section \<open>Threads\<close>

text \<open>
  Where a thread is: outside, at one of the statements of \<open>pop\<close>, \<open>push\<close> or \<open>shutdown\<close>. A thread
  at \<open>PopTest\<close>, \<open>PopTake\<close>, \<open>PushHold\<close>, \<open>PushNotify\<close> or \<open>ShutNotify\<close> holds the mutex.
\<close>

datatype 'a qpc =
    Outside
  | PopLock | PopTest | PopTake | Asleep | Woken
  | PushLock 'a | PushHold 'a | PushNotify
  | ShutSet | ShutLock | ShutNotify

record 'a qsys =
  sys_queue :: "'a cqueue"
  sys_lock :: "nat option"
  sys_pc :: "nat \<Rightarrow> 'a qpc"
  sys_pushed :: "'a list"
  sys_popped :: "'a list"

text \<open>The last two fields record the history; no step reads them.\<close>

definition qsys_init :: "'a qsys" where
  "qsys_init = \<lparr>sys_queue = new_queue, sys_lock = None, sys_pc = (\<lambda>_. Outside),
     sys_pushed = [], sys_popped = []\<rparr>"

definition move :: "nat \<Rightarrow> 'a qpc \<Rightarrow> 'a qsys \<Rightarrow> 'a qsys" where
  "move t p s = s\<lparr>sys_pc := (sys_pc s)(t := p)\<rparr>"

definition acquire :: "nat \<Rightarrow> 'a qsys \<Rightarrow> 'a qsys" where
  "acquire t s = s\<lparr>sys_lock := Some t\<rparr>"

definition release :: "'a qsys \<Rightarrow> 'a qsys" where
  "release s = s\<lparr>sys_lock := None\<rparr>"

text \<open>\<open>notify_all\<close>: every sleeping thread has to be scheduled again.\<close>

definition wake_all :: "'a qsys \<Rightarrow> 'a qsys" where
  "wake_all s = s\<lparr>sys_pc := (\<lambda>t. if sys_pc s t = Asleep then Woken else sys_pc s t)\<rparr>"

abbreviation is_shut :: "'a qsys \<Rightarrow> bool" where "is_shut s \<equiv> q_shutdown (sys_queue s)"
abbreviation items :: "'a qsys \<Rightarrow> 'a list" where "items s \<equiv> q_items (sys_queue s)"

inductive qstep :: "'a qsys \<Rightarrow> 'a qsys \<Rightarrow> bool" where
  pop_call: "sys_pc s t = Outside \<Longrightarrow> qstep s (move t PopLock s)"
| pop_lock: "sys_pc s t = PopLock \<or> sys_pc s t = Woken \<Longrightarrow> sys_lock s = None \<Longrightarrow>
    qstep s (acquire t (move t PopTest s))"
| pop_wait: "sys_pc s t = PopTest \<Longrightarrow> \<not> (items s \<noteq> [] \<or> is_shut s) \<Longrightarrow>
    qstep s (release (move t Asleep s))"
| pop_pass: "sys_pc s t = PopTest \<Longrightarrow> items s \<noteq> [] \<or> is_shut s \<Longrightarrow> qstep s (move t PopTake s)"
| pop_throw: "sys_pc s t = PopTake \<Longrightarrow> is_shut s \<Longrightarrow> qstep s (release (move t Outside s))"
| pop_take: "sys_pc s t = PopTake \<Longrightarrow> \<not> is_shut s \<Longrightarrow> items s = x # xs \<Longrightarrow>
    qstep s (release (move t Outside
      (s\<lparr>sys_queue := (sys_queue s)\<lparr>q_items := xs\<rparr>, sys_popped := sys_popped s @ [x]\<rparr>)))"
| spurious: "sys_pc s t = Asleep \<Longrightarrow> qstep s (move t Woken s)"
| push_call: "sys_pc s t = Outside \<Longrightarrow> qstep s (move t (PushLock v) s)"
| push_lock: "sys_pc s t = PushLock v \<Longrightarrow> sys_lock s = None \<Longrightarrow>
    qstep s (acquire t (move t (PushHold v) s))"
| push_store: "sys_pc s t = PushHold v \<Longrightarrow>
    qstep s (move t PushNotify
      (s\<lparr>sys_queue := (sys_queue s)\<lparr>q_items := items s @ [v]\<rparr>, sys_pushed := sys_pushed s @ [v]\<rparr>))"
| push_notify: "sys_pc s t = PushNotify \<Longrightarrow> sys_pc s u = Asleep \<Longrightarrow>
    qstep s (release (move t Outside (move u Woken s)))"
| push_notify_none: "sys_pc s t = PushNotify \<Longrightarrow> \<forall>u. sys_pc s u \<noteq> Asleep \<Longrightarrow>
    qstep s (release (move t Outside s))"
| shut_call: "sys_pc s t = Outside \<Longrightarrow> \<not> is_shut s \<Longrightarrow> qstep s (move t ShutSet s)"
| shut_set: "sys_pc s t = ShutSet \<Longrightarrow>
    qstep s (move t ShutLock (s\<lparr>sys_queue := (sys_queue s)\<lparr>q_shutdown := True\<rparr>\<rparr>))"
| shut_lock: "sys_pc s t = ShutLock \<Longrightarrow> sys_lock s = None \<Longrightarrow>
    qstep s (acquire t (move t ShutNotify s))"
| shut_notify: "sys_pc s t = ShutNotify \<Longrightarrow> qstep s (release (move t Outside (wake_all s)))"

text \<open>
  \<open>push(const T &)\<close> differs from \<open>push(T &&)\<close> only in the call: with the flag set it throws and
  the thread stays outside, which is no step; a \<open>shutdown\<close> of a shut queue returns at once.
\<close>

inductive qreach :: "'a qsys \<Rightarrow> bool" where
  start: "qreach qsys_init"
| step: "qreach s \<Longrightarrow> qstep s s' \<Longrightarrow> qreach s'"

lemmas qsys_simps = move_def acquire_def release_def wake_all_def

section \<open>The invariant\<close>

fun holds_mutex :: "'a qpc \<Rightarrow> bool" where
  "holds_mutex PopTest = True"
| "holds_mutex PopTake = True"
| "holds_mutex (PushHold v) = True"
| "holds_mutex PushNotify = True"
| "holds_mutex ShutNotify = True"
| "holds_mutex _ = False"

text \<open>The threads that are on their way to an item or to a notification of a sleeper.\<close>

fun underway :: "'a qpc \<Rightarrow> bool" where
  "underway PopTest = True"
| "underway PopTake = True"
| "underway Woken = True"
| "underway PushNotify = True"
| "underway _ = False"

text \<open>The threads that will still call \<open>notify_all\<close>.\<close>

fun shutting :: "'a qpc \<Rightarrow> bool" where
  "shutting ShutLock = True"
| "shutting ShutNotify = True"
| "shutting _ = False"

definition mutex_inv :: "'a qsys \<Rightarrow> bool" where
  "mutex_inv s \<longleftrightarrow> (\<forall>t. holds_mutex (sys_pc s t) \<longleftrightarrow> sys_lock s = Some t)"

definition take_inv :: "'a qsys \<Rightarrow> bool" where
  "take_inv s \<longleftrightarrow> (\<forall>t. sys_pc s t = PopTake \<longrightarrow> items s \<noteq> [] \<or> is_shut s)"

definition shut_inv :: "'a qsys \<Rightarrow> bool" where
  "shut_inv s \<longleftrightarrow>
     (is_shut s \<longrightarrow> (\<forall>t. sys_pc s t \<noteq> Asleep) \<or> (\<exists>u. shutting (sys_pc s u)))"

definition wake_inv :: "'a qsys \<Rightarrow> bool" where
  "wake_inv s \<longleftrightarrow>
     finite {t. sys_pc s t \<noteq> Outside} \<and>
     (is_shut s \<or> (\<forall>t. sys_pc s t \<noteq> Asleep) \<or> length (items s) \<le> tally underway (sys_pc s))"

definition fifo_inv :: "'a qsys \<Rightarrow> bool" where
  "fifo_inv s \<longleftrightarrow> sys_pushed s = sys_popped s @ items s"

lemmas q_invs = mutex_inv_def take_inv_def shut_inv_def wake_inv_def fifo_inv_def

text \<open>How the parts of a step act on each conjunct.\<close>

lemma pc_wake_all: "sys_pc (wake_all s) t = (if sys_pc s t = Asleep then Woken else sys_pc s t)"
  by (simp add: wake_all_def)

lemma holds_wake [simp]: "holds_mutex (if p = Asleep then Woken else p) = holds_mutex p"
  by simp

lemma mutex_parts:
  "mutex_inv s \<Longrightarrow> holds_mutex p = holds_mutex (sys_pc s t) \<Longrightarrow> mutex_inv (move t p s)"
  "mutex_inv s \<Longrightarrow> holds_mutex (sys_pc s t) \<Longrightarrow> \<not> holds_mutex p \<Longrightarrow> mutex_inv (release (move t p s))"
  "mutex_inv s \<Longrightarrow> sys_lock s = None \<Longrightarrow> holds_mutex p \<Longrightarrow> mutex_inv (acquire t (move t p s))"
  by (auto simp: mutex_inv_def qsys_simps)

lemma mutex_wake_all: "mutex_inv (wake_all s) = mutex_inv s"
  unfolding mutex_inv_def pc_wake_all holds_wake by (simp add: wake_all_def)

lemma mutex_other [simp]:
  "mutex_inv (s\<lparr>sys_queue := q\<rparr>) = mutex_inv s"
  "mutex_inv (s\<lparr>sys_pushed := xs\<rparr>) = mutex_inv s"
  "mutex_inv (s\<lparr>sys_popped := xs\<rparr>) = mutex_inv s"
  by (simp_all add: mutex_inv_def)

lemma mutex_inv_step: "qstep s s' \<Longrightarrow> mutex_inv s \<Longrightarrow> mutex_inv s'"
proof (induction rule: qstep.induct)
  case (push_notify s t u)
  then have "t \<noteq> u" by auto
  with push_notify show ?case by (intro mutex_parts) (auto simp: move_def)
next
  case (shut_notify s t)
  then show ?case by (intro mutex_parts) (simp_all add: mutex_wake_all pc_wake_all)
qed (auto intro!: mutex_parts)

lemma mutex_unique:
  "mutex_inv s \<Longrightarrow> holds_mutex (sys_pc s t) \<Longrightarrow> holds_mutex (sys_pc s u) \<Longrightarrow> u = t"
  by (simp add: mutex_inv_def)

lemma take_inv_step: "qstep s s' \<Longrightarrow> mutex_inv s \<Longrightarrow> take_inv s \<Longrightarrow> take_inv s'"
proof (induction rule: qstep.induct)
  case (pop_take s t x xs)
  then have "sys_pc s u = PopTake \<Longrightarrow> u = t" for u
    using mutex_unique [of s t u] by simp
  then show ?case by (auto simp: take_inv_def qsys_simps)
qed (auto simp: take_inv_def qsys_simps)

lemma fifo_inv_step: "qstep s s' \<Longrightarrow> fifo_inv s \<Longrightarrow> fifo_inv s'"
  by (induction rule: qstep.induct) (auto simp: fifo_inv_def qsys_simps)

lemma shut_parts:
  "shut_inv s \<Longrightarrow> p \<noteq> Asleep \<Longrightarrow> \<not> shutting (sys_pc s t) \<or> shutting p \<Longrightarrow> shut_inv (move t p s)"
  "shut_inv (release s) = shut_inv s"
  "shut_inv (acquire t s) = shut_inv s"
  by (auto simp: shut_inv_def qsys_simps)

lemma shut_other [simp]:
  "q_shutdown q = is_shut s \<Longrightarrow> shut_inv (s\<lparr>sys_queue := q\<rparr>) = shut_inv s"
  "shut_inv (s\<lparr>sys_pushed := xs\<rparr>) = shut_inv s"
  "shut_inv (s\<lparr>sys_popped := xs\<rparr>) = shut_inv s"
  by (simp_all add: shut_inv_def)

lemma shut_inv_step: "qstep s s' \<Longrightarrow> shut_inv s \<Longrightarrow> shut_inv s'"
proof (induction rule: qstep.induct)
  case (push_notify s t u)
  then have woken: "shut_inv (move u Woken s)" by (intro shut_parts(1)) auto
  have "\<not> shutting (sys_pc (move u Woken s) t)"
    using push_notify by (simp add: move_def)
  then show ?case unfolding shut_parts(2) by (simp add: shut_parts(1) [OF woken])
next
  case (pop_wait s t)
  then show ?case by (simp add: shut_inv_def qsys_simps)
next
  case (shut_set s t)
  have "shutting (((sys_pc s)(t := ShutLock)) t)" by simp
  then show ?case unfolding shut_inv_def move_def by (auto intro!: exI [of _ t])
next
  case (shut_notify s t)
  then show ?case by (auto simp: shut_inv_def qsys_simps)
qed (auto simp: shut_parts(2,3) intro!: shut_parts(1))

lemma finite_move: "finite {u. sys_pc s u \<noteq> Outside} \<Longrightarrow> finite {u. ((sys_pc s)(t := p)) u \<noteq> Outside}"
  by (rule finite_subset [of _ "insert t {u. sys_pc s u \<noteq> Outside}"]) auto

lemma finite_underway: "finite {u. pc u \<noteq> Outside} \<Longrightarrow> finite {u. underway (pc u)}"
  by (erule finite_subset [rotated]) (auto elim: underway.elims)

lemma wake_inv_finite: "wake_inv s \<Longrightarrow> finite {u. sys_pc s u \<noteq> Outside}"
  by (simp add: wake_inv_def)

text \<open>The count after one thread moves.\<close>

lemma tally_move:
  "wake_inv s \<Longrightarrow>
   tally underway ((sys_pc s)(t := p)) + of_bool (underway (sys_pc s t))
     = tally underway (sys_pc s) + of_bool (underway p)"
  by (rule tally_upd) (rule finite_underway, rule wake_inv_finite)

lemma wake_parts:
  "wake_inv s \<Longrightarrow> p \<noteq> Asleep \<Longrightarrow> \<not> underway (sys_pc s t) \<or> underway p \<Longrightarrow> wake_inv (move t p s)"
  using tally_move [of s t p] finite_move [of s t p]
  by (auto simp: wake_inv_def move_def of_bool_def split: if_splits)

lemma wake_other [simp]: "wake_inv (release s) = wake_inv s" "wake_inv (acquire t s) = wake_inv s"
  by (simp_all add: wake_inv_def release_def acquire_def)

lemma wake_inv_step: "qstep s s' \<Longrightarrow> wake_inv s \<Longrightarrow> wake_inv s'"
proof (induction rule: qstep.induct)
  case (pop_wait s t)
  then show ?case using finite_move [of s t Asleep] by (simp add: wake_inv_def qsys_simps)
next
  case (pop_throw s t)
  then show ?case using finite_move [of s t Outside] by (simp add: wake_inv_def qsys_simps)
next
  case (pop_take s t x xs)
  then show ?case
    using tally_move [of s t Outside] finite_move [of s t Outside]
    by (auto simp: wake_inv_def qsys_simps)
next
  case (push_store s t v)
  then show ?case
    using tally_move [of s t PushNotify] finite_move [of s t PushNotify]
    by (auto simp: wake_inv_def qsys_simps split: if_splits)
next
  case (push_notify s t u)
  let ?s = "move u Woken s"
  have s: "wake_inv ?s" using push_notify by (intro wake_parts) auto
  have "tally underway (sys_pc ?s) = Suc (tally underway (sys_pc s))"
    using tally_move [OF push_notify.prems, of u Woken] push_notify.hyps by (simp add: move_def)
  moreover have "sys_pc ?s t = PushNotify" using push_notify by (auto simp: move_def)
  ultimately have "tally underway ((sys_pc ?s)(t := Outside)) = tally underway (sys_pc s)"
    using tally_move [OF s, of t Outside] by simp
  then show ?case
    using push_notify finite_move [OF wake_inv_finite [OF s], of t Outside]
    by (auto simp: wake_inv_def qsys_simps)
next
  case (push_notify_none s t)
  then show ?case using finite_move [of s t Outside] by (auto simp: wake_inv_def qsys_simps)
next
  case (shut_set s t)
  then show ?case using finite_move [of s t ShutLock] by (simp add: wake_inv_def qsys_simps)
next
  case (shut_notify s t)
  have "{u. sys_pc (wake_all s) u \<noteq> Outside} = {u. sys_pc s u \<noteq> Outside}"
    by (auto simp: wake_all_def)
  with shut_notify show ?case
    using finite_move [of "wake_all s" t Outside]
    by (auto simp: wake_inv_def qsys_simps pc_wake_all)
qed (auto intro!: wake_parts)

section \<open>Reachable states\<close>

lemma qinit_inv:
  "mutex_inv qsys_init" "take_inv qsys_init" "shut_inv qsys_init" "wake_inv qsys_init"
  "fifo_inv qsys_init"
  by (simp_all add: q_invs qsys_init_def new_queue_def)

lemma qreach_inv:
  assumes "qreach s"
  shows "mutex_inv s" "take_inv s" "shut_inv s" "wake_inv s" "fifo_inv s"
  using assms
  by (induction rule: qreach.induct)
    (auto intro: qinit_inv mutex_inv_step take_inv_step shut_inv_step wake_inv_step fifo_inv_step)

section \<open>Some runs\<close>

text \<open>
  Two threads on a queue of numbers: \<open>qstage\<close> is a reachable state, up to the parts no step of the
  run depends on.
\<close>

abbreviation qstage :: "nat cqueue \<Rightarrow> nat option \<Rightarrow> nat qpc \<Rightarrow> nat qpc \<Rightarrow> bool" where
  "qstage q l p0 p1 \<equiv> \<exists>s. qreach s \<and> sys_queue s = q \<and> sys_lock s = l \<and> sys_pc s 0 = p0
     \<and> sys_pc s (Suc 0) = p1 \<and> (\<forall>u > Suc 0. sys_pc s u = Outside)"

lemma qstage_step:
  assumes "qstage q l p0 p1"
    and "\<And>s. sys_queue s = q \<Longrightarrow> sys_lock s = l \<Longrightarrow> sys_pc s 0 = p0 \<Longrightarrow> sys_pc s (Suc 0) = p1 \<Longrightarrow>
      \<forall>u > Suc 0. sys_pc s u = Outside \<Longrightarrow>
      \<exists>s'. qstep s s' \<and> sys_queue s' = q' \<and> sys_lock s' = l' \<and> sys_pc s' 0 = p0'
        \<and> sys_pc s' (Suc 0) = p1' \<and> (\<forall>u > Suc 0. sys_pc s' u = Outside)"
  shows "qstage q' l' p0' p1'"
  using assms by (blast intro: qreach.step)

abbreviation open_q :: "nat list \<Rightarrow> nat cqueue" where
  "open_q xs \<equiv> \<lparr>q_shutdown = False, q_items = xs\<rparr>"

text \<open>Thread 0 waits on the empty queue; thread 1 pushes, or sets the flag.\<close>

lemma testing_run: "qstage (open_q []) (Some 0) PopTest Outside"
proof -
  have "qstage (open_q []) None Outside Outside"
    by (intro exI [of _ qsys_init] conjI qreach.start) (simp_all add: qsys_init_def new_queue_def)
  then have "qstage (open_q []) None PopLock Outside"
    by (rule qstage_step) (rule exI, rule conjI, rule qstep.pop_call [where t = 0], simp_all add: qsys_simps)
  then show ?thesis
    by (rule qstage_step) (rule exI, rule conjI, rule qstep.pop_lock [where t = 0], simp_all add: qsys_simps)
qed

lemma asleep_run: "qstage (open_q []) None Asleep Outside"
  using testing_run
  by (rule qstage_step) (rule exI, rule conjI, rule qstep.pop_wait [where t = 0], simp_all add: qsys_simps)

lemma pushed_run: "qstage (open_q [5]) (Some 1) Asleep PushNotify"
proof -
  note asleep_run
  then have "qstage (open_q []) None Asleep (PushLock 5)"
    by (rule qstage_step)
      (rule exI, rule conjI, rule qstep.push_call [where t = 1 and v = 5], simp_all add: qsys_simps)
  then have "qstage (open_q []) (Some 1) Asleep (PushHold 5)"
    by (rule qstage_step)
      (rule exI, rule conjI, rule qstep.push_lock [where t = 1 and v = 5], simp_all add: qsys_simps)
  then show ?thesis
    by (rule qstage_step)
      (rule exI, rule conjI, rule qstep.push_store [where t = 1 and v = 5], simp_all add: qsys_simps)
qed

lemma shutting_run: "qstage \<lparr>q_shutdown = True, q_items = []\<rparr> None Asleep ShutLock"
proof -
  note asleep_run
  then have "qstage (open_q []) None Asleep ShutSet"
    by (rule qstage_step) (rule exI, rule conjI, rule qstep.shut_call [where t = 1], simp_all add: qsys_simps)
  then show ?thesis
    by (rule qstage_step) (rule exI, rule conjI, rule qstep.shut_set [where t = 1], simp_all add: qsys_simps)
qed

text \<open>The woken thread takes the item.\<close>

lemma taking_run: "qstage (open_q [5]) (Some 0) PopTake Outside"
proof -
  note pushed_run
  then have "qstage (open_q [5]) None Woken Outside"
    by (rule qstage_step)
      (rule exI, rule conjI, rule qstep.push_notify [where t = 1 and u = 0], simp_all add: qsys_simps)
  then have "qstage (open_q [5]) (Some 0) PopTest Outside"
    by (rule qstage_step) (rule exI, rule conjI, rule qstep.pop_lock [where t = 0], simp_all add: qsys_simps)
  then show ?thesis
    by (rule qstage_step) (rule exI, rule conjI, rule qstep.pop_pass [where t = 0], simp_all add: qsys_simps)
qed

section \<open>The concurrent queue does what the operations do one at a time\<close>

text \<open>
  \<open>run_qops\<close> carries out a list of operations on a queue, one at a time, and collects what the pops
  return; a pop that would block or throw gives nothing.
\<close>

datatype 'a qop = Push 'a | Pop | Shut

fun run_qops :: "'a qop list \<Rightarrow> 'a cqueue \<Rightarrow> 'a list \<times> 'a cqueue" where
  "run_qops [] q = ([], q)"
| "run_qops (Push v # ops) q = run_qops ops (queue_push_move v q)"
| "run_qops (Pop # ops) q =
     (case queue_pop q of
        (Pops (Inr v), q1) \<Rightarrow> (case run_qops ops q1 of (vs, q2) \<Rightarrow> (v # vs, q2))
      | (_, q1) \<Rightarrow> run_qops ops q1)"
| "run_qops (Shut # ops) q = run_qops ops (queue_shutdown q)"

fun pushed_values :: "'a qop list \<Rightarrow> 'a list" where
  "pushed_values [] = []"
| "pushed_values (Push v # ops) = v # pushed_values ops"
| "pushed_values (_ # ops) = pushed_values ops"

lemma run_qops_append:
  "run_qops (ops @ ops') q
     = (case run_qops ops q of (vs, q1) \<Rightarrow> case run_qops ops' q1 of (vs', q2) \<Rightarrow> (vs @ vs', q2))"
  by (induction ops q rule: run_qops.induct) (auto split: prod.splits pop_outcome.splits sum.splits)

lemma pushed_values_append: "pushed_values (ops @ ops') = pushed_values ops @ pushed_values ops'"
  by (induction ops rule: pushed_values.induct) simp_all

text \<open>Every step is one operation on the queue or none.\<close>

lemma qstep_operation:
  "qstep s s' \<Longrightarrow> \<exists>ops. run_qops ops (sys_queue s) = (drop (length (sys_popped s)) (sys_popped s'), sys_queue s')
     \<and> sys_popped s' = sys_popped s @ drop (length (sys_popped s)) (sys_popped s')
     \<and> sys_pushed s' = sys_pushed s @ pushed_values ops"
proof (induction rule: qstep.induct)
  case (pop_take s t x xs)
  then show ?case
    by (intro exI [of _ "[Pop]"]) (simp add: qsys_simps queue_pop_def)
next
  case (push_store s t v)
  then show ?case by (intro exI [of _ "[Push v]"]) (simp add: qsys_simps queue_push_move_def)
next
  case (shut_set s t)
  then show ?case
    by (intro exI [of _ "[Shut]"]) (cases "sys_queue s"; simp add: qsys_simps queue_shutdown_def)
qed (intro exI [of _ "[]"], simp add: qsys_simps)+

lemma qreach_operations:
  "qreach s \<Longrightarrow> \<exists>ops. run_qops ops new_queue = (sys_popped s, sys_queue s) \<and> pushed_values ops = sys_pushed s"
proof (induction rule: qreach.induct)
  case start
  then show ?case by (intro exI [of _ "[]"]) (simp add: qsys_init_def)
next
  case (step s s')
  then obtain ops where ops: "run_qops ops new_queue = (sys_popped s, sys_queue s)"
    "pushed_values ops = sys_pushed s" by blast
  obtain ops' where "run_qops ops' (sys_queue s)
      = (drop (length (sys_popped s)) (sys_popped s'), sys_queue s')"
    "sys_popped s' = sys_popped s @ drop (length (sys_popped s)) (sys_popped s')"
    "sys_pushed s' = sys_pushed s @ pushed_values ops'"
    using qstep_operation [OF step(2)] by blast
  with ops show ?case
    by (intro exI [of _ "ops @ ops'"]) (simp add: run_qops_append pushed_values_append)
qed

text \<open>
  A thread that is past the wait of \<open>pop\<close> on an open queue finds an item at its front, and it is the
  only thread inside the mutex.
\<close>

lemma front_is_never_read_empty:
  assumes "qreach s" "sys_pc s t = PopTake" "\<not> is_shut s"
  shows "items s \<noteq> [] \<and> {u. holds_mutex (sys_pc s u)} = {t}"
proof
  note inv = qreach_inv [OF assms(1)]
  show "items s \<noteq> []" using inv(2) assms(2,3) by (auto simp: take_inv_def)
  have "holds_mutex (sys_pc s t)" using assms(2) by simp
  with inv(1) show "{u. holds_mutex (sys_pc s u)} = {t}" using mutex_unique by blast
qed

text \<open>Values leave the queue in the order in which they were pushed.\<close>

lemma queue_is_fifo:
  assumes "qreach s"
  shows "sys_pushed s = sys_popped s @ items s"
  using qreach_inv(5) [OF assms] by (simp add: fifo_inv_def)

section \<open>Properties\<close>

text \<open>
  C29. No wake-up is lost. While a thread sleeps, an item in the queue means that some thread is still on
  its way to an item or to a notification, and a shut queue means that the thread that notifies all
  has not done so yet.
\<close>

theorem no_lost_wakeup:
  assumes "qreach s" "sys_pc s t = Asleep"
  shows "(\<not> is_shut s \<longrightarrow> items s \<noteq> [] \<longrightarrow> (\<exists>u. underway (sys_pc s u)))
    \<and> (is_shut s \<longrightarrow> (\<exists>u. shutting (sys_pc s u)))"
proof (intro conjI impI)
  have inv: "wake_inv s" "shut_inv s" using qreach_inv [OF assms(1)] by simp_all
  { assume "is_shut s"
    with inv(2) assms(2) show "\<exists>u. shutting (sys_pc s u)" by (auto simp: shut_inv_def) }
  assume open_items: "\<not> is_shut s" "items s \<noteq> []"
  then have "0 < length (items s)" by simp
  also have "\<dots> \<le> tally underway (sys_pc s)"
    using inv(1) assms(2) open_items by (auto simp: wake_inv_def)
  finally show "\<exists>u. underway (sys_pc s u)"
    using tally_pos [where P = underway, OF finite_underway [OF wake_inv_finite [OF inv(1)]]] by simp
qed

theorem no_lost_wakeup_witness:
  "\<exists>s :: nat qsys. qreach s \<and> sys_pc s 0 = Asleep \<and> items s = [5] \<and> (\<exists>u. underway (sys_pc s u))"
proof -
  obtain s where s: "qreach s" "sys_pc s 0 = Asleep" "sys_queue s = open_q [5]"
    using pushed_run by blast
  with no_lost_wakeup [OF s(1,2)] show ?thesis by (intro exI [of _ s]) simp
qed

text \<open>
  C34. The concurrent queue refines the sequential one: whatever the threads have done so far, the queue, the
  values pushed and the values popped are those of some list of operations carried out one at a time.
\<close>

theorem queue_refines_sequential_queue:
  assumes "qreach s"
  shows "\<exists>ops. run_qops ops new_queue = (sys_popped s, sys_queue s) \<and> pushed_values ops = sys_pushed s"
  using assms by (rule qreach_operations)

theorem queue_refines_sequential_queue_witness:
  "\<exists>(s :: nat qsys) ops. qreach s \<and> sys_queue s = open_q [5]
     \<and> run_qops ops new_queue = (sys_popped s, open_q [5])"
proof -
  obtain s :: "nat qsys" where "qreach s" "sys_queue s = open_q [5]" using pushed_run by blast
  with queue_refines_sequential_queue [of s] show ?thesis by (intro exI [of _ s]) auto
qed

end
