(* ===== verification/Thread_Pool.thy ===== *)
theory Thread_Pool
  imports Concurrent_Queue
begin

text \<open>
  \<open>base/ThreadPool\<close>: a queue of tasks and a fixed number of threads that each take and run tasks
  until the queue is shut. A task is a function on the state it works on; it gives \<open>Inl\<close> when it
  throws, and an exception other than \<open>QueueShutdown\<close> that leaves a thread's function ends the
  program.
\<close>

type_synonym 's task = "'s \<Rightarrow> unit result \<times> 's"

record 's thread_pool =
  tp_queue :: "'s task cqueue"
  tp_threads :: nat

text \<open>The constructor's loop variable is a \<open>uint16_t\<close>, as is the size.\<close>

definition new_thread_pool :: "u16 \<Rightarrow> 's thread_pool" where
  "new_thread_pool pool_size = \<lparr>tp_queue = new_queue, tp_threads = unat pool_size\<rparr>"

definition delete_thread_pool :: "'s thread_pool \<Rightarrow> 's thread_pool" where
  "delete_thread_pool p = p\<lparr>tp_queue := queue_shutdown (tp_queue p)\<rparr>"

definition submit :: "'s task \<Rightarrow> 's thread_pool \<Rightarrow> unit result \<times> 's thread_pool" where
  "submit func p =
     (case queue_push func (tp_queue p) of (r, q) \<Rightarrow> (r, p\<lparr>tp_queue := q\<rparr>))"

definition pool_size :: "'s thread_pool \<Rightarrow> u16" where
  "pool_size p = word_of_nat (tp_threads p)"

text \<open>
  One thread's \<open>_poll_queue\<close>, running alone: it ends when it has to wait (\<open>PollWaits\<close>), when it
  returns, or when a task's exception leaves it. Each round takes one task, so the length of the
  queue bounds the recursion.
\<close>

datatype poll_end = PollWaits | PollReturns | PollTerminates exn

function poll_queue :: "'s task cqueue \<Rightarrow> 's \<Rightarrow> poll_end \<times> 's task cqueue \<times> 's" where
  "poll_queue q s =
     (case queue_pop q of
        (Blocks, q1) \<Rightarrow> (PollWaits, q1, s)
      | (Pops (Inl e), q1) \<Rightarrow>
          (if e = QueueShutdown then PollReturns else PollTerminates e, q1, s)
      | (Pops (Inr task), q1) \<Rightarrow>
          (case task s of
             (Inl e, s1) \<Rightarrow>
               (if e = QueueShutdown then PollReturns else PollTerminates e, q1, s1)
           | (Inr _, s1) \<Rightarrow> poll_queue q1 s1))"
  by pat_completeness auto
termination
  by (relation "measure (\<lambda>(q, s). length (q_items q))")
    (auto simp: queue_pop_def split: if_splits)

declare poll_queue.simps [simp del]

lemma poll_queue_cases:
  "poll_queue \<lparr>q_shutdown = True, q_items = xs\<rparr> s
     = (PollReturns, \<lparr>q_shutdown = True, q_items = xs\<rparr>, s)"
  "poll_queue \<lparr>q_shutdown = False, q_items = []\<rparr> s
     = (PollWaits, \<lparr>q_shutdown = False, q_items = []\<rparr>, s)"
  "task s = (Inr (), s1) \<Longrightarrow>
   poll_queue \<lparr>q_shutdown = False, q_items = task # xs\<rparr> s
     = poll_queue \<lparr>q_shutdown = False, q_items = xs\<rparr> s1"
  by (subst poll_queue.simps, simp add: queue_pop_cases)+

text \<open>Tasks that do not throw run in the order they were submitted; then the thread waits.\<close>

primrec run_tasks :: "'s task list \<Rightarrow> 's \<Rightarrow> 's" where
  "run_tasks [] s = s"
| "run_tasks (task # tasks) s = run_tasks tasks (snd (task s))"

lemma poll_queue_runs:
  "\<forall>task \<in> set tasks. \<forall>s. fst (task s) = Inr () \<Longrightarrow>
   poll_queue \<lparr>q_shutdown = False, q_items = tasks\<rparr> s
     = (PollWaits, \<lparr>q_shutdown = False, q_items = []\<rparr>, run_tasks tasks s)"
  by (induction tasks arbitrary: s) (simp_all add: poll_queue_cases prod_eq_iff)

text \<open>
  The worker submits its handler loop \<open>max(1, pool_size() - 1)\<close> times to a pool of
  \<open>max(1u, hardware_concurrency())\<close> threads (the argument is narrowed to 16 bits).
\<close>

definition worker_pool_size :: "u32 \<Rightarrow> u16" where
  "worker_pool_size hardware_concurrency = ucast (max 1 hardware_concurrency)"

definition handler_loops :: "u16 \<Rightarrow> nat" where
  "handler_loops threads = nat (max 1 (uint threads - 1))"

lemma handler_loops_bounds:
  "0 < threads \<Longrightarrow> 1 \<le> handler_loops threads \<and> handler_loops threads \<le> unat threads"
proof -
  assume "0 < threads"
  then have "0 < unat threads" by (simp add: word_less_nat_alt)
  moreover have "uint threads = int (unat threads)" by simp
  ultimately show ?thesis unfolding handler_loops_def by (simp only:) arith
qed

text \<open>
  As long as the number of cores fits 16 bits there is a thread for every handler loop, and a loop
  to answer commands.
\<close>

lemma worker_pool_size_bounds:
  assumes "unat concurrency < 2 ^ 16"
  shows "0 < worker_pool_size concurrency"
    and "handler_loops (worker_pool_size concurrency) \<le> unat (worker_pool_size concurrency)"
proof -
  have "unat (max 1 concurrency) < 2 ^ 16" using assms by (simp add: max_def)
  then have "unat (worker_pool_size concurrency) = unat (max 1 concurrency)"
    by (simp add: worker_pool_size_def unsigned_ucast_eq take_bit_nat_eq_self)
  moreover have "1 \<le> unat (max 1 concurrency)" by (auto simp: max_def word_le_nat_alt)
  ultimately show pos: "0 < worker_pool_size concurrency" by (simp add: word_less_nat_alt)
  then show "handler_loops (worker_pool_size concurrency) \<le> unat (worker_pool_size concurrency)"
    using handler_loops_bounds by blast
qed

end
