(* ===== verification/Worker.thy ===== *)
theory Worker
  imports File_Handler Dir_Handler Thread_Pool "HOL-Library.Multiset"
begin

text \<open>
  \<open>worker/Worker\<close>: \<open>_do_command\<close>, which turns every command into exactly one reply, and the
  threads around it: one reader that queues what the transport delivers, and the handler loops
  that pop a command, do it and write the reply. \<open>P\<close> is the C library, \<open>android\<close> the build flag.
\<close>

record worker =
  wk_should_stop :: bool
  wk_file_handler :: file_handler
  wk_dir_handler :: dir_handler

definition new_worker :: worker where
  "new_worker = \<lparr>wk_should_stop = False, wk_file_handler = new_file_handler,
     wk_dir_handler = new_dir_handler\<rparr>"

section \<open>One command\<close>

definition disconnect_command :: "message \<Rightarrow> worker \<Rightarrow> message \<times> worker" where
  "disconnect_command message wk =
     (\<lparr>msg_id = msg_id message, msg_type = worker_code CommandResult, msg_data = []\<rparr>,
      wk\<lparr>wk_should_stop := True\<rparr>)"

definition in_file_handler :: "(file_handler, 'w) handler \<Rightarrow> (worker, 'w) handler" where
  "in_file_handler f message = (\<lambda>(wk, w).
     case f message (wk_file_handler wk, w) of (r, h, w1) \<Rightarrow> (r, wk\<lparr>wk_file_handler := h\<rparr>, w1))"

definition in_dir_handler :: "(dir_handler, 'w) handler \<Rightarrow> (worker, 'w) handler" where
  "in_dir_handler f message = (\<lambda>(wk, w).
     case f message (wk_dir_handler wk, w) of (r, h, w1) \<Rightarrow> (r, wk\<lparr>wk_dir_handler := h\<rparr>, w1))"

definition dispatch :: "'w posix \<Rightarrow> bool \<Rightarrow> (worker, 'w) handler" where
  "dispatch P android m = (\<lambda>(wk, w).
     let type = msg_type m in
     if type = commander_code Disconnect then
       (case disconnect_command m wk of (reply, wk1) \<Rightarrow> (Inr reply, wk1, w))
     else if type = commander_code GetAttr then in_file_handler (fh_getattr P) m (wk, w)
     else if type = commander_code Access then in_file_handler (fh_access P) m (wk, w)
     else if type = commander_code Rename then in_file_handler (fh_rename P) m (wk, w)
     else if type = commander_code Truncate then in_file_handler (fh_truncate P) m (wk, w)
     else if type = commander_code Unlink then in_file_handler (fh_unlink P) m (wk, w)
     else if type = commander_code ChangeMode then in_file_handler (fh_chmod P) m (wk, w)
     else if type = commander_code ChangeOwner then in_file_handler (fh_chown P) m (wk, w)
     else if type = commander_code SetTimes then in_file_handler (fh_utimens P) m (wk, w)
     else if type = commander_code StatFileSystem then in_file_handler (fh_statvfs P) m (wk, w)
     else if type = commander_code Open then in_file_handler (fh_open P) m (wk, w)
     else if type = commander_code Close then in_file_handler (fh_close P) m (wk, w)
     else if type = commander_code Read then in_file_handler (fh_read P) m (wk, w)
     else if type = commander_code PRead then in_file_handler (fh_pread P) m (wk, w)
     else if type = commander_code Write then in_file_handler (fh_write P) m (wk, w)
     else if type = commander_code PWrite then in_file_handler (fh_pwrite P) m (wk, w)
     else if type = commander_code OpenDir then in_dir_handler (dh_opendir P android) m (wk, w)
     else if type = commander_code CloseDir then in_dir_handler (dh_closedir P) m (wk, w)
     else if type = commander_code ReadDir then in_dir_handler (dh_readdir P) m (wk, w)
     else if type = commander_code MakeDir then in_dir_handler (dh_mkdir P) m (wk, w)
     else if type = commander_code RemoveDir then in_dir_handler (dh_rmdir P) m (wk, w)
     else (Inr \<lparr>msg_id = msg_id m, msg_type = worker_code CommandUnknown, msg_data = []\<rparr>, wk, w))"

text \<open>The \<open>catch\<close> around the switch; what no handler catches stays.\<close>

definition error_reply :: "'w posix \<Rightarrow> message \<Rightarrow> exn \<Rightarrow> message result" where
  "error_reply P m e =
     (if uncaught e then Inl e
      else and_then (serialize_cstr (Some (exn_what (px_strerror P) e)) new_serializer)
             (\<lambda>s. Inr \<lparr>msg_id = msg_id m, msg_type = worker_code CommandError,
                       msg_data = fst (data s)\<rparr>))"

definition do_command :: "'w posix \<Rightarrow> bool \<Rightarrow> (worker, 'w) handler" where
  "do_command P android m s =
     (case dispatch P android m s of
        (Inr reply, s1) \<Rightarrow> (Inr reply, s1)
      | (Inl e, s1) \<Rightarrow> (error_reply P m e, s1))"

section \<open>Every command has its reply\<close>

text \<open>A dispatched command is unknown, or its handler is sound.\<close>

lemma in_file_handler_sound:
  assumes "\<And>h w. sound_reply m (h, w) (f m (h, w))"
  shows "sound_reply m s (in_file_handler f m s)"
proof (cases s)
  case (Pair wk w)
  obtain r h' w' where "f m (wk_file_handler wk, w) = (r, h', w')" by (metis prod_cases3)
  with assms [of "wk_file_handler wk" w] show ?thesis
    by (cases r) (auto simp: Pair in_file_handler_def)
qed

lemma in_dir_handler_sound:
  assumes "\<And>h w. sound_reply m (h, w) (f m (h, w))"
  shows "sound_reply m s (in_dir_handler f m s)"
proof (cases s)
  case (Pair wk w)
  obtain r h' w' where "f m (wk_dir_handler wk, w) = (r, h', w')" by (metis prod_cases3)
  with assms [of "wk_dir_handler wk" w] show ?thesis
    by (cases r) (auto simp: Pair in_dir_handler_def)
qed

definition known_command :: "u8 \<Rightarrow> bool" where
  "known_command type \<longleftrightarrow> type \<le> commander_code RemoveDir"

lemma known_command_iff:
  "known_command type \<longleftrightarrow>
     type \<in> commander_code ` {Disconnect, GetAttr, Access, Rename, Truncate, Unlink, ChangeMode,
       ChangeOwner, SetTimes, StatFileSystem, Open, Close, Read, PRead, Write, PWrite, OpenDir,
       CloseDir, ReadDir, MakeDir, RemoveDir}"
proof -
  have "{..20} = {0, 1, 2, 3, 4, 5, 6, 7, 8, 9, 10, 11, 12, 13, 14, 15, 16, 17, 18, 19, 20 :: nat}"
    by (simp add: set_eq_iff) presburger
  moreover have "known_command type \<longleftrightarrow> unat type \<in> {..20}"
    by (simp add: known_command_def word_le_nat_alt)
  ultimately show ?thesis by (simp add: word_unat_eq_iff)
qed

lemma dispatch_unknown:
  "\<not> known_command (msg_type m) \<Longrightarrow>
   dispatch P android m s = (Inr \<lparr>msg_id = msg_id m, msg_type = 2, msg_data = []\<rparr>, s)"
  by (cases s) (simp add: known_command_iff dispatch_def Let_def)

lemma dispatch_sound:
  assumes "known_command (msg_type m)"
  shows "sound_reply m s (dispatch P android m s)"
proof (cases s)
  case (Pair wk w)
  show ?thesis
    using assms unfolding known_command_iff Pair dispatch_def Let_def
    by (auto simp: disconnect_command_def
        intro!: in_file_handler_sound in_dir_handler_sound file_handlers_sound dir_handlers_sound)
qed

lemma error_reply_runtime:
  "error_reply P m (RuntimeError t)
     = Inr \<lparr>msg_id = msg_id m, msg_type = 1, msg_data = enc_str (c_str t)\<rparr>"
  by (simp add: error_reply_def ser_simps)

lemma do_command_cases:
  obtains (unknown) "\<not> known_command (msg_type m)"
      "do_command P android m s = (Inr \<lparr>msg_id = msg_id m, msg_type = 2, msg_data = []\<rparr>, s)"
    | (result) reply s' where "known_command (msg_type m)"
      "dispatch P android m s = (Inr reply, s')" "do_command P android m s = (Inr reply, s')"
      "msg_id reply = msg_id m" "msg_type reply = 0"
    | (error) t where "known_command (msg_type m)"
      "dispatch P android m s = (Inl (RuntimeError t), s)"
      "do_command P android m s
         = (Inr \<lparr>msg_id = msg_id m, msg_type = 1, msg_data = enc_str (c_str t)\<rparr>, s)"
proof (cases "known_command (msg_type m)")
  case False
  then show thesis using unknown by (simp add: do_command_def dispatch_unknown)
next
  case True
  then have sound: "sound_reply m s (dispatch P android m s)" by (rule dispatch_sound)
  obtain r s' where d: "dispatch P android m s = (r, s')" by (rule prod.exhaust)
  show thesis
  proof (cases r)
    case (Inl e)
    with sound d obtain t where "e = RuntimeError t" "s' = s" by auto
    with d Inl True show thesis using error by (simp add: do_command_def error_reply_runtime)
  next
    case (Inr reply)
    with sound d True show thesis using result by (simp add: do_command_def)
  qed
qed

lemma do_command_replies:
  obtains reply s' where "do_command P android m s = (Inr reply, s')" "msg_id reply = msg_id m"
    "msg_type reply \<in> {0, 1, 2}"
  by (rule do_command_cases [of m P android s]) auto

section \<open>Properties\<close>

text \<open>
  C24. Every command, however malformed, gets a reply under its own id with one of the three types.
\<close>

theorem every_command_gets_a_reply:
  "\<exists>reply s'. do_command P android m s = (Inr reply, s') \<and> msg_id reply = msg_id m
     \<and> msg_type reply \<in> worker_code ` {CommandResult, CommandError, CommandUnknown}"
  by (rule do_command_replies [of P android m s]) auto

text \<open>
  C25. A command that is not answered with a result has had no effect: no system call was made, and the
  tables of the worker are as before.
\<close>

theorem rejected_command_has_no_effect:
  assumes "do_command P android m s = (Inr reply, s')" "msg_type reply \<noteq> worker_code CommandResult"
  shows "s' = s"
  using assms by (cases rule: do_command_cases [of m P android s]) auto

theorem rejected_command_has_no_effect_witness:
  "snd (do_command (failing_posix EIO) False \<lparr>msg_id = 3, msg_type = 21, msg_data = []\<rparr>
     (new_worker, \<lparr>errno = 0, os = ()\<rparr>)) = (new_worker, \<lparr>errno = 0, os = ()\<rparr>)"
  by (rule rejected_command_has_no_effect [where P = "failing_posix EIO" and android = False
        and m = "\<lparr>msg_id = 3, msg_type = 21, msg_data = []\<rparr>"
        and reply = "\<lparr>msg_id = 3, msg_type = 2, msg_data = []\<rparr>"])
    (simp_all add: do_command_def dispatch_def Let_def)

text \<open>
  C26. The types above \<open>RemoveDir\<close> are unknown to the worker, the four extended-attribute commands of the
  enumeration among them.
\<close>

theorem undeclared_types_are_unknown:
  assumes "commander_code RemoveDir < msg_type m"
  shows "do_command P android m s
    = (Inr \<lparr>msg_id = msg_id m, msg_type = worker_code CommandUnknown, msg_data = []\<rparr>, s)"
  using assms dispatch_unknown [of m P android s] by (simp add: do_command_def known_command_def not_le)

theorem undeclared_types_are_unknown_witness:
  "do_command (failing_posix EIO) False \<lparr>msg_id = 3, msg_type = commander_code GetXAttr, msg_data = []\<rparr>
     (new_worker, \<lparr>errno = 0, os = ()\<rparr>)
   = (Inr \<lparr>msg_id = 3, msg_type = 2, msg_data = []\<rparr>, (new_worker, \<lparr>errno = 0, os = ()\<rparr>))"
  using undeclared_types_are_unknown [of "\<lparr>msg_id = 3, msg_type = commander_code GetXAttr, msg_data = []\<rparr>"
      "failing_posix EIO" False "(new_worker, \<lparr>errno = 0, os = ()\<rparr>)"]
  by simp

end
