(* ===== verification/Handles.thy ===== *)
theory Handles
  imports Worker
begin

text \<open>
  The table of open files under whole commands: a command adds at most one entry, and removes one
  only when it is a \<open>Close\<close> of that very id. With the contract of the table it follows that the id
  an \<open>Open\<close> returned means the same descriptor until it is closed, whatever else is carried out
  in between.
\<close>

text \<open>The commands carried out one after the other; the replies are dropped.\<close>

fun run_commands :: "'w posix \<Rightarrow> bool \<Rightarrow> message list \<Rightarrow> worker \<times> 'w world \<Rightarrow> worker \<times> 'w world" where
  "run_commands P android [] s = s"
| "run_commands P android (m # ms) s = run_commands P android ms (snd (do_command P android m s))"

definition closes :: "message \<Rightarrow> i32 \<Rightarrow> bool" where
  "closes m i \<longleftrightarrow> msg_type m = commander_code Close \<and>
     (case deserialize_int32 (new_deserializer (msg_data m)) of Inl e \<Rightarrow> False | Inr (j, d) \<Rightarrow> j = i)"

lemma try_in_state:
  "(\<And>x. r = Inr x \<Longrightarrow> Q (fst (snd (k x)))) \<Longrightarrow> Q (fst s) \<Longrightarrow> Q (fst (snd (try_in r s k)))"
  by (cases r) simp_all

text \<open>All file commands but \<open>open\<close> and \<open>close\<close> leave the table alone.\<close>

lemma handlers_keep_table:
  "fst (snd (fh_getattr P m (h, w))) = h" "fst (snd (fh_access P m (h, w))) = h"
  "fst (snd (fh_rename P m (h, w))) = h" "fst (snd (fh_truncate P m (h, w))) = h"
  "fst (snd (fh_unlink P m (h, w))) = h" "fst (snd (fh_chmod P m (h, w))) = h"
  "fst (snd (fh_chown P m (h, w))) = h" "fst (snd (fh_utimens P m (h, w))) = h"
  "fst (snd (fh_statvfs P m (h, w))) = h" "fst (snd (fh_read P m (h, w))) = h"
  "fst (snd (fh_pread P m (h, w))) = h" "fst (snd (fh_write P m (h, w))) = h"
  "fst (snd (fh_pwrite P m (h, w))) = h"
  by (auto simp: file_handler_defs Let_def intro!: try_in_state [where Q = "\<lambda>x. x = h"]
      split: prod.split)

definition table_effect :: "message \<Rightarrow> i32 table_op list \<Rightarrow> bool" where
  "table_effect m ops \<longleftrightarrow> length ops \<le> 1 \<and> (\<forall>i. Drop i \<in> set ops \<longrightarrow> closes m i)"

lemma open_table:
  "fst (snd (fh_open P m (h, w))) = h \<or> (\<exists>fd. fst (snd (fh_open P m (h, w))) = snd (fh_register fd h))"
  by (auto simp: fh_open_def try_in_def split: sum.split prod.split) (metis snd_conv)+

lemma close_table:
  "fst (snd (fh_close P m (h, w))) = h \<or>
   (\<exists>i d. deserialize_int32 (new_deserializer (msg_data m)) = Inr (i, d)
      \<and> fst (snd (fh_close P m (h, w))) = fh_forget i h)"
  by (auto simp: fh_close_def try_in_def split: sum.split prod.split)

definition one_effect :: "message \<Rightarrow> file_handler \<Rightarrow> file_handler \<Rightarrow> bool" where
  "one_effect m h h' \<longleftrightarrow> (\<exists>ops. h' = fh.table_run ops h \<and> table_effect m ops)"

lemma one_effect_same: "one_effect m h h"
  by (auto simp: one_effect_def table_effect_def intro!: exI [of _ "[]"])

lemma one_effect_open: "one_effect m h (fst (snd (fh_open P m (h, w))))"
  using open_table [of P m h w]
proof (elim disjE exE)
  fix fd assume "fst (snd (fh_open P m (h, w))) = snd (fh_register fd h)"
  then show ?thesis by (auto simp: one_effect_def table_effect_def intro!: exI [of _ "[Alloc fd]"])
qed (simp add: one_effect_same)

lemma one_effect_close:
  assumes "msg_type m = commander_code Close"
  shows "one_effect m h (fst (snd (fh_close P m (h, w))))"
  using close_table [of P m h w]
proof (elim disjE exE conjE)
  fix i d assume "deserialize_int32 (new_deserializer (msg_data m)) = Inr (i, d)"
    and "fst (snd (fh_close P m (h, w))) = fh_forget i h"
  then show ?thesis using assms
    by (auto simp: one_effect_def table_effect_def closes_def intro!: exI [of _ "[Drop i]"])
qed (simp add: one_effect_same)

lemma in_handlers_table:
  "wk_file_handler (fst (snd (in_file_handler f m (wk, w)))) = fst (snd (f m (wk_file_handler wk, w)))"
  "wk_file_handler (fst (snd (in_dir_handler g m (wk, w)))) = wk_file_handler wk"
  by (simp_all add: in_file_handler_def in_dir_handler_def split: prod.split)

lemma dispatch_effect:
  "one_effect m (wk_file_handler wk) (wk_file_handler (fst (snd (dispatch P android m (wk, w)))))"
  unfolding dispatch_def Let_def prod.case disconnect_command_def
  by (simp add: in_handlers_table handlers_keep_table one_effect_same one_effect_open one_effect_close
      split: if_split)

lemma do_command_effect:
  "one_effect m (wk_file_handler (fst s)) (wk_file_handler (fst (snd (do_command P android m s))))"
  using dispatch_effect [of m "fst s" P android "snd s"]
  by (auto simp: do_command_def split: prod.splits sum.splits)

lemma run_commands_effect:
  "\<exists>ops. wk_file_handler (fst (run_commands P android ms s)) = fh.table_run ops (wk_file_handler (fst s))
     \<and> length ops \<le> length ms \<and> (\<forall>i. Drop i \<in> set ops \<longrightarrow> (\<exists>m \<in> set ms. closes m i))"
proof (induction ms arbitrary: s)
  case Nil
  show ?case by (intro exI [of _ "[]"]) simp
next
  case (Cons m ms)
  let ?s = "snd (do_command P android m s)"
  obtain xs where xs: "wk_file_handler (fst ?s) = fh.table_run xs (wk_file_handler (fst s))"
    "table_effect m xs"
    using do_command_effect [of m s P android] by (auto simp: one_effect_def)
  obtain ys where "wk_file_handler (fst (run_commands P android ms ?s))
      = fh.table_run ys (wk_file_handler (fst ?s))" "length ys \<le> length ms"
    "\<forall>i. Drop i \<in> set ys \<longrightarrow> (\<exists>m \<in> set ms. closes m i)"
    using Cons.IH [of ?s] by blast
  with xs show ?case
    by (intro exI [of _ "xs @ ys"]) (auto simp: fh.table_run_append table_effect_def)
qed

text \<open>The id of an open file goes on meaning the same descriptor.\<close>

lemma handle_kept:
  assumes ok: "fh_ok (wk_file_handler wk)"
    and room: "0 \<le> sint (fh_next_fd_id (wk_file_handler wk))"
      "sint (fh_next_fd_id (wk_file_handler wk)) + int (length ms) < 2 ^ 31"
    and found: "fh_lookup i (wk_file_handler wk) = Some fd"
    and kept: "\<forall>m \<in> set ms. \<not> closes m i"
  shows "fh_lookup i (wk_file_handler (fst (run_commands P android ms (wk, w)))) = Some fd"
proof -
  obtain ops where ops: "wk_file_handler (fst (run_commands P android ms (wk, w)))
      = fh.table_run ops (wk_file_handler wk)" "length ops \<le> length ms"
    "\<forall>i. Drop i \<in> set ops \<longrightarrow> (\<exists>m \<in> set ms. closes m i)"
    using run_commands_effect [of P android ms "(wk, w)"] by auto
  then have "Drop i \<notin> set ops" using kept by blast
  with ops show ?thesis using fh.entry_survives [OF ok _ _ found, of ops] room by simp
qed

section \<open>Properties\<close>

text \<open>
  C17. Whatever commands the worker carries out, an id in the table of open files keeps its descriptor
  until a \<open>Close\<close> of that very id, as long as the counter does not reach the end of its type.
\<close>

theorem open_file_survives:
  assumes "fh_ok (wk_file_handler wk)"
    and "0 \<le> sint (fh_next_fd_id (wk_file_handler wk))"
      "sint (fh_next_fd_id (wk_file_handler wk)) + int (length ms) < 2 ^ 31"
    and "fh_lookup i (wk_file_handler wk) = Some fd"
    and "\<forall>m \<in> set ms. \<not> closes m i"
  shows "fh_get_fd i (wk_file_handler (fst (run_commands P android ms (wk, w)))) = fd"
  using handle_kept [OF assms, of P android w] by (simp add: fh_get_fd_lookup)

theorem open_file_survives_witness:
  "fh_get_fd 0 (wk_file_handler (fst (run_commands (failing_posix EIO) False
      [\<lparr>msg_id = 4, msg_type = commander_code Close, msg_data = be32 1\<rparr>]
      (new_worker\<lparr>wk_file_handler := \<lparr>fh_fds = [(0, 7)], fh_next_fd_id = 1\<rparr>\<rparr>, \<lparr>errno = 0, os = ()\<rparr>)))) = 7"
  by (rule open_file_survives)
    (simp_all add: fh_ok_def keys_issued_def map_ok_def fh_lookup_def closes_def new_deserializer_eq
      deserialize_int32_read [where xs = "[]", simplified])

end
