(* ===== verification/Commander.thy ===== *)
theory Commander
  imports Command_Handler
begin

text \<open>
  \<open>commander/Commander\<close>, the part that sends commands and matches responses. A promise and its
  future share a state; it is named by a number, its place in \<open>cm_futures\<close>, and holds \<open>None\<close> until
  the promise is satisfied. The operations here are what one thread does while it holds
  \<open>_promises_mx\<close>; \<open>Commander_System\<close> interleaves them, and \<open>send_command\<close> below runs the calling
  thread and the reader thread together until the caller's future is ready.
\<close>

type_synonym outcome = "message result"

record commander =
  cm_connected :: bool
  cm_next_command_id :: u32
  cm_promises :: "(u32, nat) std_map"
  cm_futures :: "outcome option list"

definition new_commander :: commander where
  "new_commander = \<lparr>cm_connected = True, cm_next_command_id = 0, cm_promises = map_empty,
     cm_futures = []\<rparr>"

definition is_connected :: "commander \<Rightarrow> bool" where
  "is_connected cm = cm_connected cm"

definition take_command_id :: "commander \<Rightarrow> u32 \<times> commander" where
  "take_command_id cm =
     (cm_next_command_id cm, cm\<lparr>cm_next_command_id := cm_next_command_id cm + 1\<rparr>)"

definition hang_up :: "commander \<Rightarrow> commander" where
  "hang_up cm = cm\<lparr>cm_connected := False\<rparr>"

section \<open>Promises\<close>

text \<open>
  \<open>set_value\<close> and \<open>set_exception\<close> throw when the promise is already satisfied. A promise that is
  destroyed before it is satisfied leaves \<open>broken_promise\<close> in the shared state.
\<close>

definition satisfy :: "nat \<Rightarrow> outcome \<Rightarrow> outcome option list \<Rightarrow> outcome option list result" where
  "satisfy k r fs =
     (if fs ! k = None then Inr (fs[k := Some r])
      else Inl (RuntimeError ''std::future_error: Promise already satisfied''))"

definition abandon :: "nat \<Rightarrow> outcome option list \<Rightarrow> outcome option list" where
  "abandon k fs = (if fs ! k = None then fs[k := Some (Inl BrokenPromise)] else fs)"

text \<open>
  The critical section of \<open>_send_command\<close>. Storing the promise destroys the one that was stored
  under the same id.
\<close>

definition register_promise :: "u32 \<Rightarrow> commander \<Rightarrow> nat result \<times> commander" where
  "register_promise ident cm =
     (if \<not> cm_connected cm then (Inl (RemoteWorkerException ''Disconnected''), cm)
      else
        let k = length (cm_futures cm);
            fs = (case map_find ident (cm_promises cm) of
                    None \<Rightarrow> cm_futures cm | Some j \<Rightarrow> abandon j (cm_futures cm))
        in (Inr k, cm\<lparr>cm_promises := map_assign ident k (cm_promises cm), cm_futures := fs @ [None]\<rparr>))"

section \<open>Responses\<close>

text \<open>\<open>_set_response_exception\<close>: what the promise is given when the response is no result.\<close>

definition response_exception :: "message \<Rightarrow> exn" where
  "response_exception worker_msg =
     (if msg_type worker_msg = worker_code CommandError then
        (case deserialize_str (new_deserializer (msg_data worker_msg)) of
           Inl e \<Rightarrow> e
         | Inr (text, _) \<Rightarrow> RemoteWorkerException text)
      else if msg_type worker_msg = worker_code CommandUnknown
        then RemoteWorkerException ''Unknown command''
      else RuntimeError ''Unknown response message type'')"

definition response_outcome :: "message \<Rightarrow> outcome" where
  "response_outcome worker_msg =
     (if msg_type worker_msg = worker_code CommandResult then Inr worker_msg
      else Inl (response_exception worker_msg))"

text \<open>
  The critical section of \<open>_read_responses\<close> for one response. A throw before the erase leaves the
  entry in the map.
\<close>

definition on_response :: "message \<Rightarrow> commander \<Rightarrow> unit result \<times> commander" where
  "on_response worker_msg cm =
     (case map_at (msg_id worker_msg) (cm_promises cm) of
        Inl e \<Rightarrow> (Inl e, cm)
      | Inr k \<Rightarrow>
          (case satisfy k (response_outcome worker_msg) (cm_futures cm) of
             Inl e \<Rightarrow> (Inl e, cm)
           | Inr fs \<Rightarrow> (Inr (), cm\<lparr>cm_futures := fs,
                          cm_promises := map_erase (msg_id worker_msg) (cm_promises cm)\<rparr>)))"

text \<open>
  The loop of the \<open>catch\<close> clause. An exception that leaves it leaves the thread's function, which
  ends the program: \<open>std::terminate\<close>.
\<close>

fun satisfy_all :: "exn \<Rightarrow> (u32 \<times> nat) list \<Rightarrow> outcome option list \<Rightarrow> outcome option list result"
where
  "satisfy_all e [] fs = Inr fs"
| "satisfy_all e ((ident, k) # entries) fs =
     and_then (satisfy k (Inl e) fs) (\<lambda>fs'. satisfy_all e entries fs')"

definition fail_all :: "exn \<Rightarrow> commander \<Rightarrow> unit result \<times> commander" where
  "fail_all e cm =
     (case satisfy_all e (cm_promises cm) (cm_futures cm) of
        Inl e' \<Rightarrow> (Inl (Undefined ''std::terminate''), cm)
      | Inr fs \<Rightarrow> (Inr (), cm\<lparr>cm_futures := fs\<rparr>))"

section \<open>The worker at the other end, one call at a time\<close>

text \<open>
  The transport of the commander, as the two operations it uses: \<open>pr_write\<close> sends a command,
  \<open>pr_read\<close> waits for the next response.
\<close>

record 'p peer =
  pr_write :: "message \<Rightarrow> 'p \<Rightarrow> unit result \<times> 'p"
  pr_read :: "'p \<Rightarrow> message result \<times> 'p"
  pr_close :: "'p \<Rightarrow> unit result \<times> 'p"

type_synonym 'p session = "commander \<times> 'p"

text \<open>One round of \<open>_read_responses\<close>. A read that never returns is no exception: nothing catches it.\<close>

definition read_response :: "'p peer \<Rightarrow> 'p session \<Rightarrow> unit result \<times> 'p session" where
  "read_response R = (\<lambda>(cm, p).
     case pr_read R p of
       (Inl e, p1) \<Rightarrow>
         if uncaught e then (Inl e, (cm, p1))
         else (case fail_all e (hang_up cm) of (r, cm1) \<Rightarrow> (r, (cm1, p1)))
     | (Inr worker_msg, p1) \<Rightarrow>
         (case on_response worker_msg cm of
            (Inr _, cm1) \<Rightarrow> (Inr (), (cm1, p1))
          | (Inl e, cm1) \<Rightarrow> (case fail_all e (hang_up cm1) of (r, cm2) \<Rightarrow> (r, (cm2, p1)))))"

text \<open>
  \<open>future.get()\<close> with the reader thread running. The reader stops when the commander is no longer
  connected; a future that is not ready then is waited for without end. Every round that leaves
  the commander connected takes one promise out of the map.
\<close>

function await :: "'p peer \<Rightarrow> nat \<Rightarrow> 'p session \<Rightarrow> message result \<times> 'p session" where
  "await R k (cm, p) =
     (case cm_futures cm ! k of
        Some r \<Rightarrow> (r, (cm, p))
      | None \<Rightarrow>
          if \<not> cm_connected cm then (Inl Blocked, (cm, p))
          else (case read_response R (cm, p) of
                  (Inl e, s1) \<Rightarrow> (Inl e, s1)
                | (Inr _, s1) \<Rightarrow> await R k s1))"
  by pat_completeness auto
termination
  by (relation "measure (\<lambda>(R, k, cm, p). (if cm_connected cm then 1 else 0) + length (cm_promises cm))")
    (auto simp: read_response_def fail_all_def on_response_def satisfy_def hang_up_def map_at_def
      dest: length_map_erase split: sum.splits prod.splits if_splits option.splits)

declare await.simps [simp del]

definition send_command :: "'p peer \<Rightarrow> message \<Rightarrow> 'p session \<Rightarrow> message result \<times> 'p session" where
  "send_command R commander_msg = (\<lambda>(cm, p).
     case register_promise (msg_id commander_msg) cm of
       (Inl e, cm1) \<Rightarrow> (Inl e, (cm1, p))
     | (Inr k, cm1) \<Rightarrow>
         (case pr_write R commander_msg p of
            (Inl e, p1) \<Rightarrow> (Inl e, (cm1, p1))
          | (Inr _, p1) \<Rightarrow> await R k (cm1, p1)))"

text \<open>\<open>Message(_next_command_id++, type, data)\<close> and \<open>_send_command\<close>.\<close>

definition request ::
    "'p peer \<Rightarrow> commander_message_type \<Rightarrow> u8 list \<Rightarrow> 'p session \<Rightarrow> message result \<times> 'p session" where
  "request R type bytes = (\<lambda>(cm, p).
     case take_command_id cm of (ident, cm1) \<Rightarrow>
       send_command R \<lparr>msg_id = ident, msg_type = commander_code type, msg_data = bytes\<rparr> (cm1, p))"

text \<open>\<open>disconnect\<close> swallows every exception of the command.\<close>

definition disconnect :: "'p peer \<Rightarrow> 'p session \<Rightarrow> unit result \<times> 'p session" where
  "disconnect R = (\<lambda>(cm, p).
     if \<not> cm_connected cm then (Inr (), (cm, p))
     else (case request R Disconnect [] (cm, p) of
             (r, (cm1, p1)) \<Rightarrow>
               (case r of
                  Inl e \<Rightarrow> if uncaught e then (Inl e, (cm1, p1)) else (Inr (), (hang_up cm1, p1))
                | Inr _ \<Rightarrow> (Inr (), (hang_up cm1, p1)))))"

text \<open>The destructor; whatever is thrown in it is only logged.\<close>

definition delete_commander :: "'p peer \<Rightarrow> 'p session \<Rightarrow> unit result \<times> 'p session" where
  "delete_commander R s =
     (case disconnect R s of
        (Inl e, s1) \<Rightarrow> (Inl e, s1)
      | (Inr _, (cm, p)) \<Rightarrow> (case pr_close R p of (_, p1) \<Rightarrow> (Inr (), (cm, p1))))"

section \<open>What the table of promises keeps\<close>

text \<open>
  Every entry names a future, two entries never the same one; while the commander reads responses,
  the futures of the entries are exactly those that are not ready.
\<close>

definition promises_ok :: "commander \<Rightarrow> bool" where
  "promises_ok cm \<longleftrightarrow>
     map_ok (cm_promises cm)
     \<and> (\<forall>i k. map_find i (cm_promises cm) = Some k \<longrightarrow> k < length (cm_futures cm))
     \<and> (\<forall>i j k. map_find i (cm_promises cm) = Some k \<longrightarrow> map_find j (cm_promises cm) = Some k \<longrightarrow> i = j)"

definition entries_unset :: "commander \<Rightarrow> bool" where
  "entries_unset cm \<longleftrightarrow> (\<forall>i k. map_find i (cm_promises cm) = Some k \<longrightarrow> cm_futures cm ! k = None)"

definition unset_entered :: "commander \<Rightarrow> bool" where
  "unset_entered cm \<longleftrightarrow>
     (\<forall>k < length (cm_futures cm). cm_futures cm ! k = None \<longrightarrow>
        (\<exists>i. map_find i (cm_promises cm) = Some k))"

lemmas promise_invs = promises_ok_def entries_unset_def unset_entered_def

lemma promises_ok_entry:
  "promises_ok cm \<Longrightarrow> (i, k) \<in> set (cm_promises cm) \<longleftrightarrow> map_find i (cm_promises cm) = Some k"
  by (simp add: promises_ok_def map_find_entry)

lemma promises_ok_distinct: "promises_ok cm \<Longrightarrow> distinct (map snd (cm_promises cm))"
  unfolding distinct_map
  by (auto simp: inj_on_def promises_ok_entry intro: map_ok_distinct)
    (auto simp: promises_ok_def map_ok_distinct)

lemma new_commander_invs [simp]:
  "promises_ok new_commander" "entries_unset new_commander" "unset_entered new_commander"
  by (simp_all add: promise_invs new_commander_def map_empty_def)

lemma promise_invs_cong [simp]:
  "promises_ok (cm\<lparr>cm_connected := c\<rparr>) = promises_ok cm"
  "entries_unset (cm\<lparr>cm_connected := c\<rparr>) = entries_unset cm"
  "unset_entered (cm\<lparr>cm_connected := c\<rparr>) = unset_entered cm"
  "promises_ok (cm\<lparr>cm_next_command_id := i\<rparr>) = promises_ok cm"
  "entries_unset (cm\<lparr>cm_next_command_id := i\<rparr>) = entries_unset cm"
  "unset_entered (cm\<lparr>cm_next_command_id := i\<rparr>) = unset_entered cm"
  by (simp_all add: promise_invs)

text \<open>Registering a promise.\<close>

lemma length_abandon [simp]: "length (abandon k fs) = length fs"
  by (simp add: abandon_def)

lemma nth_abandon: "abandon k fs ! j = (if j = k \<and> fs ! k = None \<and> k < length fs
    then Some (Inl BrokenPromise) else fs ! j)"
  by (cases "k < length fs") (auto simp: abandon_def nth_list_update list_update_beyond)

lemma register_result:
  "cm_connected cm \<Longrightarrow> register_promise ident cm = (Inr k, cm') \<Longrightarrow>
   k = length (cm_futures cm) \<and> length (cm_futures cm') = Suc k
   \<and> cm_promises cm' = map_assign ident k (cm_promises cm)
   \<and> cm_connected cm' \<and> cm_next_command_id cm' = cm_next_command_id cm
   \<and> (\<forall>j. cm_futures cm' ! j =
         (if j = k then None
          else if map_find ident (cm_promises cm) = Some j \<and> cm_futures cm ! j = None \<and> j < k
            then Some (Inl BrokenPromise)
          else (cm_futures cm @ [None]) ! j))"
  by (auto simp: register_promise_def Let_def nth_append nth_abandon split: option.splits)

lemma register_connected:
  "cm_connected cm \<Longrightarrow> \<exists>cm'. register_promise ident cm = (Inr (length (cm_futures cm)), cm')"
  by (simp add: register_promise_def Let_def)

lemma register_promises_ok:
  assumes ok: "promises_ok cm" and c: "cm_connected cm"
    and reg: "register_promise ident cm = (Inr k, cm')"
  shows "promises_ok cm'"
proof -
  note r = register_result [OF c reg]
  have new: "map_find i (cm_promises cm) \<noteq> Some k" for i
    using ok r by (auto simp: promises_ok_def)
  with ok r show ?thesis
    by (auto simp: promises_ok_def map_find_assign map_ok_assign less_Suc_eq split: if_splits)
qed

lemma register_entries_unset:
  assumes ok: "promises_ok cm" and unset: "entries_unset cm" and c: "cm_connected cm"
    and reg: "register_promise ident cm = (Inr k, cm')"
  shows "entries_unset cm'"
  unfolding entries_unset_def
proof (intro allI impI)
  note r = register_result [OF c reg]
  fix i j assume "map_find i (cm_promises cm') = Some j"
  then consider "i = ident" "j = k" | "i \<noteq> ident" "map_find i (cm_promises cm) = Some j"
    using r by (auto simp: map_find_assign split: if_splits)
  then show "cm_futures cm' ! j = None"
  proof cases
    case 1
    with r show ?thesis by simp
  next
    case 2
    then have "j < k" "cm_futures cm ! j = None" using ok unset r by (auto simp: promise_invs)
    moreover have "map_find ident (cm_promises cm) \<noteq> Some j"
      using ok 2 by (auto simp: promises_ok_def)
    ultimately show ?thesis using r by (simp add: nth_append)
  qed
qed

lemma register_unset_entered:
  assumes entered: "unset_entered cm" and c: "cm_connected cm"
    and reg: "register_promise ident cm = (Inr k, cm')"
  shows "unset_entered cm'"
  unfolding unset_entered_def
proof (intro allI impI)
  note r = register_result [OF c reg]
  fix j assume j: "j < length (cm_futures cm')" "cm_futures cm' ! j = None"
  show "\<exists>i. map_find i (cm_promises cm') = Some j"
  proof (cases "j = k")
    case True
    with r show ?thesis by (auto simp: map_find_assign)
  next
    case False
    with j r have "j < length (cm_futures cm)" by simp
    moreover from this j r False have "cm_futures cm ! j = None"
      "map_find ident (cm_promises cm) \<noteq> Some j"
      by (auto simp: nth_append split: if_splits)
    ultimately obtain i where "map_find i (cm_promises cm) = Some j" "i \<noteq> ident"
      using entered by (auto simp: unset_entered_def)
    with r show ?thesis by (auto simp: map_find_assign)
  qed
qed

text \<open>A response.\<close>

lemma on_response_cases:
  assumes "promises_ok cm" "entries_unset cm"
  obtains (unknown) "map_find (msg_id m) (cm_promises cm) = None"
      "on_response m cm = (Inl (OutOfRange ''map::at''), cm)"
    | (known) k where "map_find (msg_id m) (cm_promises cm) = Some k" "k < length (cm_futures cm)"
      "cm_futures cm ! k = None"
      "on_response m cm = (Inr (), cm\<lparr>cm_futures := (cm_futures cm)[k := Some (response_outcome m)],
         cm_promises := map_erase (msg_id m) (cm_promises cm)\<rparr>)"
proof (cases "map_find (msg_id m) (cm_promises cm)")
  case None
  then show thesis by (intro unknown) (simp_all add: on_response_def map_at_def)
next
  case (Some k)
  then have "k < length (cm_futures cm)" "cm_futures cm ! k = None"
    using assms by (auto simp: promise_invs)
  with Some show thesis by (intro known) (simp_all add: on_response_def map_at_def satisfy_def)
qed

lemma answered_invs:
  assumes ok: "promises_ok cm" and f: "map_find ident (cm_promises cm) = Some k"
    and cm': "cm' = cm\<lparr>cm_futures := (cm_futures cm)[k := Some r],
      cm_promises := map_erase ident (cm_promises cm)\<rparr>"
  shows "promises_ok cm'" "entries_unset cm \<Longrightarrow> entries_unset cm'"
    "unset_entered cm \<Longrightarrow> unset_entered cm'"
proof -
  have other: "i = ident" if "map_find i (cm_promises cm) = Some k" for i
    using ok f that unfolding promises_ok_def by blast
  show "promises_ok cm'"
    using ok by (auto simp: promises_ok_def cm' map_find_erase map_ok_erase split: if_splits)
  have find': "map_find i (cm_promises cm') = Some j \<longleftrightarrow> i \<noteq> ident \<and> map_find i (cm_promises cm) = Some j"
    for i j by (simp add: cm' map_find_erase)
  have futures': "cm_futures cm' ! j = cm_futures cm ! j" if "j \<noteq> k" for j
    using that by (simp add: cm')
  show "entries_unset cm'" if "entries_unset cm"
    unfolding entries_unset_def find'
  proof (intro allI impI, elim conjE)
    fix i j assume "i \<noteq> ident" "map_find i (cm_promises cm) = Some j"
    then have "j \<noteq> k" "cm_futures cm ! j = None" using that other by (auto simp: entries_unset_def)
    then show "cm_futures cm' ! j = None" by (simp add: futures')
  qed
  show "unset_entered cm'" if entered: "unset_entered cm"
    unfolding unset_entered_def find'
  proof (intro allI impI)
    fix j assume j: "j < length (cm_futures cm')" "cm_futures cm' ! j = None"
    then have "j \<noteq> k" by (auto simp: cm')
    moreover have "j < length (cm_futures cm)" using j by (simp add: cm')
    ultimately obtain i where "map_find i (cm_promises cm) = Some j"
      using entered j futures' [of j] by (auto simp: unset_entered_def)
    with \<open>j \<noteq> k\<close> f show "\<exists>i. i \<noteq> ident \<and> map_find i (cm_promises cm) = Some j"
      by (metis option.inject)
  qed
qed

text \<open>Failing every entry.\<close>

lemma satisfy_all_result:
  assumes "distinct (map snd entries)" "\<forall>(i, k) \<in> set entries. k < length fs \<and> fs ! k = None"
  obtains fs' where "satisfy_all e entries fs = Inr fs'" "length fs' = length fs"
    "\<And>j. fs' ! j = (if j \<in> snd ` set entries then Some (Inl e) else fs ! j)"
proof -
  from assms have "\<exists>fs'. satisfy_all e entries fs = Inr fs' \<and> length fs' = length fs
      \<and> (\<forall>j. fs' ! j = (if j \<in> snd ` set entries then Some (Inl e) else fs ! j))"
  proof (induction e entries fs rule: satisfy_all.induct)
    case (2 e ident k entries fs)
    let ?fs = "fs[k := Some (Inl e)]"
    have s: "satisfy k (Inl e) fs = Inr ?fs" using "2.prems" by (simp add: satisfy_def)
    have "\<forall>(i, j) \<in> set entries. j < length ?fs \<and> ?fs ! j = None"
      using "2.prems" by (force simp: nth_list_update)
    with "2.IH" [of ?fs] "2.prems" have "\<exists>fs'. satisfy_all e entries ?fs = Inr fs' \<and> length fs' = length ?fs
        \<and> (\<forall>j. fs' ! j = (if j \<in> snd ` set entries then Some (Inl e) else ?fs ! j))"
      by simp
    then obtain fs' where "satisfy_all e entries ?fs = Inr fs'" "length fs' = length fs"
      "\<forall>j. fs' ! j = (if j \<in> snd ` set entries then Some (Inl e) else ?fs ! j)"
      by auto
    with s "2.prems" show ?case by (auto simp: nth_list_update)
  qed simp
  then show thesis using that by blast
qed

lemma fail_all_result:
  assumes ok: "promises_ok cm" and unset: "entries_unset cm"
  obtains fs where "fail_all e cm = (Inr (), cm\<lparr>cm_futures := fs\<rparr>)" "length fs = length (cm_futures cm)"
    "\<forall>j. fs ! j = (if \<exists>i. map_find i (cm_promises cm) = Some j then Some (Inl e) else cm_futures cm ! j)"
proof -
  have "\<forall>(i, k) \<in> set (cm_promises cm). k < length (cm_futures cm) \<and> cm_futures cm ! k = None"
    using ok unset by (auto simp: promises_ok_entry) (auto simp: promise_invs)
  then obtain fs where fs: "satisfy_all e (cm_promises cm) (cm_futures cm) = Inr fs"
      "length fs = length (cm_futures cm)"
      "\<And>j. fs ! j = (if j \<in> snd ` set (cm_promises cm) then Some (Inl e) else cm_futures cm ! j)"
    using satisfy_all_result [OF promises_ok_distinct [OF ok]] by blast
  have "j \<in> snd ` set (cm_promises cm) \<longleftrightarrow> (\<exists>i. map_find i (cm_promises cm) = Some j)" for j
    using promises_ok_entry [OF ok] by force
  with fs show thesis by (intro that [of fs]) (simp_all add: fail_all_def)
qed

section \<open>A call returns\<close>

text \<open>A transport that neither blocks for good nor runs into undefined behaviour itself.\<close>

definition peer_returns :: "'p peer \<Rightarrow> bool" where
  "peer_returns R \<longleftrightarrow>
     (\<forall>p e. fst (pr_read R p) = Inl e \<longrightarrow> \<not> uncaught e)
     \<and> (\<forall>m p e. fst (pr_write R m p) = Inl e \<longrightarrow> \<not> uncaught e)"

definition futures_caught :: "commander \<Rightarrow> bool" where
  "futures_caught cm \<longleftrightarrow> (\<forall>e. Some (Inl e) \<in> set (cm_futures cm) \<longrightarrow> \<not> uncaught e)"

definition session_ok :: "commander \<Rightarrow> bool" where
  "session_ok cm \<longleftrightarrow> promises_ok cm \<and> futures_caught cm
     \<and> (cm_connected cm \<longrightarrow> entries_unset cm \<and> unset_entered cm)"

lemma session_ok_new [simp]: "session_ok new_commander"
  by (simp add: session_ok_def futures_caught_def) (simp add: new_commander_def)

lemma session_ok_id: "session_ok (cm\<lparr>cm_next_command_id := i\<rparr>) = session_ok cm"
  by (simp add: session_ok_def futures_caught_def)

lemma session_ok_hang_up: "session_ok cm \<Longrightarrow> session_ok (hang_up cm)"
  by (simp add: session_ok_def hang_up_def futures_caught_def)

lemma response_exception_caught: "\<not> uncaught (response_exception m)"
  using read_error_reads(7) [of "new_deserializer (msg_data m)"]
  by (auto simp: response_exception_def read_error_def split: sum.splits)

lemma futures_caught_update:
  "futures_caught cm \<Longrightarrow> (\<And>e. r = Inl e \<Longrightarrow> \<not> uncaught e) \<Longrightarrow>
   futures_caught (cm\<lparr>cm_futures := (cm_futures cm)[k := Some r], cm_promises := ps\<rparr>)"
  using set_update_subset_insert [of "cm_futures cm" k "Some r"]
  by (auto simp: futures_caught_def)

lemma session_ok_register:
  assumes "session_ok cm" "register_promise ident cm = (r, cm')"
  shows "session_ok cm'"
proof (cases "cm_connected cm")
  case True
  then obtain k where reg: "register_promise ident cm = (Inr k, cm')" "r = Inr k"
    using assms(2) register_connected [of cm ident] by auto
  have "set (abandon j fs) \<subseteq> insert (Some (Inl BrokenPromise)) (set fs)" for j and fs :: "outcome option list"
    using set_update_subset_insert [of fs j "Some (Inl BrokenPromise)"]
    by (simp add: abandon_def subset_insertI)
  then have "futures_caught cm'"
    using assms True by (fastforce simp: session_ok_def futures_caught_def register_promise_def Let_def
        split: option.splits)
  with assms True reg show ?thesis
    by (auto simp: session_ok_def intro: register_promises_ok register_entries_unset
        register_unset_entered)
next
  case False
  with assms show ?thesis by (simp add: register_promise_def)
qed

text \<open>After the reader has failed, every future is ready.\<close>

lemma fail_all_session:
  assumes "session_ok cm" "cm_connected cm" "\<not> uncaught e"
  obtains cm' where "fail_all e (hang_up cm) = (Inr (), cm')" "session_ok cm'"
    "\<not> cm_connected cm'" "length (cm_futures cm') = length (cm_futures cm)"
    "\<forall>k < length (cm_futures cm). cm_futures cm' ! k \<noteq> None"
proof -
  have ok: "promises_ok (hang_up cm)" "entries_unset (hang_up cm)"
    using assms by (simp_all add: session_ok_def hang_up_def)
  obtain fs where fs: "fail_all e (hang_up cm) = (Inr (), (hang_up cm)\<lparr>cm_futures := fs\<rparr>)"
      "length fs = length (cm_futures cm)"
      "\<forall>j. fs ! j = (if \<exists>i. map_find i (cm_promises cm) = Some j then Some (Inl e) else cm_futures cm ! j)"
    by (rule fail_all_result [OF ok, of e]) (simp add: hang_up_def)
  have "futures_caught ((hang_up cm)\<lparr>cm_futures := fs\<rparr>)"
    using assms fs(2,3)
    by (auto simp: session_ok_def futures_caught_def in_set_conv_nth split: if_splits)
  moreover have "promises_ok ((hang_up cm)\<lparr>cm_futures := fs\<rparr>)"
    using ok fs(2) by (simp add: promises_ok_def hang_up_def)
  ultimately have "session_ok ((hang_up cm)\<lparr>cm_futures := fs\<rparr>)"
    by (simp add: session_ok_def hang_up_def)
  moreover have "fs ! k \<noteq> None" if "k < length (cm_futures cm)" for k
    using assms that by (auto simp: fs(3) session_ok_def unset_entered_def)
  ultimately show thesis using fs(1,2) by (intro that [of "(hang_up cm)\<lparr>cm_futures := fs\<rparr>"]) (auto simp: hang_up_def)
qed

text \<open>\<open>reads_to R p q\<close>: the transport delivers some responses, one after the other, from \<open>p\<close> to \<open>q\<close>.\<close>

definition reads_to :: "'p peer \<Rightarrow> 'p \<Rightarrow> 'p \<Rightarrow> bool" where
  "reads_to R = (\<lambda>p q. \<exists>m. pr_read R p = (Inr m, q))\<^sup>*\<^sup>*"

lemma reads_to_refl [simp]: "reads_to R p p"
  by (simp add: reads_to_def)

lemma reads_to_step: "pr_read R p = (Inr m, p') \<Longrightarrow> reads_to R p' q \<Longrightarrow> reads_to R p q"
  unfolding reads_to_def by (rule converse_rtranclp_into_rtranclp) blast

lemma read_response_session:
  assumes ok: "session_ok cm" and c: "cm_connected cm"
  obtains (stuck) e p' where "pr_read R p = (Inl e, p')" "uncaught e" "read_response R (cm, p) = (Inl e, (cm, p'))"
    | (goes_on) cm' p' where "read_response R (cm, p) = (Inr (), (cm', p'))" "session_ok cm'"
      "length (cm_futures cm') = length (cm_futures cm)"
      "cm_connected cm' \<and> (\<exists>m. pr_read R p = (Inr m, p'))
       \<or> (\<forall>k < length (cm_futures cm). cm_futures cm' ! k \<noteq> None)"
proof (cases "pr_read R p")
  case (Pair received p1)
  show thesis
  proof (cases received)
    case (Inl e)
    show thesis
    proof (cases "uncaught e")
      case True
      with Pair Inl show thesis by (intro stuck) (simp_all add: read_response_def)
    next
      case False
      then obtain cm' where f: "fail_all e (hang_up cm) = (Inr (), cm')" "session_ok cm'"
        "\<not> cm_connected cm'" "length (cm_futures cm') = length (cm_futures cm)"
        "\<forall>k < length (cm_futures cm). cm_futures cm' ! k \<noteq> None"
        by (rule fail_all_session [OF ok c]) blast
      then have "read_response R (cm, p) = (Inr (), (cm', p1))"
        by (simp add: read_response_def Pair Inl False)
      with f show thesis by (intro goes_on [of cm' p1]) simp_all
    qed
  next
    case (Inr m)
    have inv: "promises_ok cm" "entries_unset cm" using ok c by (simp_all add: session_ok_def)
    from inv show thesis
    proof (cases rule: on_response_cases [of cm m])
      case unknown
      have "\<not> uncaught (OutOfRange ''map::at'')" by simp
      then obtain cm' where f: "fail_all (OutOfRange ''map::at'') (hang_up cm) = (Inr (), cm')"
        "session_ok cm'" "\<not> cm_connected cm'" "length (cm_futures cm') = length (cm_futures cm)"
        "\<forall>k < length (cm_futures cm). cm_futures cm' ! k \<noteq> None"
        by (rule fail_all_session [OF ok c]) blast
      then have "read_response R (cm, p) = (Inr (), (cm', p1))"
        by (simp add: read_response_def Pair Inr unknown)
      with f show thesis by (intro goes_on [of cm' p1]) simp_all
    next
      case (known k)
      let ?cm = "cm\<lparr>cm_futures := (cm_futures cm)[k := Some (response_outcome m)],
        cm_promises := map_erase (msg_id m) (cm_promises cm)\<rparr>"
      have "session_ok ?cm"
        using answered_invs [OF inv(1) known(1), of ?cm "response_outcome m"] inv(2) ok
          futures_caught_update [of cm "response_outcome m"] response_exception_caught
        by (auto simp: session_ok_def response_outcome_def split: if_splits)
      moreover have "read_response R (cm, p) = (Inr (), (?cm, p1))"
        by (simp add: read_response_def Pair Inr known)
      ultimately show thesis using c Pair Inr by (intro goes_on [of ?cm p1]) simp_all
    qed
  qed
qed

text \<open>
  A wait ends with what the future is given, or never, and then because a read of the transport does not
  return.
\<close>

lemma await_outcome:
  "session_ok cm \<Longrightarrow> k < length (cm_futures cm) \<Longrightarrow> cm_connected cm \<or> cm_futures cm ! k \<noteq> None \<Longrightarrow>
   await R k (cm, p) = (r, s') \<Longrightarrow>
   session_ok (fst s') \<and> (\<forall>e. r = Inl e \<and> uncaught e \<longrightarrow> (\<exists>q. reads_to R p q \<and> fst (pr_read R q) = Inl e))"
proof (induction R k "(cm, p)" arbitrary: cm p rule: await.induct)
  case (1 R k cm p)
  show ?case
  proof (cases "cm_futures cm ! k")
    case None
    with "1.prems" have c: "cm_connected cm" by simp
    from "1.prems"(1) c show ?thesis
    proof (cases rule: read_response_session [of cm R p])
      case (stuck e p')
      then have "r = Inl e" "s' = (cm, p')" using "1.prems"(4) None c by (simp_all add: await.simps [of R k cm p])
      with stuck "1.prems"(1) show ?thesis by (auto intro!: exI [of _ p])
    next
      case (goes_on cm' p')
      then have rest: "await R k (cm', p') = (r, s')" using "1.prems"(4) None c by (subst (asm) await.simps) simp
      have ready: "cm_connected cm' \<or> cm_futures cm' ! k \<noteq> None" using goes_on(4) "1.prems"(2) by auto
      have less: "\<not> \<not> cm_connected cm" "k < length (cm_futures cm')" using c goes_on(3) "1.prems"(2) by simp_all
      note * = "1.hyps" [OF None less(1) goes_on(1) [symmetric] refl goes_on(2) less(2) ready rest]
      show ?thesis
      proof (cases "cm_connected cm' \<and> (\<exists>m. pr_read R p = (Inr m, p'))")
        case True
        with * show ?thesis by (blast intro: reads_to_step)
      next
        case False
        with goes_on(4) "1.prems"(2) obtain outcome where "cm_futures cm' ! k = Some outcome" by auto
        then have "r = outcome" "s' = (cm', p')" "Some outcome \<in> set (cm_futures cm')"
          using rest goes_on(3) "1.prems"(2) by (simp_all add: await.simps) (metis nth_mem)
        with goes_on(2) show ?thesis by (auto simp: session_ok_def futures_caught_def)
      qed
    qed
  next
    case (Some outcome)
    with "1.prems" have "r = outcome" "s' = (cm, p)" by (simp_all add: await.simps)
    with Some "1.prems" show ?thesis
      by (auto simp: session_ok_def futures_caught_def dest: nth_mem)
  qed
qed

lemma send_command_outcome:
  assumes ok: "session_ok cm" and run: "send_command R m (cm, p) = (r, s')"
  shows "session_ok (fst s')"
    and "r = Inl e \<Longrightarrow> uncaught e \<Longrightarrow> fst (pr_write R m p) = Inl e
      \<or> (\<exists>p1 q. pr_write R m p = (Inr (), p1) \<and> reads_to R p1 q \<and> fst (pr_read R q) = Inl e)"
proof -
  have "session_ok (fst s') \<and> (\<forall>e. r = Inl e \<and> uncaught e \<longrightarrow> fst (pr_write R m p) = Inl e
      \<or> (\<exists>p1 q. pr_write R m p = (Inr (), p1) \<and> reads_to R p1 q \<and> fst (pr_read R q) = Inl e))"
  proof (cases "cm_connected cm")
    case False
    with run ok show ?thesis by (auto simp: send_command_def register_promise_def)
  next
    case True
    let ?k = "length (cm_futures cm)"
    obtain cm1 where reg: "register_promise (msg_id m) cm = (Inr ?k, cm1)"
      using register_connected [OF True] by blast
    note r = register_result [OF True reg]
    have ok1: "session_ok cm1" by (rule session_ok_register [OF ok reg])
    obtain sent p1 where w: "pr_write R m p = (sent, p1)" by (rule prod.exhaust)
    show ?thesis
    proof (cases sent)
      case (Inl e)
      with w reg run ok1 show ?thesis by (auto simp: send_command_def)
    next
      case (Inr u)
      with w reg run have "await R ?k (cm1, p1) = (r, s')" by (simp add: send_command_def)
      with await_outcome [OF ok1, of ?k R p1 r s'] r w Inr show ?thesis by simp
    qed
  qed
  then show "session_ok (fst s')"
    and "r = Inl e \<Longrightarrow> uncaught e \<Longrightarrow> fst (pr_write R m p) = Inl e
      \<or> (\<exists>p1 q. pr_write R m p = (Inr (), p1) \<and> reads_to R p1 q \<and> fst (pr_read R q) = Inl e)" by blast+
qed

lemma send_command_returns:
  assumes R: "peer_returns R" and ok: "session_ok cm"
    and run: "send_command R m (cm, p) = (r, s')"
  shows "session_ok (fst s') \<and> (\<forall>e. r = Inl e \<longrightarrow> \<not> uncaught e)"
  using send_command_outcome [OF ok run] R unfolding peer_returns_def by blast

text \<open>There is no limit to the wait: with a worker that stays silent it has no end.\<close>

lemma silent_worker_blocks:
  assumes "cm_connected cm" "pr_write R m p = (Inr (), p1)" "fst (pr_read R p1) = Inl Blocked"
  shows "fst (send_command R m (cm, p)) = Inl Blocked"
proof -
  let ?k = "length (cm_futures cm)"
  obtain cm1 where reg: "register_promise (msg_id m) cm = (Inr ?k, cm1)"
    using register_connected [OF assms(1)] by blast
  note r = register_result [OF assms(1) reg]
  obtain p2 where "pr_read R p1 = (Inl Blocked, p2)" using assms(3) by (metis prod.collapse)
  then have "read_response R (cm1, p1) = (Inl Blocked, (cm1, p2))" by (simp add: read_response_def)
  with r have "await R ?k (cm1, p1) = (Inl Blocked, (cm1, p2))" by (subst await.simps) simp
  with reg assms(2) show ?thesis by (simp add: send_command_def)
qed

section \<open>Properties\<close>

text \<open>
  C30. A single caller waits only for the transport. Whatever it delivers, \<open>_send_command\<close> keeps the table of
  promises consistent and ends with a response or with an exception a handler can catch, unless the write
  of the command, or a read after the responses that came before, does not return itself. That case is
  real: there is no timeout, and a worker that takes the command and stays silent blocks the caller.
\<close>

theorem requests_block_only_in_the_transport:
  assumes "session_ok cm" "send_command R m (cm, p) = (r, s')"
  shows "session_ok (fst s')
    \<and> (\<forall>e. r = Inl e \<and> uncaught e \<longrightarrow> fst (pr_write R m p) = Inl e
        \<or> (\<exists>p1 q. pr_write R m p = (Inr (), p1) \<and> reads_to R p1 q \<and> fst (pr_read R q) = Inl e))
    \<and> (\<forall>p1. cm_connected cm \<and> pr_write R m p = (Inr (), p1) \<and> fst (pr_read R p1) = Inl Blocked \<longrightarrow> r = Inl Blocked)"
  using send_command_outcome [OF assms] silent_worker_blocks [of cm R m p] assms(2)
  by (metis fst_conv)

theorem requests_block_only_in_the_transport_witness:
  "\<exists>s'. send_command \<lparr>pr_write = \<lambda>m p. (Inr (), p), pr_read = \<lambda>p. (Inl Blocked, p), pr_close = \<lambda>p. (Inr (), p)\<rparr>
      \<lparr>msg_id = 0, msg_type = 0, msg_data = []\<rparr> (new_commander, ()) = (Inl Blocked, s') \<and> session_ok (fst s')"
proof -
  let ?R = "\<lparr>pr_write = \<lambda>m p. (Inr (), p), pr_read = \<lambda>p. (Inl Blocked, p), pr_close = \<lambda>p. (Inr (), p)\<rparr> :: unit peer"
  let ?m = "\<lparr>msg_id = 0, msg_type = 0, msg_data = []\<rparr> :: message"
  obtain r s' where run: "send_command ?R ?m (new_commander, ()) = (r, s')" by (rule prod.exhaust)
  from requests_block_only_in_the_transport [OF session_ok_new run]
  have "session_ok (fst s')" "r = Inl Blocked" by (simp_all add: new_commander_def)
  with run show ?thesis by blast
qed

end
