(* ===== verification/Commander_Ops.thy ===== *)
theory Commander_Ops
  imports Commander
begin

text \<open>
  \<open>commander/Commander\<close>, the operations a client calls, and \<open>commander/DirEntry\<close>. Each serializes
  its arguments, sends the command and reads the response back in the same order. An operation that
  fills a buffer of its caller takes the buffer and returns its contents, also when it throws.
\<close>

section \<open>Responses\<close>

text \<open>The two beginnings of a response: a flag or a number, then \<open>errno\<close> of the worker.\<close>

definition read_status :: "deserializer \<Rightarrow> ((bool \<times> i32) \<times> deserializer) result" where
  "read_status d =
     and_then (deserialize_uint8 d) (\<lambda>(value, d1).
     and_then (deserialize_int32 d1) (\<lambda>(worker_errno, d2). Inr ((value \<noteq> 0, worker_errno), d2)))"

definition read_value :: "deserializer \<Rightarrow> ((i32 \<times> i32) \<times> deserializer) result" where
  "read_value d =
     and_then (deserialize_int32 d) (\<lambda>(value, d1).
     and_then (deserialize_int32 d1) (\<lambda>(worker_errno, d2). Inr ((value, worker_errno), d2)))"

definition status_request ::
    "'p peer \<Rightarrow> commander_message_type \<Rightarrow> u8 list \<Rightarrow> 'p session \<Rightarrow> (bool \<times> i32) result \<times> 'p session"
where
  "status_request R type bytes s =
     (case request R type bytes s of (r, s1) \<Rightarrow>
        (and_then r (\<lambda>worker_msg.
         and_then (read_status (new_deserializer (msg_data worker_msg))) (\<lambda>(v, _). Inr v)), s1))"

definition value_request ::
    "'p peer \<Rightarrow> commander_message_type \<Rightarrow> u8 list \<Rightarrow> 'p session \<Rightarrow> (i32 \<times> i32) result \<times> 'p session"
where
  "value_request R type bytes s =
     (case request R type bytes s of (r, s1) \<Rightarrow>
        (and_then r (\<lambda>worker_msg.
         and_then (read_value (new_deserializer (msg_data worker_msg))) (\<lambda>(v, _). Inr v)), s1))"

section \<open>Operations that return success and \<open>errno\<close>\<close>

definition cmd_access :: "'p peer \<Rightarrow> string \<Rightarrow> i32 \<Rightarrow> 'p session \<Rightarrow> (bool \<times> i32) result \<times> 'p session" where
  "cmd_access R file_path mode =
     status_request R Access (fst (data
       (serialize_int32 mode (serialize_str file_path new_serializer))))"

definition cmd_rename ::
    "'p peer \<Rightarrow> string \<Rightarrow> string \<Rightarrow> u8 \<Rightarrow> 'p session \<Rightarrow> (bool \<times> i32) result \<times> 'p session" where
  "cmd_rename R old_path new_path flags =
     status_request R Rename (fst (data
       (serialize_uint8 flags (serialize_str new_path (serialize_str old_path new_serializer)))))"

definition cmd_truncate :: "'p peer \<Rightarrow> string \<Rightarrow> i64 \<Rightarrow> 'p session \<Rightarrow> (bool \<times> i32) result \<times> 'p session" where
  "cmd_truncate R file_path len =
     status_request R Truncate (fst (data
       (serialize_int64 len (serialize_str file_path new_serializer))))"

definition cmd_unlink :: "'p peer \<Rightarrow> string \<Rightarrow> 'p session \<Rightarrow> (bool \<times> i32) result \<times> 'p session" where
  "cmd_unlink R file_path =
     status_request R Unlink (fst (data (serialize_str file_path new_serializer)))"

definition cmd_chmod :: "'p peer \<Rightarrow> string \<Rightarrow> i32 \<Rightarrow> 'p session \<Rightarrow> (bool \<times> i32) result \<times> 'p session" where
  "cmd_chmod R file_path mode =
     status_request R ChangeMode (fst (data
       (serialize_int32 mode (serialize_str file_path new_serializer))))"

definition cmd_chown ::
    "'p peer \<Rightarrow> string \<Rightarrow> i32 \<Rightarrow> i32 \<Rightarrow> 'p session \<Rightarrow> (bool \<times> i32) result \<times> 'p session" where
  "cmd_chown R file_path owner grp =
     status_request R ChangeOwner (fst (data
       (serialize_int32 grp (serialize_int32 owner (serialize_str file_path new_serializer)))))"

definition cmd_utimens ::
    "'p peer \<Rightarrow> string \<Rightarrow> timespec \<Rightarrow> timespec \<Rightarrow> 'p session \<Rightarrow> (bool \<times> i32) result \<times> 'p session" where
  "cmd_utimens R file_path time0 time1 =
     status_request R SetTimes (fst (data
       (serialize_int64 (tv_sec time1) (serialize_int64 (tv_sec time0)
         (serialize_str file_path new_serializer)))))"

definition cmd_close :: "'p peer \<Rightarrow> i32 \<Rightarrow> 'p session \<Rightarrow> (bool \<times> i32) result \<times> 'p session" where
  "cmd_close R fd = status_request R Close (fst (data (serialize_int32 fd new_serializer)))"

definition cmd_closedir :: "'p peer \<Rightarrow> i32 \<Rightarrow> 'p session \<Rightarrow> (bool \<times> i32) result \<times> 'p session" where
  "cmd_closedir R fd = status_request R CloseDir (fst (data (serialize_int32 fd new_serializer)))"

definition cmd_mkdir :: "'p peer \<Rightarrow> string \<Rightarrow> i32 \<Rightarrow> 'p session \<Rightarrow> (bool \<times> i32) result \<times> 'p session" where
  "cmd_mkdir R dir_path mode =
     status_request R MakeDir (fst (data
       (serialize_int32 mode (serialize_str dir_path new_serializer))))"

definition cmd_rmdir :: "'p peer \<Rightarrow> string \<Rightarrow> 'p session \<Rightarrow> (bool \<times> i32) result \<times> 'p session" where
  "cmd_rmdir R dir_path =
     status_request R RemoveDir (fst (data (serialize_str dir_path new_serializer)))"

section \<open>Operations that return a number and \<open>errno\<close>\<close>

text \<open>The default of the third parameter.\<close>

abbreviation DEFFILEMODE :: i32 where "DEFFILEMODE \<equiv> 438"

definition cmd_open ::
    "'p peer \<Rightarrow> string \<Rightarrow> i32 \<Rightarrow> i32 \<Rightarrow> 'p session \<Rightarrow> (i32 \<times> i32) result \<times> 'p session" where
  "cmd_open R file_path flags mode =
     value_request R Open (fst (data
       (serialize_int32 mode (serialize_int32 flags (serialize_str file_path new_serializer)))))"

definition cmd_opendir :: "'p peer \<Rightarrow> string \<Rightarrow> 'p session \<Rightarrow> (i32 \<times> i32) result \<times> 'p session" where
  "cmd_opendir R dir_path =
     value_request R OpenDir (fst (data (serialize_str dir_path new_serializer)))"

text \<open>\<open>bytes\<close> is the memory the caller's pointer gives access to.\<close>

definition cmd_write ::
    "'p peer \<Rightarrow> i32 \<Rightarrow> u8 list \<Rightarrow> u32 \<Rightarrow> 'p session \<Rightarrow> (i32 \<times> i32) result \<times> 'p session" where
  "cmd_write R fd bytes len s =
     try_in (serialize_bytes bytes len (serialize_int32 fd new_serializer)) s (\<lambda>serializer.
       value_request R Write (fst (data serializer)) s)"

definition cmd_pwrite ::
    "'p peer \<Rightarrow> i32 \<Rightarrow> u8 list \<Rightarrow> u32 \<Rightarrow> i64 \<Rightarrow> 'p session \<Rightarrow> (i32 \<times> i32) result \<times> 'p session" where
  "cmd_pwrite R fd bytes len offset s =
     try_in (serialize_bytes bytes len (serialize_int64 offset (serialize_int32 fd new_serializer))) s
       (\<lambda>serializer. value_request R PWrite (fst (data serializer)) s)"

section \<open>Operations that fill a buffer\<close>

text \<open>\<open>getattr\<close> stores the fields one after the other; a throw leaves the earlier ones stored.\<close>

definition read_stat :: "deserializer \<Rightarrow> stat \<Rightarrow> unit result \<times> stat" where
  "read_stat d0 b0 =
     try_in (deserialize_uint32 d0) b0 (\<lambda>(v, d1). let b1 = b0\<lparr>st_mode := v\<rparr> in
     try_in (deserialize_uint32 d1) b1 (\<lambda>(v, d2). let b2 = b1\<lparr>st_uid := v\<rparr> in
     try_in (deserialize_uint32 d2) b2 (\<lambda>(v, d3). let b3 = b2\<lparr>st_gid := v\<rparr> in
     try_in (deserialize_int64 d3) b3 (\<lambda>(v, d4). let b4 = b3\<lparr>st_size := v\<rparr> in
     try_in (deserialize_int64 d4) b4 (\<lambda>(v, d5). let b5 = b4\<lparr>st_atime := v\<rparr> in
     try_in (deserialize_int64 d5) b5 (\<lambda>(v, d6). let b6 = b5\<lparr>st_mtime := v\<rparr> in
     try_in (deserialize_int64 d6) b6 (\<lambda>(v, d7). (Inr (), b6\<lparr>st_ctime := v\<rparr>))))))))"

definition cmd_getattr ::
    "'p peer \<Rightarrow> string \<Rightarrow> stat \<Rightarrow> 'p session \<Rightarrow> ((bool \<times> i32) result \<times> stat) \<times> 'p session" where
  "cmd_getattr R file_path file_info s =
     (case request R GetAttr (fst (data (serialize_str file_path new_serializer))) s of
        (r, s1) \<Rightarrow>
          (try_in r file_info (\<lambda>worker_msg.
           try_in (read_status (new_deserializer (msg_data worker_msg))) file_info (\<lambda>((value, worker_errno), d).
           if value then
             (case read_stat d file_info of (stored, file_info') \<Rightarrow>
                (and_then stored (\<lambda>_. Inr (value, worker_errno)), file_info'))
           else (Inr (value, worker_errno), file_info))), s1))"

text \<open>\<open>statvfs\<close> reads its fields whatever the flag says.\<close>

definition read_statvfs :: "deserializer \<Rightarrow> statvfs \<Rightarrow> unit result \<times> statvfs" where
  "read_statvfs d0 b0 =
     try_in (deserialize_uint32 d0) b0 (\<lambda>(v, d1). let b1 = b0\<lparr>f_bsize := ucast v\<rparr> in
     try_in (deserialize_uint32 d1) b1 (\<lambda>(v, d2). let b2 = b1\<lparr>f_frsize := ucast v\<rparr> in
     try_in (deserialize_uint32 d2) b2 (\<lambda>(v, d3). let b3 = b2\<lparr>f_blocks := ucast v\<rparr> in
     try_in (deserialize_uint32 d3) b3 (\<lambda>(v, d4). let b4 = b3\<lparr>f_bfree := ucast v\<rparr> in
     try_in (deserialize_uint32 d4) b4 (\<lambda>(v, d5). let b5 = b4\<lparr>f_bavail := ucast v\<rparr> in
     try_in (deserialize_uint32 d5) b5 (\<lambda>(v, d6). let b6 = b5\<lparr>f_files := ucast v\<rparr> in
     try_in (deserialize_uint32 d6) b6 (\<lambda>(v, d7). let b7 = b6\<lparr>f_ffree := ucast v\<rparr> in
     try_in (deserialize_uint32 d7) b7 (\<lambda>(v, d8). let b8 = b7\<lparr>f_favail := ucast v\<rparr> in
     try_in (deserialize_uint32 d8) b8 (\<lambda>(v, d9). let b9 = b8\<lparr>f_fsid := ucast v\<rparr> in
     try_in (deserialize_uint32 d9) b9 (\<lambda>(v, d10). let b10 = b9\<lparr>f_flag := ucast v\<rparr> in
     try_in (deserialize_uint32 d10) b10 (\<lambda>(v, d11). (Inr (), b10\<lparr>f_namemax := ucast v\<rparr>))))))))))))"

definition cmd_statvfs ::
    "'p peer \<Rightarrow> string \<Rightarrow> statvfs \<Rightarrow> 'p session \<Rightarrow> ((bool \<times> i32) result \<times> statvfs) \<times> 'p session" where
  "cmd_statvfs R file_path fs_info s =
     (case request R StatFileSystem (fst (data (serialize_str file_path new_serializer))) s of
        (r, s1) \<Rightarrow>
          (try_in r fs_info (\<lambda>worker_msg.
           try_in (read_status (new_deserializer (msg_data worker_msg))) fs_info (\<lambda>(status, d).
           case read_statvfs d fs_info of (stored, fs_info') \<Rightarrow>
             (and_then stored (\<lambda>_. Inr status), fs_info'))), s1))"

text \<open>
  The end of the two reads. \<open>memcpy\<close> copies as many bytes as the number says; the vector and the
  caller's buffer have to have them.
\<close>

definition store_bytes ::
    "string \<Rightarrow> u32 \<Rightarrow> u8 list \<Rightarrow> message \<Rightarrow> (i32 \<times> i32) result \<times> u8 list" where
  "store_bytes what len bytes worker_msg =
     try_in (read_value (new_deserializer (msg_data worker_msg))) bytes (\<lambda>((value, worker_errno), d).
     if 0 < sint value then
       try_in (deserialize_byte_vector d) bytes (\<lambda>(bytes_vector, _).
         if unat len < length bytes_vector
         then (Inl (RuntimeError (what @ '' returned more bytes than requested'')), bytes)
         else if length bytes_vector < unat value \<or> length bytes < unat value
         then (Inl (Undefined ''memcpy past the end of a buffer''), bytes)
         else (Inr (value, worker_errno), take (unat value) bytes_vector @ drop (unat value) bytes))
     else (Inr (value, worker_errno), bytes))"

definition cmd_read ::
    "'p peer \<Rightarrow> i32 \<Rightarrow> u8 list \<Rightarrow> u32 \<Rightarrow> 'p session \<Rightarrow> ((i32 \<times> i32) result \<times> u8 list) \<times> 'p session" where
  "cmd_read R fd bytes len s =
     (case request R Read (fst (data (serialize_uint32 len (serialize_int32 fd new_serializer)))) s of
        (r, s1) \<Rightarrow> (try_in r bytes (store_bytes ''read'' len bytes), s1))"

definition cmd_pread ::
    "'p peer \<Rightarrow> i32 \<Rightarrow> u8 list \<Rightarrow> u32 \<Rightarrow> i64 \<Rightarrow> 'p session
       \<Rightarrow> ((i32 \<times> i32) result \<times> u8 list) \<times> 'p session" where
  "cmd_pread R fd bytes len offset s =
     (case request R PRead (fst (data (serialize_int64 offset (serialize_uint32 len
             (serialize_int32 fd new_serializer))))) s of
        (r, s1) \<Rightarrow> (try_in r bytes (store_bytes ''pread'' len bytes), s1))"

text \<open>
  What a response can make of the buffer: the number in it is checked neither against its bytes nor
  against the buffer.
\<close>

lemma read_error_value [simp]: "read_error (read_value d)"
  by (auto simp: read_value_def split: prod.splits intro!: read_error_and_then)

lemma store_bytes_undefined:
  "(\<exists>u. fst (store_bytes what len bytes m) = Inl (Undefined u)) \<longleftrightarrow>
     (\<exists>v e d bs d'. read_value (new_deserializer (msg_data m)) = Inr ((v, e), d) \<and> 0 < sint v
        \<and> deserialize_byte_vector d = Inr (bs, d') \<and> length bs \<le> unat len
        \<and> (length bs < unat v \<or> length bytes < unat v))"
proof (cases "read_value (new_deserializer (msg_data m))")
  case (Inl e)
  then have "\<nexists>u. e = Undefined u" using read_error_value [of "new_deserializer (msg_data m)"]
    by (auto simp: read_error_def)
  with Inl show ?thesis by (simp add: store_bytes_def)
next
  case (Inr x)
  then obtain v e d where x: "read_value (new_deserializer (msg_data m)) = Inr ((v, e), d)"
    by (cases x) auto
  show ?thesis
  proof (cases "deserialize_byte_vector d")
    case (Inl e)
    then have "\<nexists>u. e = Undefined u" using read_error_reads(6) [of d] by (auto simp: read_error_def)
    with Inl x show ?thesis by (auto simp: store_bytes_def)
  next
    case (Inr y)
    with x show ?thesis by (cases y) (auto simp: store_bytes_def)
  qed
qed

section \<open>Directory listings\<close>

record dir_entry =
  entry_inode :: u32
  entry_type :: u8
  entry_name :: string

text \<open>
  The loop takes an entry as long as more than the four bytes of \<open>errno\<close> are unread. Every entry
  read leaves fewer unread bytes.
\<close>

definition read_entry :: "deserializer \<Rightarrow> (dir_entry \<times> deserializer) result" where
  "read_entry d =
     and_then (deserialize_uint32 d) (\<lambda>(inode, d1).
     and_then (deserialize_uint8 d1) (\<lambda>(file_type, d2).
     and_then (deserialize_str d2) (\<lambda>(name, d3).
       Inr (\<lparr>entry_inode = inode, entry_type = file_type, entry_name = name\<rparr>, d3))))"

lemma bytes_available_advance: "bytes_available (advance n d) = bytes_available d - n"
proof -
  have diff: "(ucast (x - y) :: u32) = ucast x - ucast y" for x y :: u64
  proof -
    have "(ucast (word_of_int (uint x - uint y) :: u64) :: u32) = word_of_int (uint x - uint y)"
      by (rule ucast_down_wi) (simp add: is_down)
    moreover have "(word_of_int (uint x - uint y) :: u64) = x - y" by (simp add: wi_hom_sub [symmetric])
    moreover have "(word_of_int (uint x - uint y) :: u32) = ucast x - ucast y"
      by (simp add: wi_hom_sub [symmetric] flip: word_of_int_uint)
    ultimately show ?thesis by simp
  qed
  have "(ucast (ucast k :: u64) :: u32) = k" for k :: u32
    by (rule bit_word_eqI) (auto simp: bit_simps dest: bit_imp_le_length)
  then show ?thesis by (simp add: bytes_available_def advance_def diff)
qed

lemma bytes_available_loop:
  "bytes_available (snd (unsigned_loop n v d)) = bytes_available d - word_of_nat n"
  by (induction n arbitrary: v d) (simp_all add: bytes_available_advance algebra_simps)

text \<open>\<open>takes n d d'\<close>: the operation leaves \<open>n\<close> fewer unread bytes, and they were there.\<close>

definition takes :: "u32 \<Rightarrow> deserializer \<Rightarrow> deserializer \<Rightarrow> bool" where
  "takes n d d' \<longleftrightarrow> n \<le> bytes_available d \<and> bytes_available d' = bytes_available d - n"

lemma takes_less: "takes n d d' \<Longrightarrow> unat (bytes_available d') = unat (bytes_available d) - unat n"
  by (simp add: takes_def unat_sub)

lemma takes_le: "takes n d d' \<Longrightarrow> unat n \<le> unat (bytes_available d)"
  by (simp add: takes_def word_le_nat_alt)

lemma validate_takes:
  "validate_no_overflow n d = Inr () \<Longrightarrow> takes n d (advance n d)"
  by (auto simp: takes_def validate_no_overflow_def bytes_available_advance split: if_splits)

lemma validate_unit: "validate_no_overflow n d = Inr u \<Longrightarrow> takes n d (advance n d)"
  using validate_takes by simp

lemma uint8_takes: "deserialize_uint8 d = Inr (v, d') \<Longrightarrow> takes 1 d d'"
  by (auto simp: deserialize_uint8_def and_then_def dest: validate_unit split: sum.splits)

lemma uint32_takes:
  assumes "deserialize_uint32 d = Inr (v, d')"
  shows "takes 4 d d'"
proof -
  have "validate_no_overflow 4 d = Inr ()" and "d' = snd (unsigned_loop 4 0 d :: u32 \<times> _)"
    using assms by (auto simp: deserialize_uint32_def and_then_def split: sum.splits)
  then show ?thesis
    using validate_takes bytes_available_loop [of 4 "0 :: u32" d] by (auto simp: takes_def)
qed

lemma str_takes:
  assumes "deserialize_str d = Inr (v, d')"
  shows "unat (bytes_available d') \<le> unat (bytes_available d)"
proof -
  obtain n d1 where "deserialize_uint32 d = Inr (n, d1)" "takes n d1 d'"
    using assms by (auto simp: deserialize_str_def and_then_def split: sum.splits) (blast intro: validate_takes)
  then show ?thesis by (auto dest!: uint32_takes takes_less)
qed

lemma entry_takes:
  assumes "read_entry d = Inr (entry, d')"
  shows "unat (bytes_available d') < unat (bytes_available d)"
proof -
  obtain inode d1 type d2 name where
    "deserialize_uint32 d = Inr (inode, d1)" "deserialize_uint8 d1 = Inr (type, d2)"
    "deserialize_str d2 = Inr (name, d')"
    using assms by (auto simp: read_entry_def and_then_def split: sum.splits)
  then have "takes 4 d d1" "takes 1 d1 d2" "unat (bytes_available d') \<le> unat (bytes_available d2)"
    by (auto dest: uint32_takes uint8_takes str_takes)
  then show ?thesis using takes_less takes_le by fastforce
qed

function read_entries :: "deserializer \<Rightarrow> (dir_entry list \<times> deserializer) result" where
  "read_entries d =
     (if 4 < bytes_available d then
        (case read_entry d of
           Inl e \<Rightarrow> Inl e
         | Inr (entry, d1) \<Rightarrow>
             and_then (read_entries d1) (\<lambda>(entries, d2). Inr (entry # entries, d2)))
      else Inr ([], d))"
  by pat_completeness auto
termination
  by (relation "measure (\<lambda>d. unat (bytes_available d))") (auto dest: entry_takes)

declare read_entries.simps [simp del]

definition cmd_readdir ::
    "'p peer \<Rightarrow> i32 \<Rightarrow> u32 \<Rightarrow> 'p session \<Rightarrow> (dir_entry list \<times> i32) result \<times> 'p session" where
  "cmd_readdir R fd entries s =
     (case request R ReadDir (fst (data (serialize_uint32 entries (serialize_int32 fd new_serializer)))) s of
        (r, s1) \<Rightarrow>
          (and_then r (\<lambda>worker_msg.
           and_then (read_entries (new_deserializer (msg_data worker_msg))) (\<lambda>(dir_entries, d).
           and_then (deserialize_int32 d) (\<lambda>(worker_errno, _). Inr (dir_entries, worker_errno)))), s1))"

section \<open>Properties\<close>

text \<open>
  C40. The only check on a response to \<open>read\<close> or \<open>pread\<close> is on the size of its byte vector. The copy runs past
  the vector or past the caller's buffer exactly when the number in the response is larger than one
  of them.
\<close>

theorem read_trusts_the_number_in_the_response:
  "(\<exists>u. fst (store_bytes what len bytes m) = Inl (Undefined u)) =
     (\<exists>v e d bs d'. read_value (new_deserializer (msg_data m)) = Inr ((v, e), d) \<and> 0 < sint v
        \<and> deserialize_byte_vector d = Inr (bs, d') \<and> length bs \<le> unat len
        \<and> (length bs < unat v \<or> length bytes < unat v))"
  by (rule store_bytes_undefined)

end
