(* ===== verification/Rpc.thy ===== *)
theory Rpc
  imports Worker Commander_Ops
begin

text \<open>
  Commander and worker together: the transport of the commander is a worker that carries out every
  command it is sent, in order, and whose replies come back in that order. Each operation of the
  commander then does what the system call it stands for does on the worker's machine: this is the
  contract of the whole protocol. What the transport itself does to the bytes of a message is in
  \<open>Message_Transport\<close>.
\<close>

record 'w remote =
  rm_worker :: worker
  rm_world :: "'w world"
  rm_inbox :: "message list"

definition worker_write :: "'w posix \<Rightarrow> bool \<Rightarrow> message \<Rightarrow> 'w remote \<Rightarrow> unit result \<times> 'w remote" where
  "worker_write P android m p =
     (case do_command P android m (rm_worker p, rm_world p) of
        (Inr reply, (wk, w)) \<Rightarrow>
          (Inr (), \<lparr>rm_worker = wk, rm_world = w, rm_inbox = rm_inbox p @ [reply]\<rparr>)
      | (Inl e, (wk, w)) \<Rightarrow> (Inr (), p\<lparr>rm_worker := wk, rm_world := w\<rparr>))"

definition worker_read :: "'w remote \<Rightarrow> message result \<times> 'w remote" where
  "worker_read p =
     (case rm_inbox p of
        [] \<Rightarrow> (Inl TransportClosed, p)
      | reply # replies \<Rightarrow> (Inr reply, p\<lparr>rm_inbox := replies\<rparr>))"

definition worker_peer :: "'w posix \<Rightarrow> bool \<Rightarrow> 'w remote peer" where
  "worker_peer P android =
     \<lparr>pr_write = worker_write P android, pr_read = worker_read, pr_close = (\<lambda>p. (Inr (), p))\<rparr>"

lemma worker_peer_returns: "peer_returns (worker_peer P android)"
  by (auto simp: peer_returns_def worker_peer_def worker_write_def worker_read_def
      split: prod.splits sum.splits list.splits)

text \<open>A commander with no request under way, and the state after one more command.\<close>

definition idle :: "commander \<Rightarrow> bool" where
  "idle cm \<longleftrightarrow> cm_connected cm \<and> cm_promises cm = []"

definition after_call :: "outcome \<Rightarrow> commander \<Rightarrow> commander" where
  "after_call r cm = cm\<lparr>cm_next_command_id := cm_next_command_id cm + 1,
     cm_futures := cm_futures cm @ [Some r]\<rparr>"

lemma idle_after_call [simp]: "idle (after_call r cm) = idle cm"
  by (simp add: idle_def after_call_def)

abbreviation command_of :: "commander \<Rightarrow> commander_message_type \<Rightarrow> u8 list \<Rightarrow> message" where
  "command_of cm type bytes \<equiv>
     \<lparr>msg_id = cm_next_command_id cm, msg_type = commander_code type, msg_data = bytes\<rparr>"

text \<open>A request whose response comes first.\<close>

lemma request_answered:
  assumes idle: "idle cm" and sent: "pr_write R (command_of cm type bytes) p = (Inr (), p1)"
    and read: "pr_read R p1 = (Inr reply, p2)" and reply: "msg_id reply = cm_next_command_id cm"
  shows "request R type bytes (cm, p) = (response_outcome reply, (after_call (response_outcome reply) cm, p2))"
proof -
  let ?k = "length (cm_futures cm)"
  let ?cm = "cm\<lparr>cm_next_command_id := cm_next_command_id cm + 1,
    cm_promises := [(cm_next_command_id cm, ?k)], cm_futures := cm_futures cm @ [None]\<rparr>"
  have reg: "register_promise (cm_next_command_id cm)
      (cm\<lparr>cm_next_command_id := cm_next_command_id cm + 1\<rparr>) = (Inr ?k, ?cm)"
    using idle by (simp add: register_promise_def idle_def Let_def)
  have answer: "on_response reply ?cm
      = (Inr (), ?cm\<lparr>cm_promises := [], cm_futures := cm_futures cm @ [Some (response_outcome reply)]\<rparr>)"
    by (simp add: on_response_def map_at_def reply satisfy_def map_erase_def list_update_append)
  have "await R ?k (?cm, p1) = (response_outcome reply, (after_call (response_outcome reply) cm, p2))"
    using idle read answer
    by (subst await.simps) (simp add: idle_def read_response_def nth_append after_call_def,
       subst await.simps, simp add: nth_append)
  with reg sent show ?thesis
    by (simp add: request_def take_command_id_def send_command_def)
qed

lemma command_reply:
  obtains reply wk w where "do_command P android (command_of cm type bytes) s = (Inr reply, (wk, w))"
    "msg_id reply = cm_next_command_id cm"
  using do_command_replies [of P android "command_of cm type bytes" s] by (metis message.select_convs(1) prod.exhaust)

lemma request_remote:
  assumes idle: "idle cm" and inbox: "rm_inbox p = []"
    and run: "do_command P android (command_of cm type bytes) (rm_worker p, rm_world p) = (Inr reply, (wk, w))"
  shows "request (worker_peer P android) type bytes (cm, p)
    = (response_outcome reply,
       (after_call (response_outcome reply) cm, p\<lparr>rm_worker := wk, rm_world := w\<rparr>))"
proof (rule request_answered [OF idle])
  let ?p = "\<lparr>rm_worker = wk, rm_world = w, rm_inbox = [reply]\<rparr>"
  show "pr_write (worker_peer P android) (command_of cm type bytes) p = (Inr (), ?p)"
    using run inbox by (simp add: worker_peer_def worker_write_def)
  show "pr_read (worker_peer P android) ?p = (Inr reply, p\<lparr>rm_worker := wk, rm_world := w\<rparr>)"
    using inbox by (simp add: worker_peer_def worker_read_def)
  show "msg_id reply = cm_next_command_id cm"
    using command_reply [of P android cm type bytes "(rm_worker p, rm_world p)"] run by force
qed

text \<open>The last field of a message, and a handler's reply as the outcome of a request.\<close>

lemmas deser_last [deser_simps] =
  deserialize_uint32_read [where xs = "[]", simplified]
  deserialize_int32_read [where xs = "[]", simplified]
  deserialize_int64_read [where xs = "[]", simplified]
  deserialize_byte_vector_read [where xs = "[]", simplified]
  deserialize_str_read [where xs = "[]", simplified]

lemma outcome_result [simp]: "msg_type reply = 0 \<Longrightarrow> response_outcome reply = Inr reply"
  by (simp add: response_outcome_def)

lemma do_command_result:
  "dispatch P android m s = (Inr reply, s') \<Longrightarrow> do_command P android m s = (Inr reply, s')"
  by (simp add: do_command_def)

lemma read_status_eq:
  "fits pre (b # be32 e @ xs) \<Longrightarrow>
   read_status (de_cur pre (b # be32 e @ xs)) = Inr ((b \<noteq> 0, e), de_cur ((pre @ [b]) @ be32 e) xs)"
  by (simp add: read_status_def deser_simps fits_def)

lemma read_value_eq:
  "fits pre (be32 v @ be32 e @ xs) \<Longrightarrow>
   read_value (de_cur pre (be32 v @ be32 e @ xs)) = Inr ((v, e), de_cur ((pre @ be32 v) @ be32 e) xs)"
  by (simp add: read_value_def deser_simps fits_def)

lemma status_reply_read [rpc_simps]:
  "read_status (new_deserializer (msg_data (status_result m value w)))
     = Inr ((value = 0, errno w), de_cur (((if value = 0 then 1 else 0) # be32 (errno w))) [])"
  using read_status_eq [of "[]" "if value = 0 then 1 else 0" "errno w" "[]"]
  by (simp add: status_result_data new_deserializer_eq)

lemma value_reply_read [rpc_simps]:
  "read_value (new_deserializer (msg_data (value_result m value w)))
     = Inr ((value, errno w), de_cur (be32 value @ be32 (errno w)) [])"
  using read_value_eq [of "[]" "value" "errno w" "[]"]
  by (simp add: value_result_data new_deserializer_eq)

text \<open>A command whose handler ends with one of the two common replies.\<close>

lemma status_remote:
  assumes "idle cm" "rm_inbox p = []"
    and "dispatch P android (command_of cm type bytes) (rm_worker p, rm_world p)
      = (Inr (status_result (command_of cm type bytes) value w), (wk, w))"
  shows "status_request (worker_peer P android) type bytes (cm, p)
    = (Inr (value = 0, errno w),
       (after_call (Inr (status_result (command_of cm type bytes) value w)) cm,
        p\<lparr>rm_worker := wk, rm_world := w\<rparr>))"
  using request_remote [OF assms(1,2) do_command_result [OF assms(3)]]
  by (simp add: status_request_def rpc_simps)

lemma value_remote:
  assumes "idle cm" "rm_inbox p = []"
    and "dispatch P android (command_of cm type bytes) (rm_worker p, rm_world p)
      = (Inr (value_result (command_of cm type bytes) value w), (wk, w))"
  shows "value_request (worker_peer P android) type bytes (cm, p)
    = (Inr (value, errno w),
       (after_call (Inr (value_result (command_of cm type bytes) value w)) cm,
        p\<lparr>rm_worker := wk, rm_world := w\<rparr>))"
  using request_remote [OF assms(1,2) do_command_result [OF assms(3)]]
  by (simp add: value_request_def rpc_simps)

text \<open>What the caller of an operation sees: a result, an idle commander, the new remote state.\<close>

definition completes :: "('a \<times> 'w remote session) \<Rightarrow> 'a \<Rightarrow> 'w remote \<Rightarrow> bool" where
  "completes run x p' \<longleftrightarrow> (\<exists>cm'. idle cm' \<and> run = (x, (cm', p')))"

abbreviation path_fits :: "string \<Rightarrow> bool" where
  "path_fits path \<equiv> length path < 2 ^ 31"

lemmas remote_simps =
  dispatch_def Let_def in_file_handler_def in_dir_handler_def new_deserializer_eq deser_simps
  fits_def

lemma completes_status:
  "idle cm \<Longrightarrow> rm_inbox p = [] \<Longrightarrow>
   dispatch P android (command_of cm type bytes) (rm_worker p, rm_world p)
     = (Inr (status_result (command_of cm type bytes) value w), (wk, w)) \<Longrightarrow>
   completes (status_request (worker_peer P android) type bytes (cm, p)) (Inr (value = 0, errno w))
     (p\<lparr>rm_worker := wk, rm_world := w\<rparr>)"
  by (simp add: completes_def status_remote)

lemma completes_value:
  "idle cm \<Longrightarrow> rm_inbox p = [] \<Longrightarrow>
   dispatch P android (command_of cm type bytes) (rm_worker p, rm_world p)
     = (Inr (value_result (command_of cm type bytes) value w), (wk, w)) \<Longrightarrow>
   completes (value_request (worker_peer P android) type bytes (cm, p)) (Inr (value, errno w))
     (p\<lparr>rm_worker := wk, rm_world := w\<rparr>)"
  by (simp add: completes_def value_remote)

lemma remote_same [simp]: "p\<lparr>rm_worker := rm_worker p, rm_world := w\<rparr> = p\<lparr>rm_world := w\<rparr>"
  by (cases p) simp

section \<open>Operations on paths\<close>

text \<open>The call is made with the same arguments; its result and its \<open>errno\<close> come back.\<close>

lemma path_remote:
  assumes idle: "idle cm" "rm_inbox p = []" and path: "path_fits path"
  shows "px_access P (c_str path) mode (rm_world p) = (value, w) \<Longrightarrow>
      completes (cmd_access (worker_peer P android) path mode (cm, p))
        (Inr (value = 0, errno w)) (p\<lparr>rm_world := w\<rparr>)"
    and "px_truncate P (c_str path) len (rm_world p) = (value, w) \<Longrightarrow>
      completes (cmd_truncate (worker_peer P android) path len (cm, p))
        (Inr (value = 0, errno w)) (p\<lparr>rm_world := w\<rparr>)"
    and "px_unlink P (c_str path) (rm_world p) = (value, w) \<Longrightarrow>
      completes (cmd_unlink (worker_peer P android) path (cm, p))
        (Inr (value = 0, errno w)) (p\<lparr>rm_world := w\<rparr>)"
    and "px_chmod P (c_str path) mode (rm_world p) = (value, w) \<Longrightarrow>
      completes (cmd_chmod (worker_peer P android) path mode (cm, p))
        (Inr (value = 0, errno w)) (p\<lparr>rm_world := w\<rparr>)"
    and "px_chown P (c_str path) owner grp (rm_world p) = (value, w) \<Longrightarrow>
      completes (cmd_chown (worker_peer P android) path owner grp (cm, p))
        (Inr (value = 0, errno w)) (p\<lparr>rm_world := w\<rparr>)"
    and "px_utimensat P (c_str path) \<lparr>tv_sec = tv_sec t0, tv_nsec = 0\<rparr>
        \<lparr>tv_sec = tv_sec t1, tv_nsec = 0\<rparr> (rm_world p) = (value, w) \<Longrightarrow>
      completes (cmd_utimens (worker_peer P android) path t0 t1 (cm, p))
        (Inr (value = 0, errno w)) (p\<lparr>rm_world := w\<rparr>)"
    and "px_mkdir P (c_str path) mode (rm_world p) = (value, w) \<Longrightarrow>
      completes (cmd_mkdir (worker_peer P android) path mode (cm, p))
        (Inr (value = 0, errno w)) (p\<lparr>rm_world := w\<rparr>)"
    and "px_rmdir P (c_str path) (rm_world p) = (value, w) \<Longrightarrow>
      completes (cmd_rmdir (worker_peer P android) path (cm, p))
        (Inr (value = 0, errno w)) (p\<lparr>rm_world := w\<rparr>)"
  using completes_status [OF idle, where wk = "rm_worker p"] path
  by (auto simp: cmd_access_def cmd_truncate_def cmd_unlink_def cmd_chmod_def cmd_chown_def
    cmd_utimens_def cmd_mkdir_def cmd_rmdir_def ser_simps remote_simps fh_access_def fh_truncate_def
    fh_unlink_def fh_chmod_def fh_chown_def fh_utimens_def dh_mkdir_def dh_rmdir_def)

text \<open>
  \<open>rename\<close>: the flags decide on the worker's side whether the call is made at all.
\<close>

definition rename_result :: "'w posix \<Rightarrow> string \<Rightarrow> string \<Rightarrow> u8 \<Rightarrow> 'w world \<Rightarrow> i32 \<times> 'w world" where
  "rename_result P old_path new_path flags w =
     (if flags AND RENAME_NOREPLACE \<noteq> 0 then
        (case px_stat P (c_str new_path) (px_stack_stat P w) w of ((r, _), w1) \<Rightarrow>
           if flags AND RENAME_EXCHANGE \<noteq> 0 then (-1, w1\<lparr>errno := EINVAL\<rparr>)
           else if r = 0 then (-1, w1\<lparr>errno := EEXIST\<rparr>)
           else px_rename P (c_str old_path) (c_str new_path) w1)
      else if flags AND RENAME_EXCHANGE \<noteq> 0 then (-1, w\<lparr>errno := EINVAL\<rparr>)
      else px_rename P (c_str old_path) (c_str new_path) w)"

lemma rename_remote:
  assumes idle: "idle cm" "rm_inbox p = []" and paths: "path_fits old_path" "length new_path < 2 ^ 30"
    and run: "rename_result P old_path new_path flags (rm_world p) = (value, w)"
  shows "completes (cmd_rename (worker_peer P android) old_path new_path flags (cm, p))
    (Inr (value = 0, errno w)) (p\<lparr>rm_world := w\<rparr>)"
  using completes_status [OF idle, where wk = "rm_worker p"] paths run
  by (auto simp: cmd_rename_def ser_simps remote_simps fh_rename_def rename_result_def
      split: prod.splits if_splits)

section \<open>Open files\<close>

text \<open>\<open>open\<close> gives the id under which the worker keeps the descriptor.\<close>

lemma open_remote:
  assumes idle: "idle cm" "rm_inbox p = []" and path: "path_fits path"
    and run: "px_open P (c_str path) flags mode (rm_world p) = (fd, w)"
    and id: "(if 0 \<le> sint fd then fh_register fd (wk_file_handler (rm_worker p))
              else (-1, wk_file_handler (rm_worker p))) = (i, h)"
  shows "completes (cmd_open (worker_peer P android) path flags mode (cm, p))
    (Inr (i, errno w)) (p\<lparr>rm_worker := (rm_worker p)\<lparr>wk_file_handler := h\<rparr>, rm_world := w\<rparr>)"
  using completes_value [OF idle, where wk = "(rm_worker p)\<lparr>wk_file_handler := h\<rparr>"] path run id
  by (auto simp: cmd_open_def ser_simps remote_simps fh_open_def split: if_splits)

lemma close_remote:
  assumes idle: "idle cm" "rm_inbox p = []"
    and run: "px_close P (fh_get_fd i (wk_file_handler (rm_worker p))) (rm_world p) = (value, w)"
  shows "completes (cmd_close (worker_peer P android) i (cm, p)) (Inr (value = 0, errno w))
    (p\<lparr>rm_worker := (rm_worker p)\<lparr>wk_file_handler := fh_forget i (wk_file_handler (rm_worker p))\<rparr>,
       rm_world := w\<rparr>)"
  using completes_status [OF idle, where
      wk = "(rm_worker p)\<lparr>wk_file_handler := fh_forget i (wk_file_handler (rm_worker p))\<rparr>"] run
  by (auto simp: cmd_close_def ser_simps remote_simps fh_close_def)

text \<open>The writes pass the bytes through unchanged.\<close>

lemma write_remote:
  assumes idle: "idle cm" "rm_inbox p = []" and len: "unat len < 2 ^ 31" "unat len \<le> length bytes"
  shows "px_write P (fh_get_fd i (wk_file_handler (rm_worker p))) (take (unat len) bytes) (rm_world p)
        = (result, w) \<Longrightarrow>
      completes (cmd_write (worker_peer P android) i bytes len (cm, p)) (Inr (ucast result, errno w))
        (p\<lparr>rm_world := w\<rparr>)"
    and "px_pwrite P (fh_get_fd i (wk_file_handler (rm_worker p))) (take (unat len) bytes) offset (rm_world p)
        = (result, w) \<Longrightarrow>
      completes (cmd_pwrite (worker_peer P android) i bytes len offset (cm, p))
        (Inr (ucast result, errno w)) (p\<lparr>rm_world := w\<rparr>)"
  using completes_value [OF idle, where wk = "rm_worker p"] len
  by (auto simp: cmd_write_def cmd_pwrite_def ser_simps remote_simps fh_write_def fh_pwrite_def)

section \<open>Reading into the caller's buffer\<close>

text \<open>
  What \<open>read\<close> and \<open>pread\<close> document: the result is -1 or the number of bytes stored, at most the
  size of the buffer, whose size does not change.
\<close>

definition read_behaves :: "u32 \<Rightarrow> i64 \<Rightarrow> u8 list \<Rightarrow> bool" where
  "read_behaves len result buffer \<longleftrightarrow>
     -1 \<le> sint result \<and> sint result \<le> int (unat len) \<and> length buffer = unat len"

definition fill :: "i64 \<Rightarrow> u8 list \<Rightarrow> u8 list \<Rightarrow> u8 list" where
  "fill result buffer bytes =
     (if 0 < sint result
      then take (nat (sint result)) buffer @ drop (nat (sint result)) bytes else bytes)"

lemma narrow_result:
  assumes "read_behaves len result buffer" "unat len < 2 ^ 31"
  shows "sint (ucast result :: i32) = sint result"
    and "0 \<le> sint result \<Longrightarrow> unat (ucast result :: i32) = nat (sint result)"
proof -
  have "int (unat len) < int (2 ^ 31)" using assms(2) by (simp only: of_nat_less_iff)
  then have range: "-1 \<le> sint result" "sint result < 2 ^ 31"
    using assms(1) unfolding read_behaves_def by simp_all
  have "(ucast (word_of_int (sint result) :: i64) :: i32) = word_of_int (sint result)"
    by (rule ucast_down_wi) (simp add: is_down)
  then have narrow: "(ucast result :: i32) = word_of_int (sint result)" by simp
  then have "sint (ucast result :: i32) = signed_take_bit 31 (sint result)"
    by (simp only: signed_of_int) simp
  also have "\<dots> = sint result" using range by (simp add: signed_take_bit_int_eq_self)
  finally show "sint (ucast result :: i32) = sint result" .
  show "unat (ucast result :: i32) = nat (sint result)" if "0 \<le> sint result"
  proof -
    have "uint (ucast result :: i32) = sint result"
      using range that by (simp only: narrow uint_word_of_int) simp
    then show ?thesis by (metis unat_eq_nat_uint)
  qed
qed

lemma read_result_data:
  "length buffer + 12 < 2 ^ 32 \<Longrightarrow>
   msg_data (read_result m result buffer w)
     = be32 (ucast result) @ be32 (errno w) @ enc_bytes
         (if 0 \<le> sint (ucast result :: i32) then resize (unat (ucast result :: i32)) buffer else buffer)"
  by (simp add: read_result_def Let_def ser_simps)

lemma store_read_result:
  assumes behaves: "read_behaves len result buffer" and len: "unat len < 2 ^ 31"
    and room: "unat len \<le> length bytes"
  shows "store_bytes what len bytes (read_result m result buffer w)
    = (Inr (ucast result, errno w), fill result buffer bytes)"
proof -
  note narrow = narrow_result [OF behaves len]
  let ?v = "ucast result :: i32"
  have size: "length buffer = unat len" and le: "sint result \<le> int (unat len)"
    using behaves by (simp_all add: read_behaves_def)
  show ?thesis
  proof (cases "0 < sint result")
    case True
    let ?n = "nat (sint result)"
    have n: "unat ?v = ?n" "?n \<le> length buffer" using True narrow(2) le size by (simp_all only: nat_le_iff)
    have cut: "resize ?n buffer = take ?n buffer" using n by (simp add: resize_def)
    have bytes: "msg_data (read_result m result buffer w)
        = be32 ?v @ be32 (errno w) @ enc_bytes (take ?n buffer)"
      using True n size len by (simp add: read_result_data narrow(1) cut)
    have small: "length (take ?n buffer) < 2 ^ 31" using size len by simp
    then have "read_value (de_cur [] (be32 ?v @ be32 (errno w) @ enc_bytes (take ?n buffer)))
        = Inr ((?v, errno w), de_cur (be32 ?v @ be32 (errno w)) (enc_bytes (take ?n buffer)))"
      using read_value_eq [of "[]" ?v "errno w" "enc_bytes (take ?n buffer)"] by (simp add: fits_def)
    moreover have "deserialize_byte_vector (de_cur (be32 ?v @ be32 (errno w)) (enc_bytes (take ?n buffer)))
        = Inr (take ?n buffer, de_cur ((be32 ?v @ be32 (errno w)) @ enc_bytes (take ?n buffer)) [])"
      using small by (intro deser_last) (simp add: fits_def)
    ultimately show ?thesis
      using True n room size
      by (simp add: store_bytes_def bytes new_deserializer_eq narrow(1) fill_def min_def)
  next
    case False
    let ?rest = "enc_bytes (if 0 \<le> sint ?v then resize (unat ?v) buffer else buffer)"
    have "length ?rest \<le> unat len + 4"
      using False narrow size by (auto simp: resize_def)
    then have "fits [] (be32 ?v @ be32 (errno w) @ ?rest)" using len by (simp add: fits_def)
    from read_value_eq [OF this] show ?thesis
      using False size len by (simp add: store_bytes_def read_result_data new_deserializer_eq narrow(1) fill_def)
  qed
qed

lemma read_remote:
  assumes idle: "idle cm" "rm_inbox p = []"
    and behaves: "read_behaves len result buffer" and len: "unat len < 2 ^ 31" "unat len \<le> length bytes"
  shows "px_read P (fh_get_fd i (wk_file_handler (rm_worker p))) (replicate (unat len) 0) (rm_world p)
        = ((result, buffer), w) \<Longrightarrow>
      completes (cmd_read (worker_peer P android) i bytes len (cm, p))
        (Inr (ucast result, errno w), fill result buffer bytes) (p\<lparr>rm_world := w\<rparr>)"
    and "px_pread P (fh_get_fd i (wk_file_handler (rm_worker p))) (replicate (unat len) 0) offset (rm_world p)
        = ((result, buffer), w) \<Longrightarrow>
      completes (cmd_pread (worker_peer P android) i bytes len offset (cm, p))
        (Inr (ucast result, errno w), fill result buffer bytes) (p\<lparr>rm_world := w\<rparr>)"
proof -
  note request = request_remote [OF idle do_command_result, where wk = "rm_worker p"]
  note store = store_read_result [OF behaves len]
  { assume "px_read P (fh_get_fd i (wk_file_handler (rm_worker p))) (replicate (unat len) 0) (rm_world p)
        = ((result, buffer), w)"
    then show "completes (cmd_read (worker_peer P android) i bytes len (cm, p))
        (Inr (ucast result, errno w), fill result buffer bytes) (p\<lparr>rm_world := w\<rparr>)"
      using request [where type = Read] idle
      by (simp add: completes_def cmd_read_def ser_simps remote_simps fh_read_def store) }
  { assume "px_pread P (fh_get_fd i (wk_file_handler (rm_worker p))) (replicate (unat len) 0) offset (rm_world p)
        = ((result, buffer), w)"
    then show "completes (cmd_pread (worker_peer P android) i bytes len offset (cm, p))
        (Inr (ucast result, errno w), fill result buffer bytes) (p\<lparr>rm_world := w\<rparr>)"
      using request [where type = PRead] idle
      by (simp add: completes_def cmd_pread_def ser_simps remote_simps fh_pread_def store) }
qed

section \<open>File attributes and file systems\<close>

text \<open>The fields that cross the wire.\<close>

definition copy_stat :: "stat \<Rightarrow> stat \<Rightarrow> stat" where
  "copy_stat st buf = buf\<lparr>st_mode := st_mode st, st_uid := st_uid st, st_gid := st_gid st,
     st_size := st_size st, st_atime := st_atime st, st_mtime := st_mtime st, st_ctime := st_ctime st\<rparr>"

lemma getattr_remote:
  assumes idle: "idle cm" "rm_inbox p = []" and path: "path_fits path"
    and run: "px_stat P (c_str path) (px_stack_stat P (rm_world p)) (rm_world p) = ((r, st), w)"
  shows "completes (cmd_getattr (worker_peer P android) path buf (cm, p))
    (Inr (r = 0, errno w), if r = 0 then copy_stat st buf else buf) (p\<lparr>rm_world := w\<rparr>)"
  using request_remote [OF idle do_command_result, where wk = "rm_worker p" and type = GetAttr] path run idle
  by (simp add: completes_def cmd_getattr_def ser_simps remote_simps fh_getattr_def read_status_def
      read_stat_def copy_stat_def)

text \<open>The fields of a file system cross the wire as 32-bit numbers, also when the call failed.\<close>

abbreviation low32 :: "u64 \<Rightarrow> u64" where "low32 x \<equiv> ucast (ucast x :: u32)"

definition copy_statvfs :: "statvfs \<Rightarrow> statvfs" where
  "copy_statvfs st = \<lparr>f_bsize = low32 (f_bsize st), f_frsize = low32 (f_frsize st),
     f_blocks = low32 (f_blocks st), f_bfree = low32 (f_bfree st), f_bavail = low32 (f_bavail st),
     f_files = low32 (f_files st), f_ffree = low32 (f_ffree st), f_favail = low32 (f_favail st),
     f_fsid = low32 (f_fsid st), f_flag = low32 (f_flag st), f_namemax = low32 (f_namemax st)\<rparr>"

lemma statvfs_remote:
  assumes idle: "idle cm" "rm_inbox p = []" and path: "path_fits path"
    and run: "px_statvfs P (c_str path) (px_stack_statvfs P (rm_world p)) (rm_world p) = ((r, st), w)"
  shows "completes (cmd_statvfs (worker_peer P android) path buf (cm, p))
    (Inr (r = 0, errno w), copy_statvfs st) (p\<lparr>rm_world := w\<rparr>)"
  using request_remote [OF idle do_command_result, where wk = "rm_worker p" and type = StatFileSystem] path run idle
  by (simp add: completes_def cmd_statvfs_def ser_simps remote_simps fh_statvfs_def read_status_def
      read_statvfs_def copy_statvfs_def)

section \<open>Directories\<close>

lemma opendir_remote:
  assumes idle: "idle cm" "rm_inbox p = []" and path: "path_fits path"
    and run: "px_opendir P (c_str path) (rm_world p) = (fd, w)"
    and id: "(if fd \<noteq> nullptr then dh_register fd (wk_dir_handler (rm_worker p))
              else (-1, wk_dir_handler (rm_worker p))) = (i, h)"
  shows "completes (cmd_opendir (worker_peer P False) path (cm, p))
    (Inr (i, errno w)) (p\<lparr>rm_worker := (rm_worker p)\<lparr>wk_dir_handler := h\<rparr>, rm_world := w\<rparr>)"
  using completes_value [OF idle, where wk = "(rm_worker p)\<lparr>wk_dir_handler := h\<rparr>"] path run id
  by (auto simp: cmd_opendir_def ser_simps remote_simps dh_opendir_def dirs_to_override_def
      map_empty_def split: if_splits)

text \<open>
  What \<open>readdir\<close> documents: called with \<open>errno\<close> 0 again and again, it gives the entries \<open>es\<close> one by
  one, \<open>errno\<close> staying 0, and then no entry.
\<close>

fun entries_read :: "'w posix \<Rightarrow> dir_ptr \<Rightarrow> dirent list \<Rightarrow> 'w world \<Rightarrow> 'w world \<Rightarrow> bool" where
  "entries_read P fd [] w w' \<longleftrightarrow> w = w'"
| "entries_read P fd (e # es) w w' \<longleftrightarrow>
     (\<exists>w1. px_readdir P fd (w\<lparr>errno := 0\<rparr>) = (Some e, w1) \<and> errno w1 = 0 \<and> entries_read P fd es w1 w')"

definition listing :: "'w posix \<Rightarrow> dir_ptr \<Rightarrow> dirent list \<Rightarrow> 'w world \<Rightarrow> 'w world \<Rightarrow> bool" where
  "listing P fd es w w' \<longleftrightarrow>
     (\<exists>w1. entries_read P fd es w w1 \<and> px_readdir P fd (w1\<lparr>errno := 0\<rparr>) = (None, w'))"

lemma entries_read_append:
  "entries_read P fd (xs @ ys) w w' \<longleftrightarrow>
     (\<exists>w1. entries_read P fd xs w w1 \<and> entries_read P fd ys w1 w')"
  by (induction xs arbitrary: w) auto

lemma entries_read_errno: "entries_read P fd es w w' \<Longrightarrow> es \<noteq> [] \<Longrightarrow> errno w' = 0"
proof (induction es arbitrary: w)
  case (Cons e es)
  then show ?case by (cases es) auto
qed simp

definition entry_bytes :: "dirent \<Rightarrow> u8 list" where
  "entry_bytes e = be32 (ucast (d_ino e)) @ d_type e # enc_str (c_str (d_name e))"

definition entry_of :: "dirent \<Rightarrow> dir_entry" where
  "entry_of e = \<lparr>entry_inode = ucast (d_ino e), entry_type = d_type e, entry_name = c_str (d_name e)\<rparr>"

abbreviation entries_bytes :: "dirent list \<Rightarrow> u8 list" where
  "entries_bytes es \<equiv> concat (map entry_bytes es)"

lemma readdir_loop_entries:
  "entries_read P fd es w w1 \<Longrightarrow> length (bs @ entries_bytes es) + 9 < 2 ^ 32 \<Longrightarrow>
   readdir_loop P fd None (length es + n) i (ser_of bs) w
     = readdir_loop P fd None n (i + length es) (ser_of (bs @ entries_bytes es)) w1"
proof (induction es arbitrary: i bs w)
  case (Cons e es)
  then obtain w2 where call: "px_readdir P fd (w\<lparr>errno := 0\<rparr>) = (Some e, w2)"
    and rest: "entries_read P fd es w2 w1"
    by auto
  have "serialize_cstr (Some (d_name e)) (serialize_uint8 (d_type e)
      (serialize_uint32 (ucast (d_ino e)) (ser_of bs))) = Inr (ser_of (bs @ entry_bytes e))"
    using Cons.prems(2) by (simp add: ser_simps entry_bytes_def)
  with Cons.IH [OF rest, of "bs @ entry_bytes e" "Suc i"] Cons.prems call show ?case by simp
qed simp

text \<open>A batch that ends with the directory, and one that ends with the number asked for.\<close>

lemma readdir_loop_batch:
  assumes "length (entries_bytes es) + 9 < 2 ^ 32"
  shows "listing P fd es w w' \<Longrightarrow> length es < n \<Longrightarrow>
      readdir_loop P fd None n 0 new_serializer w = (Inr (ser_of (entries_bytes es)), w')"
    and "entries_read P fd es w w' \<Longrightarrow>
      readdir_loop P fd None (length es) 0 new_serializer w = (Inr (ser_of (entries_bytes es)), w')"
proof -
  assume "listing P fd es w w'" and less: "length es < n"
  then obtain w1 where es: "entries_read P fd es w w1"
    and last: "px_readdir P fd (w1\<lparr>errno := 0\<rparr>) = (None, w')"
    by (auto simp: listing_def)
  define k where "k = n - length es - 1"
  have "n = length es + Suc k" using less by (simp add: k_def)
  with readdir_loop_entries [OF es, of "[]" "Suc k" 0] last assms
  show "readdir_loop P fd None n 0 new_serializer w = (Inr (ser_of (entries_bytes es)), w')"
    by (simp add: new_serializer_eq del: add_Suc_right)
next
  assume "entries_read P fd es w w'"
  from readdir_loop_entries [OF this, of "[]" 0 0] assms
  show "readdir_loop P fd None (length es) 0 new_serializer w = (Inr (ser_of (entries_bytes es)), w')"
    by (simp add: new_serializer_eq)
qed

lemma read_entry_bytes:
  "fits pre (entry_bytes e @ xs) \<Longrightarrow>
   read_entry (de_cur pre (entry_bytes e @ xs)) = Inr (entry_of e, de_cur (pre @ entry_bytes e) xs)"
  by (simp add: read_entry_def entry_bytes_def entry_of_def deser_simps fits_def)

lemma read_entries_bytes:
  "fits pre (entries_bytes es @ be32 v) \<Longrightarrow>
   read_entries (de_cur pre (entries_bytes es @ be32 v))
     = Inr (map entry_of es, de_cur (pre @ entries_bytes es) (be32 v))"
proof (induction es arbitrary: pre)
  case Nil
  then show ?case by (simp add: read_entries.simps)
next
  case (Cons e es)
  let ?post = "entry_bytes e @ (entries_bytes es @ be32 v)"
  have fits: "fits pre ?post" using Cons.prems by simp
  then have "length ?post < 2 ^ 32" by (simp add: fits_def)
  moreover have "4 < length ?post" by (simp add: entry_bytes_def)
  ultimately have "unat (4 :: u32) < unat (bytes_available (de_cur pre ?post))"
    by (simp only: bytes_available_cur [OF fits] unat_index) simp
  then have "4 < bytes_available (de_cur pre ?post)" by (simp only: word_less_nat_alt)
  moreover have "read_entries (de_cur (pre @ entry_bytes e) (entries_bytes es @ be32 v))
      = Inr (map entry_of es, de_cur ((pre @ entry_bytes e) @ entries_bytes es) (be32 v))"
    using fits by (intro Cons.IH) simp
  ultimately show ?case
    using read_entry_bytes [OF fits] by (subst read_entries.simps) simp
qed

text \<open>One call gives the whole rest of the directory, or as many entries as were asked for.\<close>

lemma readdir_remote:
  assumes idle: "idle cm" "rm_inbox p = []"
    and dir: "dh_lookup_overridden i (wk_dir_handler (rm_worker p)) = None"
      "dh_lookup i (wk_dir_handler (rm_worker p)) = Some fd" "fd \<noteq> nullptr"
    and small: "length (entries_bytes es) < 2 ^ 31"
    and entries: "listing P fd es (rm_world p) w \<and> length es < unat n
      \<or> entries_read P fd es (rm_world p) w \<and> length es = unat n"
  shows "completes (cmd_readdir (worker_peer P android) i n (cm, p))
    (Inr (map entry_of es, errno w)) (p\<lparr>rm_world := w\<rparr>)"
proof -
  let ?m = "command_of cm ReadDir (be32 i @ be32 n)" and ?out = "entries_bytes es @ be32 (errno w)"
  have loop: "readdir_loop P fd None (unat n) 0 new_serializer (rm_world p)
      = (Inr (ser_of (entries_bytes es)), w)"
    using entries
  proof (elim disjE conjE)
    assume "listing P fd es (rm_world p) w" "length es < unat n"
    then show ?thesis by (rule readdir_loop_batch(1) [rotated]) (use small in simp)
  next
    assume "entries_read P fd es (rm_world p) w" "length es = unat n"
    then show ?thesis using readdir_loop_batch(2) [of es P fd "rm_world p" w] small by simp
  qed
  have "dispatch P android ?m (rm_worker p, rm_world p)
      = (Inr (command_result ?m (ser_of ?out)), (rm_worker p, w))"
    using dir small loop
    by (simp add: remote_simps dh_readdir_def dh_lookup_overridden_def dh_get_fd_lookup
        serialize_int32_ser_of)
  from request_remote [OF idle do_command_result [OF this]]
  have "request (worker_peer P android) ReadDir (be32 i @ be32 n) (cm, p)
      = (Inr (command_result ?m (ser_of ?out)),
         (after_call (Inr (command_result ?m (ser_of ?out))) cm, p\<lparr>rm_world := w\<rparr>))"
    by simp
  moreover have "read_entries (new_deserializer ?out)
      = Inr (map entry_of es, de_cur (entries_bytes es) (be32 (errno w)))"
    using read_entries_bytes [of "[]" es "errno w"] small by (simp add: new_deserializer_eq)
  ultimately show ?thesis
    using idle small by (simp add: completes_def cmd_readdir_def ser_simps deser_simps fits_def)
qed

end
