(* ===== verification/Server.thy ===== *)
theory Server
  imports Commander_Ops
begin

text \<open>
  \<open>commander/Server\<close>: the listening socket and the table of commanders by client name. A commander
  is kept with the state of its transport. The table holds shared pointers: an entry that is erased
  while no call uses it destroys its commander, which disconnects it; \<open>sv_dropped\<close> records the last
  states of those, for no step reads it. \<open>accepted\<close> gives the transport of an accepted descriptor.
\<close>

record 'p server =
  sv_should_stop :: bool
  sv_socket :: i32
  sv_commanders :: "(string, 'p session) std_map"
  sv_dropped :: "'p session list"

definition server_new :: "'w net \<Rightarrow> string \<Rightarrow> u16 \<Rightarrow> ('p server result, 'w) call" where
  "server_new N host port w =
     (case tcp_new N w of
        (Inl e, w1) \<Rightarrow> (Inl e, w1)
      | (Inr sock, w1) \<Rightarrow>
          (case tcp_bind N sock host port w1 of
             (Inl e, w2) \<Rightarrow> (Inl e, tcp_delete N sock w2)
           | (Inr _, w2) \<Rightarrow>
               (case tcp_listen N sock 4 w2 of
                  (Inl e, w3) \<Rightarrow> (Inl e, tcp_delete N sock w3)
                | (Inr _, w3) \<Rightarrow>
                    (Inr \<lparr>sv_should_stop = False, sv_socket = sock, sv_commanders = map_empty,
                          sv_dropped = []\<rparr>, w3))))"

definition server_close :: "'w net \<Rightarrow> 'p server \<Rightarrow> 'w world \<Rightarrow> 'p server \<times> 'w world" where
  "server_close N sv w =
     (if sv_should_stop sv then (sv, w)
      else (case tcp_close N (sv_socket sv) w of (sock, w1) \<Rightarrow>
              (sv\<lparr>sv_should_stop := True, sv_socket := sock\<rparr>, w1)))"

text \<open>\<open>_commanders.erase(name)\<close> with the destructor of the commander.\<close>

definition erase_commander :: "'p peer \<Rightarrow> string \<Rightarrow> 'p server \<Rightarrow> unit result \<times> 'p server" where
  "erase_commander R name sv =
     (case map_find name (sv_commanders sv) of
        None \<Rightarrow> (Inr (), sv)
      | Some s \<Rightarrow>
          (case delete_commander R s of (r, s1) \<Rightarrow>
             (r, sv\<lparr>sv_commanders := map_erase name (sv_commanders sv),
                    sv_dropped := sv_dropped sv @ [s1]\<rparr>)))"

text \<open>
  One round of \<open>_accept_connections\<close>, and the loop for at most \<open>n\<close> connections. \<open>accepted\<close> makes the
  transport of the new commander; it throws when there is no descriptor left for its pipe. Whatever
  is thrown ends the loop: no worker is accepted any more.
\<close>

definition accept_one ::
    "'w net \<Rightarrow> 'p peer \<Rightarrow> (i32 \<Rightarrow> ('p result, 'w) call) \<Rightarrow> 'p server \<Rightarrow> 'w world
       \<Rightarrow> unit result \<times> 'p server \<times> 'w world"
where
  "accept_one N R accepted sv w =
     (case tcp_accept N (sv_socket sv) w of
        (Inl e, w1) \<Rightarrow> (Inl e, sv, w1)
      | (Inr (connection, client_ip, client_port), w1) \<Rightarrow>
          let conn_name = format_connection N client_ip client_port
          in case erase_commander R conn_name sv of
               (Inl e, sv1) \<Rightarrow> (Inl e, sv1, w1)
             | (Inr _, sv1) \<Rightarrow>
                 (case accepted connection w1 of
                    (Inl e, w2) \<Rightarrow> (Inl e, sv1, w2)
                  | (Inr p, w2) \<Rightarrow>
                      (Inr (), sv1\<lparr>sv_commanders := map_emplace conn_name (new_commander, p)
                         (sv_commanders sv1)\<rparr>, w2)))"

fun accept_connections ::
    "'w net \<Rightarrow> 'p peer \<Rightarrow> (i32 \<Rightarrow> ('p result, 'w) call) \<Rightarrow> nat \<Rightarrow> 'p server \<Rightarrow> 'w world
       \<Rightarrow> unit result \<times> 'p server \<times> 'w world"
where
  "accept_connections N R accepted 0 sv w = (Inr (), sv, w)"
| "accept_connections N R accepted (Suc n) sv w =
     (if sv_should_stop sv then (Inr (), sv, w)
      else (case accept_one N R accepted sv w of
              (Inl e, sv1, w1) \<Rightarrow> (if uncaught e then Inl e else Inr (), sv1, w1)
            | (Inr _, sv1, w1) \<Rightarrow> accept_connections N R accepted n sv1 w1))"

text \<open>\<open>None\<close> is the null pointer. A commander that has lost its worker is forgotten here.\<close>

definition get_commander ::
    "'p peer \<Rightarrow> string \<Rightarrow> 'p server \<Rightarrow> 'p session option result \<times> 'p server" where
  "get_commander R client sv =
     (case map_find client (sv_commanders sv) of
        None \<Rightarrow> (Inr None, sv)
      | Some s \<Rightarrow>
          if \<not> is_connected (fst s) then
            (case erase_commander R client sv of (r, sv1) \<Rightarrow> (and_then r (\<lambda>_. Inr None), sv1))
          else (Inr (Some s), sv))"

definition get_clients :: "'p server \<Rightarrow> string list" where
  "get_clients sv = map fst (filter (\<lambda>(name, s). is_connected (fst s)) (sv_commanders sv))"

text \<open>The pointer a client holds is the entry of the table: what it does to the commander stays.\<close>

definition put_commander :: "string \<Rightarrow> 'p session \<Rightarrow> 'p server \<Rightarrow> 'p server" where
  "put_commander client s sv = sv\<lparr>sv_commanders := map_assign client s (sv_commanders sv)\<rparr>"

text \<open>
  The destructor: \<open>close\<close>, then the map destroys its commanders in the order of their names. A
  commander that never comes back (\<open>Blocked\<close>) keeps the destructor from returning.
\<close>

fun delete_commanders ::
    "'p peer \<Rightarrow> (string \<times> 'p session) list \<Rightarrow> unit result \<times> 'p session list" where
  "delete_commanders R [] = (Inr (), [])"
| "delete_commanders R ((name, s) # entries) =
     (case delete_commander R s of
        (Inl e, s1) \<Rightarrow> (Inl e, [s1])
      | (Inr _, s1) \<Rightarrow>
          (case delete_commanders R entries of (r, dropped) \<Rightarrow> (r, s1 # dropped)))"

definition delete_server ::
    "'w net \<Rightarrow> 'p peer \<Rightarrow> 'p server \<Rightarrow> 'w world \<Rightarrow> unit result \<times> 'p server \<times> 'w world" where
  "delete_server N R sv w =
     (case server_close N sv w of (sv1, w1) \<Rightarrow>
      case delete_commanders R (sv_commanders sv1) of (r, dropped) \<Rightarrow>
        (r, sv1\<lparr>sv_commanders := map_empty, sv_dropped := sv_dropped sv1 @ dropped\<rparr>, w1))"

section \<open>What the table keeps\<close>

definition server_ok :: "'p server \<Rightarrow> bool" where
  "server_ok sv \<longleftrightarrow> map_ok (sv_commanders sv)"

lemma delete_disconnected:
  "\<not> cm_connected cm \<Longrightarrow> delete_commander R (cm, p) = (Inr (), (cm, snd (pr_close R p)))"
  by (simp add: delete_commander_def disconnect_def split: prod.split)

lemma erase_commander_ok: "server_ok sv \<Longrightarrow> server_ok (snd (erase_commander R name sv))"
  by (simp add: erase_commander_def server_ok_def std.ok_erase split: option.split prod.split)

lemma erase_commander_find:
  "server_ok sv \<Longrightarrow> map_find j (sv_commanders (snd (erase_commander R name sv)))
     = (if j = name then None else map_find j (sv_commanders sv))"
  by (auto simp: erase_commander_def server_ok_def std.find_erase split: option.split prod.split)

lemma accept_one_ok: "server_ok sv \<Longrightarrow> accept_one N R accepted sv w = (r, sv', w') \<Longrightarrow> server_ok sv'"
  using erase_commander_ok [of sv R]
  by (auto simp: accept_one_def Let_def std.ok_emplace server_ok_def
      split: sum.splits prod.splits dest!: arg_cong [where f = snd])

lemma get_commander_ok: "server_ok sv \<Longrightarrow> server_ok (snd (get_commander R client sv))"
  using erase_commander_ok [of sv R client]
  by (auto simp: get_commander_def split: option.split prod.split)

lemma put_commander_ok: "server_ok sv \<Longrightarrow> server_ok (put_commander client s sv)"
  by (simp add: put_commander_def server_ok_def std.ok_assign)

text \<open>The client gets the commander of its name, and only one that is connected.\<close>

lemma get_commander_cases:
  obtains (absent) "map_find client (sv_commanders sv) = None" "get_commander R client sv = (Inr None, sv)"
    | (lost) cm p where "map_find client (sv_commanders sv) = Some (cm, p)" "\<not> cm_connected cm"
      "get_commander R client sv = (Inr None, sv\<lparr>sv_commanders := map_erase client (sv_commanders sv),
         sv_dropped := sv_dropped sv @ [(cm, snd (pr_close R p))]\<rparr>)"
    | (found) cm p where "map_find client (sv_commanders sv) = Some (cm, p)" "cm_connected cm"
      "get_commander R client sv = (Inr (Some (cm, p)), sv)"
proof (cases "map_find client (sv_commanders sv)")
  case None
  then show thesis using absent by (simp add: get_commander_def)
next
  case (Some s)
  obtain cm p where s: "s = (cm, p)" by (rule prod.exhaust)
  show thesis
  proof (cases "cm_connected cm")
    case True
    with Some s show thesis using found by (simp add: get_commander_def is_connected_def)
  next
    case False
    with Some s show thesis
      using lost delete_disconnected [OF False, of R p]
      by (simp add: get_commander_def is_connected_def erase_commander_def)
  qed
qed

lemma get_clients_sorted:
  assumes "server_ok sv" shows "sorted_wrt (<) (get_clients sv)"
proof -
  have "sorted_wrt (<) (map fst (filter Q m))" if "map_ok m" for Q and m :: "(string, 'p session) std_map"
    using that by (auto simp: map_ok_def sorted_wrt_map intro: sorted_wrt_filter)
  with assms show ?thesis by (simp add: get_clients_def server_ok_def)
qed

lemma get_clients_iff:
  "server_ok sv \<Longrightarrow> client \<in> set (get_clients sv) \<longleftrightarrow>
     (\<exists>cm p. map_find client (sv_commanders sv) = Some (cm, p) \<and> cm_connected cm)"
  by (force simp: get_clients_def server_ok_def is_connected_def map_find_entry [symmetric])

lemma accept_one_served:
  assumes "server_ok sv" "tcp_accept N (sv_socket sv) w = (Inr (connection, ip, port), w1)"
    and "accept_one N R accepted sv w = (Inr u, sv', w')" "name = format_connection N ip port"
  obtains p where "map_find name (sv_commanders sv') = Some (new_commander, p)"
    "\<And>other. other \<noteq> name \<Longrightarrow> map_find other (sv_commanders sv') = map_find other (sv_commanders sv)"
proof -
  obtain sv1 p where erase: "erase_commander R name sv = (Inr (), sv1)"
    and sv': "sv' = sv1\<lparr>sv_commanders := map_emplace name (new_commander, p) (sv_commanders sv1)\<rparr>"
    using assms(2-4) by (auto simp: accept_one_def Let_def split: prod.splits sum.splits)
  have ok: "server_ok sv1" using erase_commander_ok [OF assms(1), of R name] erase by simp
  have find: "map_find j (sv_commanders sv1) = (if j = name then None else map_find j (sv_commanders sv))" for j
    using erase_commander_find [OF assms(1), of j R name] erase by simp
  have "map_find j (sv_commanders sv')
      = (if j = name then Some (new_commander, p) else map_find j (sv_commanders sv))" for j
    using ok find by (auto simp: sv' server_ok_def map_find_emplace)
  with that show thesis by simp
qed

text \<open>The worker that was accepted is served, and the commanders of the other hosts stay as they are.\<close>

lemma accepted_worker_is_served:
  assumes "server_ok sv" "tcp_accept N (sv_socket sv) w = (Inr (connection, ip, port), w1)"
    and "accept_one N R accepted sv w = (Inr u, sv', w')" "name = format_connection N ip port"
  shows "(\<exists>p. get_commander R name sv' = (Inr (Some (new_commander, p)), sv')) \<and> name \<in> set (get_clients sv')
    \<and> (\<forall>other. other = name \<or> map_find other (sv_commanders sv') = map_find other (sv_commanders sv))"
proof -
  obtain p where p: "map_find name (sv_commanders sv') = Some (new_commander, p)"
    "\<And>other. other \<noteq> name \<Longrightarrow> map_find other (sv_commanders sv') = map_find other (sv_commanders sv)"
    using accept_one_served [OF assms] by blast
  have "server_ok sv'" using accept_one_ok [OF assms(1,3)] .
  then show ?thesis
    using p get_clients_iff [of sv' name]
    by (auto simp: get_commander_def is_connected_def new_commander_def)
qed

end
