(* ===== verification/Decimal.thy ===== *)
theory Decimal
  imports Prelude
begin

text \<open>
  The decimal conversions of the C and C++ libraries the two programs use on their arguments:
  \<open>strtol\<close>, \<open>std::stoi\<close>, and that they undo \<open>std::to_string\<close>.
\<close>

text \<open>\<open>strtol(s, nullptr, 10)\<close>: white space, a sign, digits; out of range it saturates.\<close>

definition is_space :: "char \<Rightarrow> bool" where
  "is_space c \<longleftrightarrow> of_char c = (32 :: nat) \<or> (9 \<le> (of_char c :: nat) \<and> of_char c \<le> (13 :: nat))"

definition is_digit :: "char \<Rightarrow> bool" where
  "is_digit c \<longleftrightarrow> 48 \<le> (of_char c :: nat) \<and> of_char c \<le> (57 :: nat)"

definition digits_value :: "string \<Rightarrow> int" where
  "digits_value ds = foldl (\<lambda>v c. 10 * v + (int (of_char c) - 48)) 0 ds"

definition number_digits :: "string \<Rightarrow> string" where
  "number_digits s = takeWhile is_digit s"

definition strtol10 :: "string \<Rightarrow> int" where
  "strtol10 s =
     (let t = dropWhile is_space s;
          v = (case t of
                 [] \<Rightarrow> 0
               | c # u \<Rightarrow>
                   if c = CHR ''-'' then - digits_value (number_digits u)
                   else if c = CHR ''+'' then digits_value (number_digits u)
                   else digits_value (number_digits t))
      in max (- (2 ^ 63)) (min (2 ^ 63 - 1) v))"

text \<open>\<open>std::stoi(s)\<close>: at least one digit, and a value an \<open>int\<close> holds.\<close>

definition has_number :: "string \<Rightarrow> bool" where
  "has_number s =
     (case dropWhile is_space s of
        [] \<Rightarrow> False
      | c # u \<Rightarrow>
          is_digit c \<or> (c \<in> {CHR ''-'', CHR ''+''} \<and> (case u of [] \<Rightarrow> False | d # _ \<Rightarrow> is_digit d)))"

definition stoi :: "string \<Rightarrow> int result" where
  "stoi s =
     (let v = strtol10 s
      in if \<not> has_number s then Inl (InvalidArgument ''stoi'')
         else if v < - (2 ^ 31) \<or> 2 ^ 31 \<le> v then Inl (OutOfRange ''stoi'')
         else Inr v)"

section \<open>Reading back what \<open>to_string\<close> writes\<close>

lemma of_char_digit: "d < 10 \<Longrightarrow> of_char (digit_char d) = 48 + d"
proof -
  assume "d < 10"
  then have "(48 + d) mod 256 = 48 + d" by simp
  then show ?thesis by (simp add: digit_char_def)
qed

lemma is_digit_char: "d < 10 \<Longrightarrow> is_digit (digit_char d)"
  by (simp add: is_digit_def of_char_digit)

lemma digits_value_snoc: "digits_value (ds @ [c]) = 10 * digits_value ds + (int (of_char c) - 48)"
  by (simp add: digits_value_def)

lemma to_string_digits: "set (to_string n) \<subseteq> {c. is_digit c} \<and> to_string n \<noteq> []"
proof (induction n rule: to_string.induct)
  case (1 n)
  show ?case
  proof (cases "n < 10")
    case True
    then show ?thesis by (subst (1 2) to_string.simps) (simp add: is_digit_char)
  next
    case False
    with 1 show ?thesis by (subst (1 2) to_string.simps) (simp add: is_digit_char)
  qed
qed

lemma digits_value_to_string: "digits_value (to_string n) = int n"
proof (induction n rule: to_string.induct)
  case (1 n)
  show ?case
  proof (cases "n < 10")
    case True
    then show ?thesis by (subst to_string.simps) (simp add: digits_value_def of_char_digit)
  next
    case False
    with 1 have "digits_value (to_string n) = 10 * int (n div 10) + int (n mod 10)"
      by (subst to_string.simps) (simp add: digits_value_snoc of_char_digit)
    also have "\<dots> = int n" by presburger
    finally show ?thesis .
  qed
qed

lemma digit_not_special:
  "is_digit c \<Longrightarrow> \<not> is_space c \<and> c \<noteq> CHR ''-'' \<and> c \<noteq> CHR ''+'' \<and> c \<noteq> CHR 0x00"
  by (auto simp: is_digit_def is_space_def)

lemma strtol10_to_string: "int n < 2 ^ 63 \<Longrightarrow> strtol10 (to_string n) = int n"
proof -
  assume n: "int n < 2 ^ 63"
  obtain c ds where s: "to_string n = c # ds" "is_digit c"
    using to_string_digits [of n] by (cases "to_string n") auto
  have "number_digits (to_string n) = to_string n"
    using to_string_digits [of n] by (auto simp: number_digits_def takeWhile_eq_all_conv)
  then show ?thesis
    using n s digit_not_special [of c] digits_value_to_string [of n]
    by (simp add: strtol10_def Let_def)
qed

lemma to_string_no_nul: "c_str (to_string n) = to_string n"
  using to_string_digits [of n] digit_not_special by (intro c_str_id) blast

lemma stoi_to_string: "int n < 2 ^ 31 \<Longrightarrow> stoi (to_string n) = Inr (int n)"
proof -
  assume n: "int n < 2 ^ 31"
  obtain c ds where "to_string n = c # ds" "is_digit c"
    using to_string_digits [of n] by (cases "to_string n") auto
  then have "has_number (to_string n)" using digit_not_special [of c] by (simp add: has_number_def)
  with n show ?thesis by (simp add: stoi_def Let_def strtol10_to_string)
qed

end
