(* ===== verification/Zcfs.thy ===== *)
theory Zcfs
  imports Server Decimal
begin

text \<open>
  \<open>zcfs/main\<close>: the FUSE callbacks. A path \<open>/client/rest\<close> names the file \<open>/rest\<close> on the machine of
  \<open>client\<close>. Every callback finds the commander of the client, makes one remote call and turns the
  answer into a FUSE result; an exception becomes \<open>-EIO\<close>. The state is the \<open>server\<close> pointer; a
  callback that fills a structure takes it and returns it.
\<close>

type_synonym 'p zcfs = "'p server option"

section \<open>Options\<close>

definition parse_port :: "string option \<Rightarrow> u16 result" where
  "parse_port port_str =
     (case port_str of
        None \<Rightarrow> Inl (InvalidArgument ''Port string must not be null'')
      | Some s \<Rightarrow>
          let port = strtol10 (c_str s)
          in if port < 1 \<or> port > 65535 then Inl (RuntimeError ''Port must be between 1 and 65535'')
             else Inr (word_of_int port))"

record zcfs_options =
  opt_host :: string
  opt_port :: "string option"
  opt_show_help :: i32

text \<open>\<open>zcfs_init\<close>: the flag says whether \<open>fuse_exit\<close> was called.\<close>

definition zcfs_init ::
    "'w net \<Rightarrow> zcfs_options \<Rightarrow> 'p zcfs \<Rightarrow> 'w world \<Rightarrow> bool \<times> 'p zcfs \<times> 'w world" where
  "zcfs_init N opts server w =
     (case parse_port (opt_port opts) of
        Inl e \<Rightarrow> (True, server, w)
      | Inr port \<Rightarrow>
          (case server_new N (opt_host opts) port w of
             (Inl e, w1) \<Rightarrow> (True, server, w1)
           | (Inr sv, w1) \<Rightarrow> (False, Some sv, w1)))"

text \<open>\<open>zcfs_destroy\<close>; the last component is the server as its destructor leaves it.\<close>

definition zcfs_destroy ::
    "'w net \<Rightarrow> 'p peer \<Rightarrow> 'p zcfs \<Rightarrow> 'w world \<Rightarrow> unit result \<times> 'p zcfs \<times> 'p server option \<times> 'w world"
where
  "zcfs_destroy N R server w =
     (case server of
        None \<Rightarrow> (Inr (), None, None, w)
      | Some sv \<Rightarrow>
          (case server_close N sv w of (sv1, w1) \<Rightarrow>
           case delete_server N R sv1 w1 of (r, sv2, w2) \<Rightarrow> (r, None, Some sv2, w2)))"

section \<open>Paths\<close>

text \<open>\<open>strchr(path + 1, '/')\<close> as the characters before the slash and those from it on.\<close>

definition split_path :: "string \<Rightarrow> (string \<times> string) result" where
  "split_path path =
     (case path of
        [] \<Rightarrow> Inl (Undefined ''read past the end of a string'')
      | _ # rest \<Rightarrow>
          let client = takeWhile (\<lambda>c. c \<noteq> CHR ''/'') rest;
              remote_path = dropWhile (\<lambda>c. c \<noteq> CHR ''/'') rest
          in if remote_path = [] \<or> length remote_path = 1 then Inr (rest, ''/'')
             else Inr (client, remote_path))"

section \<open>What the callbacks share\<close>

text \<open>\<open>-worker_errno\<close>, whose negation of the least integer is undefined.\<close>

definition negated :: "i32 \<Rightarrow> i32 result" where
  "negated e = (if sint e = - (2 ^ 31) then Inl (Undefined ''signed overflow'') else Inr (- e))"

definition status_return :: "bool \<times> i32 \<Rightarrow> i32 result" where
  "status_return = (\<lambda>(result, worker_errno). if \<not> result then negated worker_errno else Inr 0)"

definition value_return :: "i32 \<times> i32 \<Rightarrow> i32 result" where
  "value_return = (\<lambda>(result, worker_errno). if result = -1 then negated worker_errno else Inr result)"

text \<open>\<open>END_ZCFS_ERROR_HANDLER(EIO)\<close>.\<close>

definition error_handler :: "i32 result \<Rightarrow> i32 result" where
  "error_handler r = (case r of Inl e \<Rightarrow> if uncaught e then Inl e else Inr (- EIO) | Inr v \<Rightarrow> Inr v)"

text \<open>
  Find the commander of the client, or return \<open>-absent\<close>; \<open>k\<close> is the rest of the callback, on the
  commander; \<open>out\<close> is what the callback fills.
\<close>

definition on_commander ::
    "'p peer \<Rightarrow> string \<Rightarrow> i32 \<Rightarrow> 'b \<Rightarrow> ('p session \<Rightarrow> (i32 result \<times> 'b) \<times> 'p session) \<Rightarrow> 'p zcfs
       \<Rightarrow> (i32 result \<times> 'b) \<times> 'p zcfs" where
  "on_commander R client absent out k server =
     (case server of
        None \<Rightarrow> ((Inl (Undefined ''null server''), out), None)
      | Some sv \<Rightarrow>
          (case get_commander R client sv of
             (Inl e, sv1) \<Rightarrow> ((error_handler (Inl e), out), Some sv1)
           | (Inr None, sv1) \<Rightarrow> ((Inr (- absent), out), Some sv1)
           | (Inr (Some s), sv1) \<Rightarrow>
               (case k s of ((r, out1), s1) \<Rightarrow>
                  ((error_handler r, out1), Some (put_commander client s1 sv1)))))"

definition on_path ::
    "'p peer \<Rightarrow> string \<Rightarrow> i32 \<Rightarrow> 'b \<Rightarrow> (string \<Rightarrow> 'p session \<Rightarrow> (i32 result \<times> 'b) \<times> 'p session)
       \<Rightarrow> 'p zcfs \<Rightarrow> (i32 result \<times> 'b) \<times> 'p zcfs" where
  "on_path R path absent out k server =
     (case split_path path of
        Inl e \<Rightarrow> ((error_handler (Inl e), out), server)
      | Inr (client, remote_path) \<Rightarrow> on_commander R client absent out (k remote_path) server)"

text \<open>The callbacks that fill nothing.\<close>

definition status_call ::
    "('p session \<Rightarrow> (bool \<times> i32) result \<times> 'p session) \<Rightarrow> 'p session \<Rightarrow> (i32 result \<times> unit) \<times> 'p session"
where
  "status_call call s = (case call s of (r, s1) \<Rightarrow> ((and_then r status_return, ()), s1))"

type_synonym 'p callback = "'p zcfs \<Rightarrow> (i32 result \<times> unit) \<times> 'p zcfs"

section \<open>The callbacks\<close>

abbreviation S_IFDIR_0755 :: u32 where "S_IFDIR_0755 \<equiv> 16877"

definition zero_stat :: stat where
  "zero_stat = \<lparr>st_mode = 0, st_nlink = 0, st_uid = 0, st_gid = 0, st_size = 0, st_atime = 0,
     st_mtime = 0, st_ctime = 0\<rparr>"

definition dir_stat :: stat where
  "dir_stat = zero_stat\<lparr>st_mode := S_IFDIR_0755, st_nlink := 2\<rparr>"

definition zcfs_getattr :: "'p peer \<Rightarrow> string \<Rightarrow> 'p zcfs \<Rightarrow> (i32 result \<times> stat) \<times> 'p zcfs" where
  "zcfs_getattr R path server =
     (if path = ''/'' then ((Inr 0, dir_stat), server)
      else on_path R path ENOENT zero_stat
        (\<lambda>remote_path s. case cmd_getattr R remote_path zero_stat s of ((r, stbuf), s1) \<Rightarrow>
           ((and_then r status_return, stbuf), s1)) server)"

definition zcfs_mkdir :: "'p peer \<Rightarrow> string \<Rightarrow> u32 \<Rightarrow> 'p callback" where
  "zcfs_mkdir R path mode =
     on_path R path ENOENT () (\<lambda>remote_path. status_call (cmd_mkdir R remote_path mode))"

definition zcfs_unlink :: "'p peer \<Rightarrow> string \<Rightarrow> 'p callback" where
  "zcfs_unlink R path =
     on_path R path ENOENT () (\<lambda>remote_path. status_call (cmd_unlink R remote_path))"

definition zcfs_rmdir :: "'p peer \<Rightarrow> string \<Rightarrow> 'p callback" where
  "zcfs_rmdir R path =
     on_path R path ENOENT () (\<lambda>remote_path. status_call (cmd_rmdir R remote_path))"

text \<open>The flags are narrowed to the \<open>uint8_t\<close> of the commander.\<close>

definition zcfs_rename :: "'p peer \<Rightarrow> string \<Rightarrow> string \<Rightarrow> u32 \<Rightarrow> 'p callback" where
  "zcfs_rename R old_path new_path flags server =
     (case split_path old_path of
        Inl e \<Rightarrow> ((error_handler (Inl e), ()), server)
      | Inr (old_client, old_remote_path) \<Rightarrow>
          (case split_path new_path of
             Inl e \<Rightarrow> ((error_handler (Inl e), ()), server)
           | Inr (new_client, new_remote_path) \<Rightarrow>
               if old_client \<noteq> new_client then ((Inr (- EXDEV), ()), server)
               else on_commander R old_client ENOENT ()
                 (status_call (cmd_rename R old_remote_path new_remote_path (ucast flags))) server))"

definition zcfs_chmod :: "'p peer \<Rightarrow> string \<Rightarrow> u32 \<Rightarrow> 'p callback" where
  "zcfs_chmod R path mode =
     on_path R path ENOENT () (\<lambda>remote_path. status_call (cmd_chmod R remote_path mode))"

definition zcfs_chown :: "'p peer \<Rightarrow> string \<Rightarrow> u32 \<Rightarrow> u32 \<Rightarrow> 'p callback" where
  "zcfs_chown R path owner grp =
     on_path R path ENOENT () (\<lambda>remote_path. status_call (cmd_chown R remote_path owner grp))"

definition zcfs_truncate :: "'p peer \<Rightarrow> string \<Rightarrow> i64 \<Rightarrow> 'p callback" where
  "zcfs_truncate R path len =
     on_path R path ENOENT () (\<lambda>remote_path. status_call (cmd_truncate R remote_path len))"

definition zcfs_access :: "'p peer \<Rightarrow> string \<Rightarrow> i32 \<Rightarrow> 'p callback" where
  "zcfs_access R path mode server =
     (if path = ''/'' then ((Inr 0, ()), server)
      else on_path R path ENOENT () (\<lambda>remote_path. status_call (cmd_access R remote_path mode)) server)"

definition zcfs_utimens :: "'p peer \<Rightarrow> string \<Rightarrow> timespec \<Rightarrow> timespec \<Rightarrow> 'p callback" where
  "zcfs_utimens R path time0 time1 =
     on_path R path ENOENT () (\<lambda>remote_path. status_call (cmd_utimens R remote_path time0 time1))"

section \<open>Open files\<close>

text \<open>
  \<open>fi->fh\<close> is an unsigned 64-bit number: the signed 32-bit id is widened into it and narrowed out
  of it.
\<close>

record fuse_file_info =
  fi_flags :: i32
  fi_fh :: u64

definition fh_of_id :: "i32 \<Rightarrow> u64" where
  "fh_of_id i = scast i"

definition id_of_fh :: "u64 \<Rightarrow> i32" where
  "id_of_fh fh = ucast fh"

text \<open>\<open>fi->fh = result\<close> unless the call failed.\<close>

definition open_return ::
    "fuse_file_info \<Rightarrow> (i32 \<times> i32) result \<Rightarrow> i32 result \<times> fuse_file_info" where
  "open_return fi r =
     try_in r fi (\<lambda>(result, worker_errno).
       if result = -1 then (negated worker_errno, fi)
       else (Inr 0, fi\<lparr>fi_fh := fh_of_id result\<rparr>))"

definition zcfs_open ::
    "'p peer \<Rightarrow> string \<Rightarrow> fuse_file_info \<Rightarrow> 'p zcfs \<Rightarrow> (i32 result \<times> fuse_file_info) \<times> 'p zcfs" where
  "zcfs_open R path fi server =
     (if path = ''/'' then ((Inr (- EISDIR), fi), server)
      else on_path R path ENOENT fi
        (\<lambda>remote_path s. case cmd_open R remote_path (fi_flags fi) DEFFILEMODE s of (r, s1) \<Rightarrow>
           (open_return fi r, s1)) server)"

definition zcfs_create ::
    "'p peer \<Rightarrow> string \<Rightarrow> u32 \<Rightarrow> fuse_file_info \<Rightarrow> 'p zcfs \<Rightarrow> (i32 result \<times> fuse_file_info) \<times> 'p zcfs"
where
  "zcfs_create R path mode fi server =
     (if path = ''/'' then ((Inr (- EISDIR), fi), server)
      else on_path R path ENOENT fi
        (\<lambda>remote_path s. case cmd_open R remote_path (fi_flags fi) mode s of (r, s1) \<Rightarrow>
           (open_return fi r, s1)) server)"

text \<open>The size is narrowed to the \<open>uint32_t\<close> of the commander.\<close>

definition zcfs_read ::
    "'p peer \<Rightarrow> string \<Rightarrow> u8 list \<Rightarrow> u64 \<Rightarrow> i64 \<Rightarrow> fuse_file_info \<Rightarrow> 'p zcfs
       \<Rightarrow> (i32 result \<times> u8 list) \<times> 'p zcfs" where
  "zcfs_read R path buf len offset fi =
     on_path R path EIO buf
       (\<lambda>remote_path s. case cmd_pread R (id_of_fh (fi_fh fi)) buf (ucast len) offset s of
          ((r, buf1), s1) \<Rightarrow> ((and_then r value_return, buf1), s1))"

definition zcfs_write ::
    "'p peer \<Rightarrow> string \<Rightarrow> u8 list \<Rightarrow> u64 \<Rightarrow> i64 \<Rightarrow> fuse_file_info \<Rightarrow> 'p callback" where
  "zcfs_write R path buf len offset fi =
     on_path R path EIO ()
       (\<lambda>remote_path s. case cmd_pwrite R (id_of_fh (fi_fh fi)) buf (ucast len) offset s of
          (r, s1) \<Rightarrow> ((and_then r value_return, ()), s1))"

definition zcfs_release :: "'p peer \<Rightarrow> string \<Rightarrow> fuse_file_info \<Rightarrow> 'p callback" where
  "zcfs_release R path fi =
     on_path R path ENOENT () (\<lambda>remote_path. status_call (cmd_close R (id_of_fh (fi_fh fi))))"

section \<open>File systems\<close>

text \<open>\<open>ST_NOATIME | ST_NODIRATIME | ST_NOSUID\<close>.\<close>

abbreviation mount_flags :: u64 where "mount_flags \<equiv> 1024 OR 2048 OR 2"

definition zero_statvfs :: statvfs where
  "zero_statvfs = \<lparr>f_bsize = 0, f_frsize = 0, f_blocks = 0, f_bfree = 0, f_bavail = 0, f_files = 0,
     f_ffree = 0, f_favail = 0, f_fsid = 0, f_flag = 0, f_namemax = 0\<rparr>"

definition zcfs_statfs :: "'p peer \<Rightarrow> string \<Rightarrow> 'p zcfs \<Rightarrow> (i32 result \<times> statvfs) \<times> 'p zcfs" where
  "zcfs_statfs R path server =
     (if path = ''/'' then ((Inr 0, zero_statvfs\<lparr>f_flag := mount_flags\<rparr>), server)
      else on_path R path ENOENT zero_statvfs
        (\<lambda>remote_path s. case cmd_statvfs R remote_path zero_statvfs s of ((r, stbuf), s1) \<Rightarrow>
           (try_in r stbuf (\<lambda>(result, worker_errno).
              if \<not> result then (negated worker_errno, stbuf)
              else (Inr 0, stbuf\<lparr>f_flag := f_flag stbuf OR mount_flags\<rparr>)), s1)) server)"

section \<open>Directories\<close>

abbreviation VirtualRootDirFd :: u64 where "VirtualRootDirFd \<equiv> -1"
abbreviation MaxDirsReadPerCall :: u32 where "MaxDirsReadPerCall \<equiv> 2048"

definition zcfs_opendir ::
    "'p peer \<Rightarrow> string \<Rightarrow> fuse_file_info \<Rightarrow> 'p zcfs \<Rightarrow> (i32 result \<times> fuse_file_info) \<times> 'p zcfs" where
  "zcfs_opendir R path fi server =
     (if path = ''/'' then ((Inr 0, fi\<lparr>fi_fh := VirtualRootDirFd\<rparr>), server)
      else on_path R path ENOENT fi
        (\<lambda>remote_path s. case cmd_opendir R remote_path s of (r, s1) \<Rightarrow> (open_return fi r, s1)) server)"

definition zcfs_releasedir :: "'p peer \<Rightarrow> string \<Rightarrow> fuse_file_info \<Rightarrow> 'p callback" where
  "zcfs_releasedir R path fi server =
     (if fi_fh fi = VirtualRootDirFd then ((Inr 0, ()), server)
      else on_path R path ENOENT ()
        (\<lambda>remote_path. status_call (cmd_closedir R (id_of_fh (fi_fh fi)))) server)"

text \<open>\<open>filler\<close>: the buffer it adds to, and whether it was full.\<close>

type_synonym 'b filler = "'b \<Rightarrow> string \<Rightarrow> stat \<Rightarrow> bool \<times> 'b"

fun fill_entries :: "'b filler \<Rightarrow> dir_entry list \<Rightarrow> 'b \<Rightarrow> 'b" where
  "fill_entries filler [] buf = buf"
| "fill_entries filler (e # es) buf =
     (case filler buf (c_str (entry_name e)) (zero_stat\<lparr>st_mode := push_bit 12 (ucast (entry_type e))\<rparr>) of
        (full, buf1) \<Rightarrow> if full then buf1 else fill_entries filler es buf1)"

text \<open>
  The loop of \<open>readdir\<close>. A worker that goes on sending full batches keeps it going, so it is a
  partial function: \<open>None\<close> is a call that does not return.
\<close>

partial_function (option) readdir_batches ::
    "'p peer \<Rightarrow> 'b filler \<Rightarrow> i32 \<Rightarrow> 'b \<Rightarrow> 'p session \<Rightarrow> ((i32 result \<times> 'b) \<times> 'p session) option"
where
  [code]: "readdir_batches R filler fd buf s =
     (case cmd_readdir R fd MaxDirsReadPerCall s of
        (Inl e, s1) \<Rightarrow> Some ((Inl e, buf), s1)
      | (Inr (dirs, worker_errno), s1) \<Rightarrow>
          if worker_errno \<noteq> 0 then Some ((negated worker_errno, buf), s1)
          else
            let buf1 = fill_entries filler dirs buf
            in if length dirs = 2048 then readdir_batches R filler fd buf1 s1
               else Some ((Inr 0, buf1), s1))"

definition root_entries :: "'p server \<Rightarrow> string list" where
  "root_entries sv = ''.'' # ''..'' # map c_str (get_clients sv)"

definition zcfs_readdir ::
    "'p peer \<Rightarrow> 'b filler \<Rightarrow> string \<Rightarrow> 'b \<Rightarrow> fuse_file_info \<Rightarrow> 'p zcfs
       \<Rightarrow> ((i32 result \<times> 'b) \<times> 'p zcfs) option" where
  "zcfs_readdir R filler path buf fi server =
     (if fi_fh fi = VirtualRootDirFd then
        (case server of
           None \<Rightarrow> Some ((Inl (Undefined ''null server''), buf), None)
         | Some sv \<Rightarrow>
             Some ((Inr 0, foldl (\<lambda>b name. snd (filler b name dir_stat)) buf (root_entries sv)), server))
      else
        (case split_path path of
           Inl e \<Rightarrow> Some ((error_handler (Inl e), buf), server)
         | Inr (client, remote_path) \<Rightarrow>
             (case server of
                None \<Rightarrow> Some ((Inl (Undefined ''null server''), buf), None)
              | Some sv \<Rightarrow>
                  (case get_commander R client sv of
                     (Inl e, sv1) \<Rightarrow> Some ((error_handler (Inl e), buf), Some sv1)
                   | (Inr None, sv1) \<Rightarrow> Some ((Inr (- EIO), buf), Some sv1)
                   | (Inr (Some s), sv1) \<Rightarrow>
                       (case readdir_batches R filler (id_of_fh (fi_fh fi)) buf s of
                          None \<Rightarrow> None
                        | Some ((r, buf1), s1) \<Rightarrow>
                            Some ((error_handler r, buf1), Some (put_commander client s1 sv1)))))))"

section \<open>Options, paths and handles\<close>

lemma parse_port_in_range: "parse_port s = Inr p \<Longrightarrow> 1 \<le> unat p"
proof -
  assume "parse_port s = Inr p"
  then have "\<exists>v. 1 \<le> v \<and> v \<le> 65535 \<and> p = word_of_int v"
    by (auto simp: parse_port_def Let_def not_less split: option.splits if_splits)
  then obtain v :: int where v: "1 \<le> v" "v \<le> 65535" "p = word_of_int v" by blast
  then have "uint p = v" by (simp add: uint_word_of_int)
  with v show "1 \<le> unat p" by (simp add: unat_eq_nat_uint nat_le_iff)
qed

lemma parse_port_to_string: "0 < p \<Longrightarrow> parse_port (Some (to_string (unat p))) = Inr p"
proof -
  assume "0 < p"
  then have "0 < unat p" by (simp add: word_less_nat_alt)
  moreover have "unat p < 65536" using unsigned_less [of p, where 'a = nat] by simp
  moreover have "word_of_int (int (unat p)) = p" by simp
  ultimately show ?thesis
    by (simp add: parse_port_def Let_def to_string_no_nul strtol10_to_string del: of_nat_unat)
qed

lemma split_at_slash:
  "CHR ''/'' \<notin> set client \<Longrightarrow>
   takeWhile (\<lambda>c. c \<noteq> CHR ''/'') (client @ CHR ''/'' # rest) = client
   \<and> dropWhile (\<lambda>c. c \<noteq> CHR ''/'') (client @ CHR ''/'' # rest) = CHR ''/'' # rest"
  by (induction client) auto

lemma split_path_file:
  "CHR ''/'' \<notin> set client \<Longrightarrow> rest \<noteq> [] \<Longrightarrow>
   split_path (CHR ''/'' # client @ CHR ''/'' # rest) = Inr (client, CHR ''/'' # rest)"
  using split_at_slash [of client rest] by (simp add: split_path_def Let_def)

lemma split_path_client:
  "CHR ''/'' \<notin> set client \<Longrightarrow> split_path (CHR ''/'' # client) = Inr (client, ''/'')"
  by (auto simp: split_path_def Let_def dropWhile_eq_Nil_conv)

text \<open>A trailing slash stays in the name of the client.\<close>

lemma split_path_trailing:
  "CHR ''/'' \<notin> set client \<Longrightarrow>
   split_path (CHR ''/'' # client @ ''/'') = Inr (client @ ''/'', ''/'')"
  using split_at_slash [of client "[]"] by (simp add: split_path_def Let_def)

lemma id_of_fh_of_id [simp]: "id_of_fh (fh_of_id i) = i"
  unfolding id_of_fh_def fh_of_id_def
  by (rule bit_word_eqI) (auto simp: bit_simps)

lemma fh_of_id_root: "fh_of_id i = VirtualRootDirFd \<longleftrightarrow> i = -1"
proof
  assume "fh_of_id i = VirtualRootDirFd"
  then have "id_of_fh (fh_of_id i) = id_of_fh VirtualRootDirFd" by simp
  moreover have "id_of_fh VirtualRootDirFd = -1"
    unfolding id_of_fh_def by (rule bit_word_eqI) (simp add: bit_simps)
  ultimately show "i = -1" by simp
qed (simp add: fh_of_id_def)

text \<open>A result below zero is the only one an exception or an \<open>errno\<close> leads to.\<close>

lemma error_handler_caught: "\<not> uncaught e \<Longrightarrow> error_handler (Inl e) = Inr (- EIO)"
  by (simp add: error_handler_def)

lemma on_commander_found:
  "map_find client (sv_commanders sv) = Some (cm, p) \<Longrightarrow> cm_connected cm \<Longrightarrow>
   k (cm, p) = ((r, out1), s1) \<Longrightarrow>
   on_commander R client absent out k (Some sv)
     = ((error_handler r, out1), Some (put_commander client s1 sv))"
  by (simp add: on_commander_def get_commander_def is_connected_def)

lemma on_commander_absent:
  "map_find client (sv_commanders sv) = None \<Longrightarrow>
   on_commander R client absent out k (Some sv) = ((Inr (- absent), out), Some sv)"
  by (simp add: on_commander_def get_commander_def)

definition never_full :: "'b filler \<Rightarrow> bool" where
  "never_full filler \<longleftrightarrow> (\<forall>b name st. \<not> fst (filler b name st))"

lemma fill_entries_all:
  "never_full filler \<Longrightarrow>
   fill_entries filler (xs @ ys) b = fill_entries filler ys (fill_entries filler xs b)"
  by (induction xs arbitrary: b) (simp_all add: split_beta never_full_def)

text \<open>
  What \<open>opendir\<close> stores in the handle when it returns 0: the id of the worker, never the handle of the
  virtual root. It stores nothing when the worker reports a failure without an \<open>errno\<close>.
\<close>

lemma open_return_handle:
  "snd (open_return fi r) = fi \<or> (\<exists>i. i \<noteq> -1 \<and> snd (open_return fi r) = fi\<lparr>fi_fh := fh_of_id i\<rparr>)"
proof (cases r)
  case (Inr v)
  then show ?thesis
    by (cases "fst v = -1") (auto simp: open_return_def split_beta)
qed (simp add: open_return_def)

lemma opendir_handle:
  assumes "zcfs_opendir R path fi server = ((Inr 0, fi'), server')" "path \<noteq> ''/''"
  shows "fi' = fi \<or> (\<exists>i. i \<noteq> -1 \<and> fi' = fi\<lparr>fi_fh := fh_of_id i\<rparr>)"
proof -
  have "fi' = fi \<or> (\<exists>r. fi' = snd (open_return fi r))"
    using assms unfolding zcfs_opendir_def on_path_def on_commander_def
    by (auto split: sum.splits option.splits prod.splits) (metis snd_conv)+
  then show ?thesis using open_return_handle by metis
qed

section \<open>Properties\<close>

text \<open>
  C36. A path put together from the name of a client and a path on it is taken apart again; a bare client is
  its root. With a slash after a bare client the name keeps the slash, so that client is not found.
\<close>

theorem paths_split_at_the_client:
  assumes "CHR ''/'' \<notin> set client" "rest \<noteq> []"
  shows "split_path (CHR ''/'' # client @ CHR ''/'' # rest) = Inr (client, CHR ''/'' # rest)
    \<and> split_path (CHR ''/'' # client) = Inr (client, ''/'')
    \<and> split_path (CHR ''/'' # client @ ''/'') = Inr (client @ ''/'', ''/'')"
  by (intro conjI split_path_file split_path_client split_path_trailing assms)

theorem paths_split_at_the_client_witness:
  "split_path ''/h/etc/passwd'' = Inr (''h'', ''/etc/passwd'') \<and> split_path ''/h/'' = Inr (''h/'', ''/'')"
  using paths_split_at_the_client [of "''h''" "''etc/passwd''"] by simp

end
