(* ===== verification/End_To_End.thy ===== *)
theory End_To_End
  imports Rpc Zcfs
begin

text \<open>
  The file system on top of a worker: a FUSE callback on \<open>/client/path\<close> does what the system call
  does with \<open>/path\<close> on the client's machine. \<open>mounted\<close> is the state between two callbacks: the
  client is in the table of the server, connected, with no request under way.
\<close>

definition mounted :: "string \<Rightarrow> commander \<Rightarrow> 'w remote \<Rightarrow> 'w remote server \<Rightarrow> bool" where
  "mounted client cm p sv \<longleftrightarrow>
     map_find client (sv_commanders sv) = Some (cm, p) \<and> idle cm \<and> rm_inbox p = []"

text \<open>
  What a callback leaves: its result and its structure, and the server with the client's machine in
  the state the system call left.
\<close>

definition returns ::
    "((i32 result \<times> 'b) \<times> 'w remote zcfs) \<Rightarrow> i32 result \<Rightarrow> 'b \<Rightarrow> string \<Rightarrow> 'w remote server
       \<Rightarrow> 'w remote \<Rightarrow> bool" where
  "returns run r out client sv p' \<longleftrightarrow>
     (\<exists>cm'. idle cm' \<and> run = ((error_handler r, out), Some (put_commander client (cm', p') sv)))"

lemma mounted_put:
  "idle cm' \<Longrightarrow> rm_inbox p' = [] \<Longrightarrow> mounted client cm' p' (put_commander client (cm', p') sv)"
  by (simp add: mounted_def put_commander_def map_find_assign)

lemma mounted_idle: "mounted client cm p sv \<Longrightarrow> idle cm" "mounted client cm p sv \<Longrightarrow> rm_inbox p = []"
  by (simp_all add: mounted_def)

lemma mounted_call:
  assumes "mounted client cm p sv" "split_path path = Inr (client, remote_path)"
    and "k remote_path (cm, p) = ((r, out1), (cm', p'))" "idle cm'"
  shows "returns (on_path R path absent out k (Some sv)) r out1 client sv p'"
  using assms on_commander_found [of client sv cm p "k remote_path" r out1 "(cm', p')"]
  by (auto simp: on_path_def returns_def mounted_def idle_def)

lemma mounted_status:
  assumes "mounted client cm p sv" "split_path path = Inr (client, remote_path)"
    and "completes (call remote_path (cm, p)) (Inr (ok, e)) p'"
  shows "returns (on_path R path absent () (\<lambda>remote_path. status_call (call remote_path)) (Some sv))
    (status_return (ok, e)) () client sv p'"
proof -
  obtain cm' where "call remote_path (cm, p) = (Inr (ok, e), (cm', p'))" "idle cm'"
    using assms(3) by (auto simp: completes_def)
  then show ?thesis
    by (intro mounted_call [OF assms(1,2)]) (simp_all add: status_call_def)
qed

section \<open>Attributes, reading, writing\<close>

lemma zcfs_getattr_remote:
  assumes m: "mounted client cm p sv" "split_path path = Inr (client, remote_path)"
    and path: "path \<noteq> ''/''" "path_fits remote_path"
    and run: "px_stat P (c_str remote_path) (px_stack_stat P (rm_world p)) (rm_world p) = ((r, st), w)"
  shows "returns (zcfs_getattr (worker_peer P android) path (Some sv))
    (if r = 0 then Inr 0 else negated (errno w)) (if r = 0 then copy_stat st zero_stat else zero_stat)
    client sv (p\<lparr>rm_world := w\<rparr>)"
proof -
  obtain cm' where "cmd_getattr (worker_peer P android) remote_path zero_stat (cm, p)
      = ((Inr (r = 0, errno w), if r = 0 then copy_stat st zero_stat else zero_stat), (cm', p\<lparr>rm_world := w\<rparr>))"
    "idle cm'"
    using getattr_remote [OF mounted_idle [OF m(1)] path(2) run] by (auto simp: completes_def)
  then show ?thesis
    unfolding zcfs_getattr_def if_not_P [OF path(1)]
    by (intro mounted_call [OF m]) (auto simp: status_return_def)
qed

lemma read_return:
  assumes "read_behaves len result buffer" "unat len < 2 ^ 31"
  shows "value_return (ucast result, e)
    = (if sint result = -1 then negated e else Inr (ucast result))"
proof -
  have "(ucast result :: i32) = -1 \<longleftrightarrow> sint result = -1"
    using narrow_result(1) [OF assms] sint_inject [of "ucast result :: i32" "-1"] by simp
  then show ?thesis by (simp add: value_return_def)
qed

lemma zcfs_read_remote:
  assumes m: "mounted client cm p sv" "split_path path = Inr (client, remote_path)"
    and behaves: "read_behaves (ucast len) result buffer"
    and len: "unat (ucast len :: u32) < 2 ^ 31" "unat (ucast len :: u32) \<le> length buf"
    and run: "px_pread P (fh_get_fd (id_of_fh (fi_fh fi)) (wk_file_handler (rm_worker p)))
        (replicate (unat (ucast len :: u32)) 0) offset (rm_world p) = ((result, buffer), w)"
  shows "returns (zcfs_read (worker_peer P android) path buf len offset fi (Some sv))
    (if sint result = -1 then negated (errno w) else Inr (ucast result)) (fill result buffer buf)
    client sv (p\<lparr>rm_world := w\<rparr>)"
proof -
  obtain cm' where "cmd_pread (worker_peer P android) (id_of_fh (fi_fh fi)) buf (ucast len) offset (cm, p)
      = ((Inr (ucast result, errno w), fill result buffer buf), (cm', p\<lparr>rm_world := w\<rparr>))" "idle cm'"
    using read_remote(2) [OF mounted_idle [OF m(1)] behaves len run] by (auto simp: completes_def)
  then show ?thesis
    unfolding zcfs_read_def
    by (intro mounted_call [OF m]) (simp_all add: read_return [OF behaves len(1)])
qed

lemma zcfs_write_remote:
  assumes m: "mounted client cm p sv" "split_path path = Inr (client, remote_path)"
    and len: "unat (ucast len :: u32) < 2 ^ 31" "unat (ucast len :: u32) \<le> length buf"
    and run: "px_pwrite P (fh_get_fd (id_of_fh (fi_fh fi)) (wk_file_handler (rm_worker p)))
        (take (unat (ucast len :: u32)) buf) offset (rm_world p) = (result, w)"
  shows "returns (zcfs_write (worker_peer P android) path buf len offset fi (Some sv))
    (value_return (ucast result, errno w)) () client sv (p\<lparr>rm_world := w\<rparr>)"
proof -
  obtain cm' where "cmd_pwrite (worker_peer P android) (id_of_fh (fi_fh fi)) buf (ucast len) offset (cm, p)
      = (Inr (ucast result, errno w), (cm', p\<lparr>rm_world := w\<rparr>))" "idle cm'"
    using write_remote(2) [OF mounted_idle [OF m(1)] len run] by (auto simp: completes_def)
  then show ?thesis unfolding zcfs_write_def by (intro mounted_call [OF m]) simp_all
qed

section \<open>Listing a directory\<close>

lemma entry_bytes_bound:
  "\<forall>e \<in> set es. length (d_name e) \<le> 255 \<Longrightarrow> length (entries_bytes es) \<le> 264 * length es"
proof (induction es)
  case (Cons e es)
  have "length (c_str (d_name e)) \<le> length (d_name e)" by (simp add: c_str_def length_takeWhile_le)
  with Cons show ?case by (auto simp: entry_bytes_def)
qed simp

text \<open>A buffer that is never full takes every entry, batch after batch.\<close>

lemma readdir_batches_all:
  assumes dir: "dh_lookup_overridden i (wk_dir_handler wk) = None"
      "dh_lookup i (wk_dir_handler wk) = Some fd" "fd \<noteq> nullptr"
    and filler: "never_full filler"
  shows "idle cm \<Longrightarrow> rm_inbox p = [] \<Longrightarrow> rm_worker p = wk \<Longrightarrow> listing P fd es (rm_world p) w \<Longrightarrow>
    errno w = 0 \<Longrightarrow> \<forall>e \<in> set es. length (d_name e) \<le> 255 \<Longrightarrow>
    \<exists>cm'. idle cm' \<and> readdir_batches (worker_peer P android) filler i buf (cm, p)
      = Some ((Inr 0, fill_entries filler (map entry_of es) buf), (cm', p\<lparr>rm_world := w\<rparr>))"
proof (induction "length es" arbitrary: es cm p buf rule: less_induct)
  case less
  note idle = less.prems(1,2)
  have dir': "dh_lookup_overridden i (wk_dir_handler (rm_worker p)) = None"
    "dh_lookup i (wk_dir_handler (rm_worker p)) = Some fd" using dir less.prems(3) by simp_all
  show ?case
  proof (cases "length es < 2048")
    case True
    then have "length (entries_bytes es) < 2 ^ 31"
      using entry_bytes_bound [OF less.prems(6)] by simp
    then obtain cm' where "cmd_readdir (worker_peer P android) i MaxDirsReadPerCall (cm, p)
        = (Inr (map entry_of es, errno w), (cm', p\<lparr>rm_world := w\<rparr>))" "idle cm'"
      using readdir_remote [OF idle dir' dir(3), of es P w MaxDirsReadPerCall android] True less.prems(4)
      by (auto simp: completes_def)
    with True less.prems(5) show ?thesis
      by (subst readdir_batches.simps) (simp add: Let_def)
  next
    case False
    let ?xs = "take 2048 es" and ?ys = "drop 2048 es"
    obtain w1 where xs: "entries_read P fd ?xs (rm_world p) w1" and ys: "listing P fd ?ys w1 w"
      using less.prems(4) entries_read_append [of P fd ?xs ?ys] by (auto simp: listing_def)
    have n: "length ?xs = 2048" and names: "\<forall>e \<in> set ?xs. length (d_name e) \<le> 255"
      "\<forall>e \<in> set ?ys. length (d_name e) \<le> 255"
      using False less.prems(6) by (auto dest: in_set_takeD in_set_dropD)
    have "length (entries_bytes ?xs) < 2 ^ 31"
      using entry_bytes_bound [OF names(1)] n by simp
    moreover have "errno w1 = 0" using entries_read_errno [OF xs] n by force
    ultimately obtain cm1 where step: "cmd_readdir (worker_peer P android) i MaxDirsReadPerCall (cm, p)
        = (Inr (map entry_of ?xs, 0), (cm1, p\<lparr>rm_world := w1\<rparr>))" "idle cm1"
      using readdir_remote [OF idle dir' dir(3), of ?xs P w1 MaxDirsReadPerCall android] n xs
      by (auto simp: completes_def)
    have "length ?ys < length es" using False by simp
    from less.hyps [OF this, of cm1 "p\<lparr>rm_world := w1\<rparr>" "fill_entries filler (map entry_of ?xs) buf"]
    obtain cm' where "idle cm'" "readdir_batches (worker_peer P android) filler i
        (fill_entries filler (map entry_of ?xs) buf) (cm1, p\<lparr>rm_world := w1\<rparr>)
      = Some ((Inr 0, fill_entries filler (map entry_of ?ys) (fill_entries filler (map entry_of ?xs) buf)),
          (cm', p\<lparr>rm_world := w\<rparr>))"
      using step(2) ys names(2) less.prems by auto
    moreover have "map entry_of es = map entry_of ?xs @ map entry_of ?ys"
      by (simp flip: map_append)
    ultimately show ?thesis
      using step n fill_entries_all [OF filler]
      by (subst readdir_batches.simps) (simp add: Let_def)
  qed
qed

lemma zcfs_readdir_remote:
  assumes m: "mounted client cm p sv" "split_path path = Inr (client, remote_path)"
    and fh: "fi_fh fi \<noteq> VirtualRootDirFd"
    and dir: "dh_lookup_overridden (id_of_fh (fi_fh fi)) (wk_dir_handler (rm_worker p)) = None"
      "dh_lookup (id_of_fh (fi_fh fi)) (wk_dir_handler (rm_worker p)) = Some fd" "fd \<noteq> nullptr"
    and filler: "never_full filler"
    and entries: "listing P fd es (rm_world p) w" "errno w = 0"
      "\<forall>e \<in> set es. length (d_name e) \<le> 255"
  shows "\<exists>run. zcfs_readdir (worker_peer P android) filler path buf fi (Some sv) = Some run
    \<and> returns run (Inr 0) (fill_entries filler (map entry_of es) buf) client sv (p\<lparr>rm_world := w\<rparr>)"
proof -
  obtain cm' where "idle cm'" "readdir_batches (worker_peer P android) filler (id_of_fh (fi_fh fi)) buf (cm, p)
      = Some ((Inr 0, fill_entries filler (map entry_of es) buf), (cm', p\<lparr>rm_world := w\<rparr>))"
    using readdir_batches_all [OF dir filler mounted_idle [OF m(1)] refl entries] by blast
  with m fh show ?thesis
    by (auto simp: zcfs_readdir_def get_commander_def is_connected_def returns_def mounted_def idle_def
        error_handler_def)
qed

section \<open>Operations on paths\<close>

text \<open>
  \<open>does f run\<close>: the callback makes the call \<open>f\<close> on the client's machine, once, and returns 0 or the
  negated \<open>errno\<close> of it.
\<close>

definition does ::
    "(i32, 'w) call \<Rightarrow> ((i32 result \<times> unit) \<times> 'w remote zcfs) \<Rightarrow> string \<Rightarrow> 'w remote server \<Rightarrow> 'w remote \<Rightarrow> bool"
where
  "does f run client sv p \<longleftrightarrow>
     (case f (rm_world p) of (value, w) \<Rightarrow>
        returns run (status_return (value = 0, errno w)) () client sv (p\<lparr>rm_world := w\<rparr>))"

lemma doesI:
  assumes "mounted client cm p sv" "split_path path = Inr (client, remote_path)"
    and "\<And>value w. f (rm_world p) = (value, w) \<Longrightarrow>
      completes (call remote_path (cm, p)) (Inr (value = 0, errno w)) (p\<lparr>rm_world := w\<rparr>)"
  shows "does f (on_path R path absent () (\<lambda>remote_path. status_call (call remote_path)) (Some sv)) client sv p"
  unfolding does_def by (auto split: prod.split intro!: mounted_status [OF assms(1,2)] assms(3))

lemma path_callbacks_remote:
  assumes m: "mounted client cm p sv" "split_path path = Inr (client, remote_path)"
    and fits: "path_fits remote_path"
  shows "does (px_mkdir P (c_str remote_path) mode) (zcfs_mkdir (worker_peer P android) path mode (Some sv))
      client sv p"
    and "does (px_unlink P (c_str remote_path)) (zcfs_unlink (worker_peer P android) path (Some sv)) client sv p"
    and "does (px_rmdir P (c_str remote_path)) (zcfs_rmdir (worker_peer P android) path (Some sv)) client sv p"
    and "does (px_chmod P (c_str remote_path) mode) (zcfs_chmod (worker_peer P android) path mode (Some sv))
      client sv p"
    and "does (px_chown P (c_str remote_path) owner grp)
      (zcfs_chown (worker_peer P android) path owner grp (Some sv)) client sv p"
    and "does (px_truncate P (c_str remote_path) len)
      (zcfs_truncate (worker_peer P android) path len (Some sv)) client sv p"
    and "path \<noteq> ''/'' \<Longrightarrow> does (px_access P (c_str remote_path) amode)
      (zcfs_access (worker_peer P android) path amode (Some sv)) client sv p"
    and "does (px_utimensat P (c_str remote_path) \<lparr>tv_sec = tv_sec t0, tv_nsec = 0\<rparr>
        \<lparr>tv_sec = tv_sec t1, tv_nsec = 0\<rparr>)
      (zcfs_utimens (worker_peer P android) path t0 t1 (Some sv)) client sv p"
proof -
  note remote = path_remote [OF mounted_idle [OF m(1)] fits]
  note callbacks = zcfs_mkdir_def zcfs_unlink_def zcfs_rmdir_def zcfs_chmod_def zcfs_chown_def
    zcfs_truncate_def zcfs_utimens_def
  show "does (px_mkdir P (c_str remote_path) mode) (zcfs_mkdir (worker_peer P android) path mode (Some sv))
      client sv p"
    and "does (px_unlink P (c_str remote_path)) (zcfs_unlink (worker_peer P android) path (Some sv)) client sv p"
    and "does (px_rmdir P (c_str remote_path)) (zcfs_rmdir (worker_peer P android) path (Some sv)) client sv p"
    and "does (px_chmod P (c_str remote_path) mode) (zcfs_chmod (worker_peer P android) path mode (Some sv))
      client sv p"
    and "does (px_chown P (c_str remote_path) owner grp)
      (zcfs_chown (worker_peer P android) path owner grp (Some sv)) client sv p"
    and "does (px_truncate P (c_str remote_path) len)
      (zcfs_truncate (worker_peer P android) path len (Some sv)) client sv p"
    and "does (px_utimensat P (c_str remote_path) \<lparr>tv_sec = tv_sec t0, tv_nsec = 0\<rparr>
        \<lparr>tv_sec = tv_sec t1, tv_nsec = 0\<rparr>)
      (zcfs_utimens (worker_peer P android) path t0 t1 (Some sv)) client sv p"
    unfolding callbacks by (rule doesI [OF m], rule remote, assumption)+
  assume "path \<noteq> ''/''"
  then show "does (px_access P (c_str remote_path) amode)
      (zcfs_access (worker_peer P android) path amode (Some sv)) client sv p"
    unfolding zcfs_access_def by (simp only: if_False) (rule doesI [OF m], rule remote, assumption)
qed

lemma zcfs_rename_remote:
  assumes m: "mounted client cm p sv" "split_path old_path = Inr (client, old_remote)"
      "split_path new_path = Inr (client, new_remote)"
    and fits: "path_fits old_remote" "length new_remote < 2 ^ 30"
  shows "does (rename_result P old_remote new_remote (ucast flags))
    (zcfs_rename (worker_peer P android) old_path new_path flags (Some sv)) client sv p"
proof (cases "rename_result P old_remote new_remote (ucast flags) (rm_world p)")
  case (Pair v w)
  from rename_remote [OF mounted_idle [OF m(1)] fits Pair] obtain cm' where
    "cmd_rename (worker_peer P android) old_remote new_remote (ucast flags) (cm, p)
       = (Inr (v = 0, errno w), (cm', p\<lparr>rm_world := w\<rparr>))" "idle cm'"
    by (auto simp: completes_def)
  then show ?thesis
    using m(1) on_commander_found [of client sv cm p
        "status_call (cmd_rename (worker_peer P android) old_remote new_remote (ucast flags))"]
    by (auto simp: does_def Pair zcfs_rename_def m(2,3) returns_def mounted_def idle_def status_call_def)
qed

lemma zcfs_statfs_remote:
  assumes m: "mounted client cm p sv" "split_path path = Inr (client, remote_path)"
    and path: "path \<noteq> ''/''" "path_fits remote_path"
    and run: "px_statvfs P (c_str remote_path) (px_stack_statvfs P (rm_world p)) (rm_world p) = ((r, st), w)"
  shows "returns (zcfs_statfs (worker_peer P android) path (Some sv))
    (if r = 0 then Inr 0 else negated (errno w))
    (if r = 0 then (copy_statvfs st)\<lparr>f_flag := low32 (f_flag st) OR mount_flags\<rparr> else copy_statvfs st)
    client sv (p\<lparr>rm_world := w\<rparr>)"
proof -
  obtain cm' where "cmd_statvfs (worker_peer P android) remote_path zero_statvfs (cm, p)
      = ((Inr (r = 0, errno w), copy_statvfs st), (cm', p\<lparr>rm_world := w\<rparr>))" "idle cm'"
    using statvfs_remote [OF mounted_idle [OF m(1)] path(2) run] by (auto simp: completes_def)
  then show ?thesis
    unfolding zcfs_statfs_def if_not_P [OF path(1)]
    by (intro mounted_call [OF m]) (auto simp: copy_statvfs_def)
qed

text \<open>A client that is not in the table: nothing happens, and the error of the callback comes back.\<close>

lemma on_path_absent:
  "map_find client (sv_commanders sv) = None \<Longrightarrow> split_path path = Inr (client, remote_path) \<Longrightarrow>
   on_path R path absent out k (Some sv) = ((Inr (- absent), out), Some sv)"
  by (simp add: on_path_def on_commander_absent)

section \<open>An example\<close>

text \<open>One client with one open file and one open directory.\<close>

definition example_entry :: dirent where
  "example_entry = \<lparr>d_ino = 1, d_type = 8, d_name = ''a''\<rparr>"

definition example_posix :: "nat posix" where
  "example_posix = (failing_posix ENOENT)
     \<lparr>px_stat := (\<lambda>path buf w. ((0, buf\<lparr>st_mode := 33188, st_size := 2\<rparr>), w)),
      px_pread := (\<lambda>fd buf offset w.
        if fd = 7 then ((2, [104, 105] @ drop 2 buf), w) else ((-1, buf), w\<lparr>errno := EBADF\<rparr>)),
      px_pwrite := (\<lambda>fd bytes offset w.
        if fd = 7 then (word_of_nat (length bytes), w\<lparr>os := 3\<rparr>) else (-1, w\<lparr>errno := EBADF\<rparr>)),
      px_readdir := (\<lambda>fd w. if os w = 0 then (Some example_entry, w\<lparr>os := 1\<rparr>) else (None, w))\<rparr>"

definition example_remote :: "nat remote" where
  "example_remote =
     \<lparr>rm_worker = \<lparr>wk_should_stop = False,
        wk_file_handler = \<lparr>fh_fds = [(0, 7)], fh_next_fd_id = 1\<rparr>,
        wk_dir_handler = \<lparr>dh_fds = [(0, 9)], dh_next_fd_id = 1, dh_overridden_fds = []\<rparr>\<rparr>,
      rm_world = \<lparr>errno = 0, os = 0\<rparr>, rm_inbox = []\<rparr>"

definition example_server :: "nat remote server" where
  "example_server = \<lparr>sv_should_stop = False, sv_socket = 3,
     sv_commanders = [(''h'', (new_commander, example_remote))], sv_dropped = []\<rparr>"

lemma example_mounted: "mounted ''h'' new_commander example_remote example_server"
  by (simp add: mounted_def example_server_def idle_def new_commander_def map_empty_def example_remote_def)

lemma example_path:
  "split_path ''/h/a'' = Inr (''h'', ''/a'')" "split_path ''/h/d'' = Inr (''h'', ''/d'')"
  by (simp_all add: split_path_def)

lemma example_fds:
  "fh_get_fd (id_of_fh 0) (wk_file_handler (rm_worker example_remote)) = 7"
  "rm_world example_remote = \<lparr>errno = 0, os = 0\<rparr>"
  by (simp_all add: example_remote_def fh_get_fd_def id_of_fh_def)

lemma example_stat:
  "px_stat example_posix path buf w = ((0, buf\<lparr>st_mode := 33188, st_size := 2\<rparr>), w)"
  "px_stack_stat example_posix w = blank_stat" "rm_world example_remote = \<lparr>errno = 0, os = 0\<rparr>"
  by (simp_all add: example_posix_def failing_posix_def example_fds)

lemma example_pread:
  "px_pread example_posix (fh_get_fd (id_of_fh 0) (wk_file_handler (rm_worker example_remote)))
     (replicate 4 0) 0 (rm_world example_remote) = ((2, [104, 105, 0, 0]), \<lparr>errno = 0, os = 0\<rparr>)"
  unfolding example_fds by (simp add: example_posix_def numeral_eq_Suc)

lemma example_pwrite:
  "px_pwrite example_posix (fh_get_fd (id_of_fh 0) (wk_file_handler (rm_worker example_remote)))
     [1, 2] 0 (rm_world example_remote) = (2, \<lparr>errno = 0, os = 3\<rparr>)"
  unfolding example_fds by (simp add: example_posix_def)

lemma example_dir:
  "dh_lookup_overridden (id_of_fh 0) (wk_dir_handler (rm_worker example_remote)) = None"
  "dh_lookup (id_of_fh 0) (wk_dir_handler (rm_worker example_remote)) = Some 9"
  by (simp_all add: example_remote_def dh_lookup_def dh_lookup_overridden_def id_of_fh_def)

lemma example_listing:
  "listing example_posix 9 [example_entry] (rm_world example_remote) \<lparr>errno = 0, os = 1\<rparr>"
  by (simp add: listing_def example_fds example_posix_def)

lemma example_filled:
  "c_str (entry_name (entry_of example_entry)) = ''a''"
  "d_name example_entry = ''a''"
  by (simp_all add: example_entry_def entry_of_def c_str_def)

text \<open>A client that is not in the table: nothing is sent and nothing changes.\<close>

lemma unknown_client_is_refused:
  assumes "map_find client (sv_commanders sv) = None" "split_path path = Inr (client, remote_path)"
    and "path \<noteq> ''/''" "fi_fh fi \<noteq> VirtualRootDirFd"
  shows "zcfs_getattr R path (Some sv) = ((Inr (- ENOENT), zero_stat), Some sv)
    \<and> zcfs_open R path fi (Some sv) = ((Inr (- ENOENT), fi), Some sv)
    \<and> zcfs_opendir R path fi (Some sv) = ((Inr (- ENOENT), fi), Some sv)
    \<and> zcfs_mkdir R path mode (Some sv) = ((Inr (- ENOENT), ()), Some sv)
    \<and> zcfs_unlink R path (Some sv) = ((Inr (- ENOENT), ()), Some sv)
    \<and> zcfs_statfs R path (Some sv) = ((Inr (- ENOENT), zero_statvfs), Some sv)
    \<and> zcfs_read R path buf len offset fi (Some sv) = ((Inr (- EIO), buf), Some sv)
    \<and> zcfs_write R path bytes len offset fi (Some sv) = ((Inr (- EIO), ()), Some sv)
    \<and> zcfs_readdir R filler path b fi (Some sv) = Some ((Inr (- EIO), b), Some sv)"
  using assms
  by (simp add: zcfs_getattr_def zcfs_open_def zcfs_opendir_def zcfs_mkdir_def zcfs_unlink_def zcfs_statfs_def
      zcfs_read_def zcfs_write_def zcfs_readdir_def on_path_absent get_commander_def)

text \<open>Writing is \<open>pwrite\<close> of the bytes of the caller on the machine of the client.\<close>

lemma zcfs_write_writes_remote_file:
  assumes "mounted client cm p sv" "split_path path = Inr (client, remote_path)"
    and "unat (ucast len :: u32) < 2 ^ 31" "unat (ucast len :: u32) \<le> length buf"
    and "px_pwrite P (fh_get_fd (id_of_fh (fi_fh fi)) (wk_file_handler (rm_worker p)))
        (take (unat (ucast len :: u32)) buf) offset (rm_world p) = (result, w)"
  shows "returns (zcfs_write (worker_peer P android) path buf len offset fi (Some sv))
    (value_return (ucast result, errno w)) () client sv (p\<lparr>rm_world := w\<rparr>)"
  using assms by (rule zcfs_write_remote)

section \<open>Properties\<close>

text \<open>
  C15. Reading through the mounted file system is \<open>pread\<close> on the client's machine: the result or the
  negated \<open>errno\<close> of the call comes back, the caller's buffer holds the bytes the call stored, and
  nothing else on that machine has changed.
\<close>

theorem zcfs_read_reads_remote_file:
  assumes "mounted client cm p sv" "split_path path = Inr (client, remote_path)"
    and "read_behaves (ucast len) result buffer"
    and "unat (ucast len :: u32) < 2 ^ 31" "unat (ucast len :: u32) \<le> length buf"
    and "px_pread P (fh_get_fd (id_of_fh (fi_fh fi)) (wk_file_handler (rm_worker p)))
        (replicate (unat (ucast len :: u32)) 0) offset (rm_world p) = ((result, buffer), w)"
  shows "returns (zcfs_read (worker_peer P android) path buf len offset fi (Some sv))
    (if sint result = -1 then negated (errno w) else Inr (ucast result)) (fill result buffer buf)
    client sv (p\<lparr>rm_world := w\<rparr>)"
  using assms by (rule zcfs_read_remote)

theorem zcfs_read_reads_remote_file_witness:
  "returns (zcfs_read (worker_peer example_posix False) ''/h/a'' [0, 0, 0, 0] 4 0
      \<lparr>fi_flags = 0, fi_fh = 0\<rparr> (Some example_server))
    (Inr 2) [104, 105, 0, 0] ''h'' example_server (example_remote\<lparr>rm_world := \<lparr>errno = 0, os = 0\<rparr>\<rparr>)"
  using zcfs_read_reads_remote_file [of "''h''" new_commander example_remote example_server "''/h/a''" "''/a''"
      4 2 "[104, 105, 0, 0]" "[0, 0, 0, 0]" example_posix "\<lparr>fi_flags = 0, fi_fh = 0\<rparr>" 0 "\<lparr>errno = 0, os = 0\<rparr>" False]
  by (simp add: example_mounted example_path read_behaves_def fill_def example_pread)

text \<open>
  C16. Listing a directory of any size ends, and the buffer of the caller gets exactly the entries that
  \<open>readdir\<close> gives on the client's machine, in their order, whatever the number of batches.
\<close>

theorem zcfs_readdir_lists_directory:
  assumes "mounted client cm p sv" "split_path path = Inr (client, remote_path)"
    and "fi_fh fi \<noteq> VirtualRootDirFd"
    and "dh_lookup_overridden (id_of_fh (fi_fh fi)) (wk_dir_handler (rm_worker p)) = None"
      "dh_lookup (id_of_fh (fi_fh fi)) (wk_dir_handler (rm_worker p)) = Some fd" "fd \<noteq> nullptr"
    and "never_full filler"
    and "listing P fd es (rm_world p) w" "errno w = 0" "\<forall>e \<in> set es. length (d_name e) \<le> 255"
  shows "\<exists>run. zcfs_readdir (worker_peer P android) filler path buf fi (Some sv) = Some run
    \<and> returns run (Inr 0) (fill_entries filler (map entry_of es) buf) client sv (p\<lparr>rm_world := w\<rparr>)"
  using assms by (rule zcfs_readdir_remote)

theorem zcfs_readdir_lists_directory_witness:
  "\<exists>run. zcfs_readdir (worker_peer example_posix False) (\<lambda>b name st. (False, b @ [name])) ''/h/d'' []
      \<lparr>fi_flags = 0, fi_fh = 0\<rparr> (Some example_server) = Some run
    \<and> returns run (Inr 0) [''a''] ''h'' example_server (example_remote\<lparr>rm_world := \<lparr>errno = 0, os = 1\<rparr>\<rparr>)"
  using zcfs_readdir_lists_directory [of "''h''" new_commander example_remote example_server "''/h/d''" "''/d''"
      "\<lparr>fi_flags = 0, fi_fh = 0\<rparr>" 9 "\<lambda>b name st. (False, b @ [name])" example_posix "[example_entry]"
      "\<lparr>errno = 0, os = 1\<rparr>" False "[]"]
  by (simp add: example_mounted example_path example_dir never_full_def example_listing [simplified]
      example_filled)

text \<open>
  C33. \<open>statfs\<close> gives the numbers of the client's file system modulo \<open>2 ^ 32\<close>, with the flags of the mount;
  when the call fails the numbers are whatever the structure on the client's machine held.
\<close>

theorem zcfs_statfs_narrows_numbers:
  assumes "mounted client cm p sv" "split_path path = Inr (client, remote_path)"
    and "path \<noteq> ''/''" "path_fits remote_path"
    and "px_statvfs P (c_str remote_path) (px_stack_statvfs P (rm_world p)) (rm_world p) = ((r, st), w)"
  shows "returns (zcfs_statfs (worker_peer P android) path (Some sv))
    (if r = 0 then Inr 0 else negated (errno w))
    (if r = 0 then (copy_statvfs st)\<lparr>f_flag := low32 (f_flag st) OR mount_flags\<rparr> else copy_statvfs st)
    client sv (p\<lparr>rm_world := w\<rparr>)"
  using assms by (rule zcfs_statfs_remote)

theorem zcfs_statfs_narrows_numbers_witness:
  "returns (zcfs_statfs (worker_peer (example_posix\<lparr>px_statvfs := (\<lambda>path buf w.
        ((0, blank_statvfs\<lparr>f_blocks := 4294967301\<rparr>), w))\<rparr>) False) ''/h/a'' (Some example_server))
     (Inr 0) (blank_statvfs\<lparr>f_blocks := 5, f_flag := mount_flags\<rparr>) ''h'' example_server example_remote"
  using zcfs_statfs_narrows_numbers [OF example_mounted example_path(1), where
      P = "example_posix\<lparr>px_statvfs := (\<lambda>path buf w. ((0, blank_statvfs\<lparr>f_blocks := 4294967301\<rparr>), w))\<rparr>"
      and r = 0 and st = "blank_statvfs\<lparr>f_blocks := 4294967301\<rparr>" and w = "rm_world example_remote" and android = False]
  by (simp add: copy_statvfs_def blank_statvfs_def)

end
