(* ===== verification/File_System.thy ===== *)
theory File_System
  imports Zcfs
begin

text \<open>
  The mounted file system as \<open>fuse_main\<close> drives it: the table of operations, and the states the server
  reaches while workers connect and the kernel calls the operations in any order. What the kernel
  passes is a \<open>fuse_call\<close>, what the operation fills a \<open>fuse_out\<close>. One callback runs at a time here.
\<close>

section \<open>The table of operations\<close>

datatype fuse_call =
    Do_Getattr string
  | Do_Mkdir string u32
  | Do_Unlink string
  | Do_Rmdir string
  | Do_Rename string string u32
  | Do_Chmod string u32
  | Do_Chown string u32 u32
  | Do_Truncate string i64
  | Do_Open string fuse_file_info
  | Do_Read string "u8 list" u64 i64 fuse_file_info
  | Do_Write string "u8 list" u64 i64 fuse_file_info
  | Do_Statfs string
  | Do_Release string fuse_file_info
  | Do_Opendir string fuse_file_info
  | Do_Readdir string fuse_file_info
  | Do_Releasedir string fuse_file_info
  | Do_Access string i32
  | Do_Create string u32 fuse_file_info
  | Do_Utimens string timespec timespec

datatype 'b fuse_out =
    Nothing_Filled
  | Stat_Filled stat
  | Statvfs_Filled statvfs
  | Info_Filled fuse_file_info
  | Bytes_Filled "u8 list"
  | Listing_Filled 'b

type_synonym ('p, 'b) fuse_answer = "((i32 result \<times> 'b fuse_out) \<times> 'p zcfs) option"

definition returned ::
    "('o \<Rightarrow> 'b fuse_out) \<Rightarrow> (i32 result \<times> 'o) \<times> 'p zcfs \<Rightarrow> ('p, 'b) fuse_answer" where
  "returned f = (\<lambda>((r, out), server). Some ((r, f out), server))"

abbreviation plain :: "(i32 result \<times> unit) \<times> 'p zcfs \<Rightarrow> ('p, 'b) fuse_answer" where
  "plain \<equiv> returned (\<lambda>_. Nothing_Filled)"

text \<open>
  \<open>b\<close> is what the buffer of a listing holds at the beginning; \<open>None\<close> is a call that does not return. The
  table also has \<open>zcfs_init\<close> and \<open>zcfs_destroy\<close>, which are called once each.
\<close>

fun zcfs_operations ::
    "'p peer \<Rightarrow> 'b filler \<Rightarrow> 'b \<Rightarrow> fuse_call \<Rightarrow> 'p zcfs \<Rightarrow> ('p, 'b) fuse_answer" where
  "zcfs_operations R filler b (Do_Getattr path) server = returned Stat_Filled (zcfs_getattr R path server)"
| "zcfs_operations R filler b (Do_Mkdir path mode) server = plain (zcfs_mkdir R path mode server)"
| "zcfs_operations R filler b (Do_Unlink path) server = plain (zcfs_unlink R path server)"
| "zcfs_operations R filler b (Do_Rmdir path) server = plain (zcfs_rmdir R path server)"
| "zcfs_operations R filler b (Do_Rename old_path new_path flags) server =
     plain (zcfs_rename R old_path new_path flags server)"
| "zcfs_operations R filler b (Do_Chmod path mode) server = plain (zcfs_chmod R path mode server)"
| "zcfs_operations R filler b (Do_Chown path owner grp) server = plain (zcfs_chown R path owner grp server)"
| "zcfs_operations R filler b (Do_Truncate path len) server = plain (zcfs_truncate R path len server)"
| "zcfs_operations R filler b (Do_Open path fi) server = returned Info_Filled (zcfs_open R path fi server)"
| "zcfs_operations R filler b (Do_Read path buf len offset fi) server =
     returned Bytes_Filled (zcfs_read R path buf len offset fi server)"
| "zcfs_operations R filler b (Do_Write path buf len offset fi) server =
     plain (zcfs_write R path buf len offset fi server)"
| "zcfs_operations R filler b (Do_Statfs path) server = returned Statvfs_Filled (zcfs_statfs R path server)"
| "zcfs_operations R filler b (Do_Release path fi) server = plain (zcfs_release R path fi server)"
| "zcfs_operations R filler b (Do_Opendir path fi) server = returned Info_Filled (zcfs_opendir R path fi server)"
| "zcfs_operations R filler b (Do_Readdir path fi) server =
     (case zcfs_readdir R filler path b fi server of
        None \<Rightarrow> None
      | Some answer \<Rightarrow> returned Listing_Filled answer)"
| "zcfs_operations R filler b (Do_Releasedir path fi) server = plain (zcfs_releasedir R path fi server)"
| "zcfs_operations R filler b (Do_Access path mode) server = plain (zcfs_access R path mode server)"
| "zcfs_operations R filler b (Do_Create path mode fi) server =
     returned Info_Filled (zcfs_create R path mode fi server)"
| "zcfs_operations R filler b (Do_Utimens path time0 time1) server =
     plain (zcfs_utimens R path time0 time1 server)"

section \<open>The program\<close>

text \<open>
  \<open>main\<close>. The option parser and \<open>fuse_main\<close> belong to libfuse: \<open>opt_parse\<close> takes the table of options,
  the arguments and the options, and gives its result with the last two as it leaves them; \<open>fuse_main\<close>
  takes the operations and gives the exit code of the mounted file system. The model gives the exit
  code and, for \<open>--help\<close>, the text \<open>show_help\<close> prints.
\<close>

datatype option_field = Host_Field | Port_Field | Help_Field

definition zcfs_fuse_opts :: "(string \<times> option_field) list" where
  "zcfs_fuse_opts = [(''host=%s'', Host_Field), (''port=%s'', Port_Field), (''-h'', Help_Field), (''--help'', Help_Field)]"

definition default_options :: zcfs_options where
  "default_options = \<lparr>opt_host = ''0.0.0.0'', opt_port = Some ''4444'', opt_show_help = 0\<rparr>"

definition zcfs_help :: "string \<Rightarrow> string" where
  "zcfs_help progname =
     ''Usage: '' @ progname @ '' <mountpoint> [options]'' @ [CHR 0x0A, CHR 0x0A] @
     ''ZCFS Options'' @ [CHR 0x0A] @
     ''    -h   --help            print help'' @ [CHR 0x0A] @
     ''    -o host=HOST           host to listen on (default: '' @ opt_host default_options @ '')'' @ [CHR 0x0A] @
     ''    -o port=PORT           port to listen on (default: '' @ the (opt_port default_options) @ '')'' @
     [CHR 0x0A, CHR 0x0A] @ ''FUSE Options:'' @ [CHR 0x0A]"

definition zcfs_main ::
    "'p peer \<Rightarrow> 'b filler \<Rightarrow> 'b
       \<Rightarrow> ((string \<times> option_field) list \<Rightarrow> string list \<Rightarrow> zcfs_options \<Rightarrow> i32 \<times> string list \<times> zcfs_options)
       \<Rightarrow> ((fuse_call \<Rightarrow> 'p zcfs \<Rightarrow> ('p, 'b) fuse_answer) \<Rightarrow> string list \<Rightarrow> zcfs_options \<Rightarrow> i32)
       \<Rightarrow> string list \<Rightarrow> i32 \<times> string option" where
  "zcfs_main R filler b opt_parse fuse_main argv =
     (case opt_parse zcfs_fuse_opts argv default_options of (result, args, options) \<Rightarrow>
        if result = -1 then (1, None)
        else if opt_show_help options \<noteq> 0 then (0, Some (zcfs_help (case args of [] \<Rightarrow> [] | progname # _ \<Rightarrow> progname)))
        else (fuse_main (zcfs_operations R filler b) args options, None))"

section \<open>The states of the server\<close>

text \<open>
  \<open>zcfs_init\<close> makes the server; then the acceptor thread and the callbacks take turns.
\<close>

inductive fs_reach ::
    "'w net \<Rightarrow> 'p peer \<Rightarrow> (i32 \<Rightarrow> ('p result, 'w) call) \<Rightarrow> 'b filler \<Rightarrow> 'p server \<Rightarrow> bool"
  for N :: "'w net" and R :: "'p peer" and accepted :: "i32 \<Rightarrow> ('p result, 'w) call" and filler :: "'b filler"
where
  mounted: "zcfs_init N opts None w = (False, Some sv, w') \<Longrightarrow> fs_reach N R accepted filler sv"
| connected: "fs_reach N R accepted filler sv \<Longrightarrow> \<not> sv_should_stop sv \<Longrightarrow>
    accept_one N R accepted sv w = (r, sv', w') \<Longrightarrow> fs_reach N R accepted filler sv'"
| called: "fs_reach N R accepted filler sv \<Longrightarrow>
    zcfs_operations R filler b call (Some sv) = Some (answer, Some sv') \<Longrightarrow> fs_reach N R accepted filler sv'"

text \<open>What they keep: the table is a map and every commander in it is consistent.\<close>

definition fs_ok :: "'p server \<Rightarrow> bool" where
  "fs_ok sv \<longleftrightarrow> server_ok sv \<and> (\<forall>name s. map_find name (sv_commanders sv) = Some s \<longrightarrow> session_ok (fst s))"

section \<open>Calls that end\<close>

definition ends :: "'a result \<Rightarrow> bool" where
  "ends r \<longleftrightarrow> r \<noteq> Inl Blocked"

lemma ends_simps [simp]: "ends (Inr x)" "ends (Inl e) \<longleftrightarrow> e \<noteq> Blocked"
  by (simp_all add: ends_def)

lemma ends_and_then: "ends r \<Longrightarrow> (\<And>x. ends (k x)) \<Longrightarrow> ends (and_then r k)"
  by (cases r) (simp_all add: ends_def)

lemma ends_try_in: "ends r \<Longrightarrow> (\<And>x. ends (fst (k x))) \<Longrightarrow> ends (fst (try_in r s k))"
  by (cases r) (simp_all add: ends_def)

lemma ends_read: "read_error r \<Longrightarrow> ends r"
  by (auto simp: read_error_def ends_def)

lemma ends_reads [simp]:
  "ends (deserialize_uint8 d)" "ends (deserialize_uint32 d)" "ends (deserialize_int32 d)"
  "ends (deserialize_int64 d)" "ends (deserialize_byte_vector d)" "ends (read_value d)" "ends (read_entry d)"
  by (auto simp: read_entry_def split: prod.split intro!: ends_read read_error_and_then)

lemma ends_read_status [simp]: "ends (read_status d)"
  by (auto simp: read_status_def split: prod.split intro!: ends_and_then)

lemma ends_caught: "(\<And>e. r = Inl e \<Longrightarrow> \<not> uncaught e) \<Longrightarrow> ends r"
  by (auto simp: ends_def)

lemma ends_error_handler: "ends r \<Longrightarrow> ends (error_handler r)"
  by (cases r) (simp_all add: error_handler_def)

lemma ends_returns [simp]: "ends (negated e)" "ends (status_return x)" "ends (value_return v)"
  by (simp_all add: negated_def status_return_def value_return_def split: prod.split)

text \<open>The part of a callback that has the commander.\<close>

definition sound_call :: "('p session \<Rightarrow> (i32 result \<times> 'o) \<times> 'p session) \<Rightarrow> bool" where
  "sound_call k \<longleftrightarrow> (\<forall>s. session_ok (fst s) \<longrightarrow> session_ok (fst (snd (k s))) \<and> ends (fst (fst (k s))))"

lemma sound_callD:
  "sound_call k \<Longrightarrow> session_ok (fst s) \<Longrightarrow> session_ok (fst (snd (k s))) \<and> ends (fst (fst (k s)))"
  unfolding sound_call_def by blast

lemma request_sound:
  assumes "peer_returns R" "session_ok (fst s)"
  shows "session_ok (fst (snd (request R type bytes s))) \<and> ends (fst (request R type bytes s))"
proof -
  obtain cm p where s: "s = (cm, p)" by (rule prod.exhaust)
  let ?m = "\<lparr>msg_id = cm_next_command_id cm, msg_type = commander_code type, msg_data = bytes\<rparr>"
  let ?cm = "cm\<lparr>cm_next_command_id := cm_next_command_id cm + 1\<rparr>"
  obtain r s' where run: "send_command R ?m (?cm, p) = (r, s')" by (rule prod.exhaust)
  have "session_ok ?cm" using assms(2) s by (simp add: session_ok_id)
  from send_command_returns [OF assms(1) this run] run s show ?thesis
    by (auto simp: request_def take_command_id_def intro: ends_caught)
qed

lemma status_request_sound:
  assumes "peer_returns R" "session_ok (fst s)"
  shows "session_ok (fst (snd (status_request R type bytes s))) \<and> ends (fst (status_request R type bytes s))"
  using request_sound [OF assms, of type bytes] by (auto simp: status_request_def split_beta intro!: ends_and_then)

lemma value_request_sound:
  assumes "peer_returns R" "session_ok (fst s)"
  shows "session_ok (fst (snd (value_request R type bytes s))) \<and> ends (fst (value_request R type bytes s))"
  using request_sound [OF assms, of type bytes] by (auto simp: value_request_def split_beta intro!: ends_and_then)

lemma store_bytes_ends: "ends (fst (store_bytes what len bytes m))"
  by (auto simp: store_bytes_def split: prod.splits intro!: ends_try_in)

lemma open_return_ends: "ends r \<Longrightarrow> ends (fst (open_return fi r))"
  by (auto simp: open_return_def split: prod.splits intro!: ends_try_in)

lemma read_stat_ends: "ends (fst (read_stat d buf))" "ends (fst (read_statvfs d st))"
  by (auto simp: read_stat_def read_statvfs_def Let_def split: prod.splits intro!: ends_try_in)

lemma read_entries_ends: "ends (read_entries d)"
proof (induction d rule: read_entries.induct)
  case (1 d)
  then show ?case
    by (subst read_entries.simps) (auto split: sum.splits intro!: ends_and_then dest: arg_cong [where f = ends])
qed

section \<open>The calls of a commander\<close>

named_theorems sound \<open>the calls of a commander that end\<close>

lemma status_call_sound:
  assumes "\<And>s. session_ok (fst s) \<Longrightarrow> session_ok (fst (snd (call s))) \<and> ends (fst (call s))"
  shows "sound_call (status_call call)"
  unfolding sound_call_def
proof (intro allI impI)
  fix s :: "'a session" assume "session_ok (fst s)"
  from assms [OF this] show "session_ok (fst (snd (status_call call s))) \<and> ends (fst (fst (status_call call s)))"
    by (auto simp: status_call_def split_beta intro!: ends_and_then)
qed

lemma status_calls_sound [sound]:
  assumes "peer_returns R"
  shows "sound_call (status_call (cmd_mkdir R path mode))" "sound_call (status_call (cmd_unlink R path))"
    "sound_call (status_call (cmd_rmdir R path))" "sound_call (status_call (cmd_rename R path path' flags))"
    "sound_call (status_call (cmd_chmod R path mode))" "sound_call (status_call (cmd_chown R path owner grp))"
    "sound_call (status_call (cmd_truncate R path len))" "sound_call (status_call (cmd_access R path mode))"
    "sound_call (status_call (cmd_utimens R path time0 time1))" "sound_call (status_call (cmd_close R fd))"
    "sound_call (status_call (cmd_closedir R fd))"
  using status_request_sound [OF assms]
  by (auto simp: cmd_mkdir_def cmd_unlink_def cmd_rmdir_def cmd_rename_def cmd_chmod_def cmd_chown_def
      cmd_truncate_def cmd_access_def cmd_utimens_def cmd_close_def cmd_closedir_def intro!: status_call_sound)

lemma getattr_sound [sound]:
  assumes "peer_returns R"
  shows "sound_call (\<lambda>s. case cmd_getattr R path buf s of ((r, st), s1) \<Rightarrow> ((and_then r status_return, st), s1))"
  using request_sound [OF assms]
  by (auto simp: sound_call_def cmd_getattr_def split_beta intro!: ends_and_then ends_try_in read_stat_ends)

lemma open_sound [sound]:
  assumes "peer_returns R"
  shows "sound_call (\<lambda>s. case cmd_open R path flags mode s of (r, s1) \<Rightarrow> (open_return fi r, s1))"
    "sound_call (\<lambda>s. case cmd_opendir R path s of (r, s1) \<Rightarrow> (open_return fi r, s1))"
  using value_request_sound [OF assms]
  by (auto simp: sound_call_def cmd_open_def cmd_opendir_def split_beta intro!: open_return_ends)

lemma pread_sound [sound]:
  assumes "peer_returns R"
  shows "sound_call (\<lambda>s. case cmd_pread R fd buf len offset s of
      ((r, buf1), s1) \<Rightarrow> ((and_then r value_return, buf1), s1))"
  using request_sound [OF assms]
  by (auto simp: sound_call_def cmd_pread_def split_beta intro!: ends_and_then ends_try_in store_bytes_ends)

lemma pwrite_sound [sound]:
  assumes "peer_returns R"
  shows "sound_call (\<lambda>s. case cmd_pwrite R fd buf len offset s of (r, s1) \<Rightarrow> ((and_then r value_return, ()), s1))"
  using value_request_sound [OF assms]
  by (auto simp: sound_call_def cmd_pwrite_def serialize_bytes_def Let_def split_beta intro!: ends_and_then)

lemma statvfs_sound [sound]:
  assumes "peer_returns R"
  shows "sound_call (\<lambda>s. case cmd_statvfs R path buf s of ((r, stbuf), s1) \<Rightarrow>
      (try_in r stbuf (\<lambda>(result, worker_errno).
         if \<not> result then (negated worker_errno, stbuf)
         else (Inr 0, stbuf\<lparr>f_flag := f_flag stbuf OR mount_flags\<rparr>)), s1))"
  using request_sound [OF assms]
  by (auto simp: sound_call_def cmd_statvfs_def split_beta intro!: ends_and_then ends_try_in read_stat_ends)

section \<open>The table of commanders\<close>

lemma fs_ok_erase:
  assumes "fs_ok sv" shows "fs_ok (snd (erase_commander R name sv))"
  using assms erase_commander_ok [of sv R name] erase_commander_find [of sv _ R name] by (simp add: fs_ok_def)

lemma fs_ok_session: "fs_ok sv \<Longrightarrow> map_find name (sv_commanders sv) = Some s \<Longrightarrow> session_ok (fst s)"
  unfolding fs_ok_def by blast

lemma fs_ok_put: "fs_ok sv \<Longrightarrow> session_ok (fst s) \<Longrightarrow> fs_ok (put_commander name s sv)"
  by (auto simp: fs_ok_def put_commander_ok) (auto simp: put_commander_def server_ok_def std.find_assign split: if_splits)

lemma delete_commander_ends:
  assumes "peer_returns R" "session_ok (fst s)" shows "ends (fst (delete_commander R s))"
proof -
  have "ends (fst (disconnect R s))"
    using request_sound [OF assms, of Disconnect "[]"]
    by (cases s) (auto simp: disconnect_def split_beta split: sum.split)
  then show ?thesis by (auto simp: delete_commander_def split_beta split: sum.split)
qed

lemma erase_commander_ends:
  assumes "peer_returns R" "fs_ok sv" shows "ends (fst (erase_commander R name sv))"
proof (cases "map_find name (sv_commanders sv)")
  case (Some s)
  with assms(2) have "session_ok (fst s)" by (rule fs_ok_session)
  from delete_commander_ends [OF assms(1) this] Some show ?thesis by (simp add: erase_commander_def split_beta)
qed (simp add: erase_commander_def)

lemma get_commander_found: "get_commander R client sv = (Inr (Some s), sv') \<Longrightarrow>
    sv' = sv \<and> map_find client (sv_commanders sv) = Some s"
  by (auto simp: get_commander_def and_then_def split: option.splits if_splits prod.splits sum.splits)

lemma get_commander_sound:
  assumes "peer_returns R" "fs_ok sv"
  shows "fs_ok (snd (get_commander R client sv)) \<and> ends (fst (get_commander R client sv))"
  using fs_ok_erase [OF assms(2)] erase_commander_ends [OF assms] assms(2)
  by (auto simp: get_commander_def split_beta split: option.split intro!: ends_and_then)

section \<open>The answer of a callback\<close>

definition settled :: "i32 result \<Rightarrow> bool" where
  "settled r \<longleftrightarrow> (\<exists>n. r = Inr n) \<or> (\<exists>u. r = Inl (Undefined u))"

lemma settled_simps [simp]: "settled (Inr n)" "settled (Inl (Undefined u))"
  by (simp_all add: settled_def)

lemma settled_handler: "ends r \<Longrightarrow> settled (error_handler r)"
proof (cases r)
  case (Inl e)
  assume "ends r"
  with Inl show ?thesis by (cases e) (simp_all add: error_handler_def)
qed (simp add: error_handler_def)

definition answered :: "(i32 result \<times> 'o) \<times> 'p zcfs \<Rightarrow> bool" where
  "answered = (\<lambda>((r, out), server). settled r \<and> (\<exists>sv. server = Some sv \<and> fs_ok sv))"

lemma answered_simp [simp]: "answered ((r, out), server) \<longleftrightarrow> settled r \<and> (\<exists>sv. server = Some sv \<and> fs_ok sv)"
  by (simp add: answered_def)

lemma on_commander_answers:
  assumes "peer_returns R" "fs_ok sv" "sound_call k"
  shows "answered (on_commander R client absent out k (Some sv))"
proof -
  obtain r sv1 where get: "get_commander R client sv = (r, sv1)" by (rule prod.exhaust)
  with get_commander_sound [OF assms(1,2), of client] have ok: "fs_ok sv1" "ends r" by simp_all
  consider e where "r = Inl e" | "r = Inr None" | s where "r = Inr (Some s)"
    by (metis old.sum.exhaust option.exhaust)
  then show ?thesis
  proof cases
    case (1 e)
    with ok show ?thesis by (simp add: on_commander_def get settled_handler)
  next
    case 2
    with ok show ?thesis by (simp add: on_commander_def get)
  next
    case (3 s)
    with get have "map_find client (sv_commanders sv) = Some s" by (simp add: get_commander_found)
    with assms(2) have "session_ok (fst s)" by (rule fs_ok_session)
    from sound_callD [OF assms(3) this] 3 ok show ?thesis by (simp add: on_commander_def get split_beta settled_handler fs_ok_put)
  qed
qed

lemma split_path_ends: "ends (split_path path)"
  by (simp add: split_path_def Let_def split: list.split)

lemma on_path_answers:
  assumes "peer_returns R" "fs_ok sv" "\<And>remote_path. sound_call (k remote_path)"
  shows "answered (on_path R path absent out k (Some sv))"
proof (cases "split_path path")
  case (Inl e)
  with split_path_ends [of path] assms(2) show ?thesis by (simp add: on_path_def settled_handler)
next
  case (Inr parts)
  with on_commander_answers [OF assms] show ?thesis by (simp add: on_path_def split_beta)
qed

lemma root_or_path_answers:
  assumes "peer_returns R" "fs_ok sv" "settled r" "\<And>remote_path. sound_call (k remote_path)"
  shows "answered (if b then ((r, out0), Some sv) else on_path R path absent out k (Some sv))"
  using assms on_path_answers [OF assms(1,2,4)] by simp

lemma callbacks_answer:
  assumes "peer_returns R" "fs_ok sv"
  shows "answered (zcfs_getattr R path (Some sv))" "answered (zcfs_mkdir R path mode (Some sv))"
    "answered (zcfs_unlink R path (Some sv))" "answered (zcfs_rmdir R path (Some sv))"
    "answered (zcfs_chmod R path mode (Some sv))" "answered (zcfs_chown R path owner grp (Some sv))"
    "answered (zcfs_truncate R path len (Some sv))" "answered (zcfs_open R path fi (Some sv))"
    "answered (zcfs_read R path buf n offset fi (Some sv))"
    "answered (zcfs_write R path buf n offset fi (Some sv))"
    "answered (zcfs_statfs R path (Some sv))" "answered (zcfs_release R path fi (Some sv))"
    "answered (zcfs_opendir R path fi (Some sv))" "answered (zcfs_releasedir R path fi (Some sv))"
    "answered (zcfs_access R path amode (Some sv))" "answered (zcfs_create R path mode fi (Some sv))"
    "answered (zcfs_utimens R path time0 time1 (Some sv))"
  unfolding zcfs_getattr_def zcfs_mkdir_def zcfs_unlink_def zcfs_rmdir_def zcfs_chmod_def zcfs_chown_def
    zcfs_truncate_def zcfs_open_def zcfs_read_def zcfs_write_def zcfs_statfs_def zcfs_release_def zcfs_opendir_def
    zcfs_releasedir_def zcfs_access_def zcfs_create_def zcfs_utimens_def
  by (intro root_or_path_answers on_path_answers assms sound [OF assms(1)] settled_simps)+

lemma rename_answers:
  assumes "peer_returns R" "fs_ok sv"
  shows "answered (zcfs_rename R old_path new_path flags (Some sv))"
  using split_path_ends assms
  by (auto simp: zcfs_rename_def settled_handler split: sum.split prod.split dest: arg_cong [where f = ends]
      intro!: on_commander_answers sound)

text \<open>A listing, when it ends.\<close>

lemma readdir_batches_sound:
  assumes "peer_returns R" "session_ok (fst s)" "readdir_batches R filler fd buf s = Some ((r, buf'), s')"
  shows "session_ok (fst s') \<and> ends r"
proof -
  let ?P = "\<lambda>R filler fd buf s y. peer_returns R \<longrightarrow> session_ok (fst s) \<longrightarrow>
      session_ok (fst (snd y)) \<and> ends (fst (fst y))"
  have "?P R filler fd buf s ((r, buf'), s')"
  proof (rule readdir_batches.raw_induct [OF _ assms(3), where P = ?P], intro impI)
    fix f R filler fd buf s y
    let ?read = "cmd_readdir R fd MaxDirsReadPerCall s"
    assume step: "\<And>R filler fd buf s y. f R filler fd buf s = Some y \<Longrightarrow> ?P R filler fd buf s y"
      and run: "(case ?read of
         (Inl e, s1) \<Rightarrow> Some ((Inl e, buf), s1)
       | (Inr (dirs, worker_errno), s1) \<Rightarrow>
           if worker_errno \<noteq> 0 then Some ((negated worker_errno, buf), s1)
           else let buf1 = fill_entries filler dirs buf
                in if length dirs = 2048 then f R filler fd buf1 s1 else Some ((Inr 0, buf1), s1)) = Some y"
      and R: "peer_returns R" and s: "session_ok (fst s)"
    have read: "session_ok (fst (snd ?read)) \<and> ends (fst ?read)"
      using request_sound [OF R s] read_entries_ends
      by (auto simp: cmd_readdir_def split_beta intro!: ends_and_then)
    obtain r1 s1 where r1: "?read = (r1, s1)" by (rule prod.exhaust)
    show "session_ok (fst (snd y)) \<and> ends (fst (fst y))"
    proof (cases r1)
      case (Inl e)
      with read run r1 show ?thesis by auto
    next
      case (Inr v)
      have "((negated (snd v), buf), s1) = y \<or> ((Inr 0, fill_entries filler (fst v) buf), s1) = y
          \<or> f R filler fd (fill_entries filler (fst v) buf) s1 = Some y"
        using run by (simp add: r1 Inr Let_def split_beta split: if_splits)
      then consider "((negated (snd v), buf), s1) = y" | "((Inr 0, fill_entries filler (fst v) buf), s1) = y"
        | "f R filler fd (fill_entries filler (fst v) buf) s1 = Some y" by blast
      then show ?thesis
      proof cases
        case 3
        from step [OF this] R read r1 show ?thesis by simp
      qed (use read r1 in auto)
    qed
  qed
  with assms(1,2) show ?thesis by simp
qed

lemma readdir_answers:
  assumes "peer_returns R" "fs_ok sv" "zcfs_readdir R filler path b fi (Some sv) = Some answer"
  shows "answered answer"
proof (cases "fi_fh fi = VirtualRootDirFd")
  case True
  with assms(2,3) show ?thesis by (auto simp: zcfs_readdir_def)
next
  case False
  show ?thesis
  proof (cases "split_path path")
    case (Inl e)
    with False assms(2,3) split_path_ends [of path] show ?thesis
      by (auto simp: zcfs_readdir_def settled_handler)
  next
    case (Inr parts)
    obtain client remote_path where parts: "parts = (client, remote_path)" by (rule prod.exhaust)
    obtain r sv1 where get: "get_commander R client sv = (r, sv1)" by (rule prod.exhaust)
    with get_commander_sound [OF assms(1,2), of client] have ok: "fs_ok sv1" "ends r" by simp_all
    note run = assms(3) [unfolded zcfs_readdir_def Inr parts get sum.case option.case prod.case if_not_P [OF False]]
    consider e where "r = Inl e" | "r = Inr None" | s where "r = Inr (Some s)"
      by (metis old.sum.exhaust option.exhaust)
    then show ?thesis
    proof cases
      case (3 s)
      with get have "map_find client (sv_commanders sv) = Some s" by (simp add: get_commander_found)
      with assms(2) have s: "session_ok (fst s)" by (rule fs_ok_session)
      with 3 run ok show ?thesis
        by (auto split: option.splits prod.splits dest!: readdir_batches_sound [OF assms(1) s]
            intro!: settled_handler fs_ok_put)
    qed (use run ok in \<open>auto simp: settled_handler\<close>)
  qed
qed

section \<open>Every reachable state\<close>

lemma returned_answered:
  "answered a \<Longrightarrow> returned f a = Some ((r, out), server') \<Longrightarrow>
   settled r \<and> (\<exists>sv'. server' = Some sv' \<and> fs_ok sv')"
  by (auto simp: returned_def answered_def split: prod.splits)

lemma operations_answered:
  assumes "peer_returns R" "fs_ok sv" "zcfs_operations R filler b call (Some sv) = Some ((r, out), server')"
  shows "settled r \<and> (\<exists>sv'. server' = Some sv' \<and> fs_ok sv')"
proof (cases call)
  case (Do_Readdir path fi)
  with assms(3) obtain answer where answer: "zcfs_readdir R filler path b fi (Some sv) = Some answer"
    "returned Listing_Filled answer = Some ((r, out), server')" by (auto split: option.splits)
  from readdir_answers [OF assms(1,2) answer(1)] answer(2) show ?thesis by (rule returned_answered)
qed (use callbacks_answer [OF assms(1,2)] rename_answers [OF assms(1,2)] assms(3) in
    \<open>simp, meson returned_answered\<close>)+


lemma accept_one_sound:
  assumes "peer_returns R" "fs_ok sv" "accept_one N R accepted sv w = (r, sv', w')"
  shows "fs_ok sv'"
proof -
  have ok: "server_ok sv'" using accept_one_ok [OF _ assms(3)] assms(2) by (simp add: fs_ok_def)
  have "sv' = sv \<or> (\<exists>name. sv' = snd (erase_commander R name sv))
      \<or> (\<exists>name p. sv' = (snd (erase_commander R name sv))\<lparr>sv_commanders :=
           map_emplace name (new_commander, p) (sv_commanders (snd (erase_commander R name sv)))\<rparr>)"
    using assms(3) by (auto simp: accept_one_def Let_def split: prod.splits sum.splits) (metis snd_conv)+
  then consider "sv' = sv" | name where "sv' = snd (erase_commander R name sv)"
    | name p where "sv' = (snd (erase_commander R name sv))\<lparr>sv_commanders :=
         map_emplace name (new_commander, p) (sv_commanders (snd (erase_commander R name sv)))\<rparr>" by blast
  then show ?thesis
  proof cases
    case 1
    with assms(2) show ?thesis by simp
  next
    case (2 name)
    with fs_ok_erase [OF assms(2)] show ?thesis by simp
  next
    case (3 name p)
    let ?sv = "snd (erase_commander R name sv)"
    have "session_ok (fst s)" if "map_find client (map_emplace name (new_commander, p) (sv_commanders ?sv)) = Some s"
      for client s
      using that fs_ok_session [OF fs_ok_erase [OF assms(2)], where s = s] fs_ok_erase [OF assms(2), of R name]
      by (auto simp: map_find_emplace fs_ok_def server_ok_def split: if_splits)
    with ok 3 show ?thesis unfolding fs_ok_def by simp
  qed
qed

lemma fs_reach_ok:
  assumes "peer_returns R" "fs_reach N R accepted filler sv"
  shows "fs_ok sv"
  using assms(2)
proof induction
  case (mounted opts w sv w')
  then have "sv_commanders sv = map_empty"
    by (auto simp: zcfs_init_def server_new_def split: sum.splits prod.splits)
  then show ?case by (simp add: fs_ok_def server_ok_def map_empty_def)
next
  case (connected sv w r sv' w')
  then show ?case using accept_one_sound [OF assms(1)] by blast
next
  case (called sv b call answer sv')
  then show ?case using operations_answered [OF assms(1), of sv filler b call] by (cases answer) auto
qed


lemma get_clients_connected:
  assumes "server_ok sv"
  shows "client \<in> set (get_clients sv) \<longleftrightarrow> (\<exists>s. get_commander R client sv = (Inr (Some s), sv))"
  by (rule get_commander_cases [of client sv R]) (auto simp: get_clients_iff [OF assms])





text \<open>A kernel on which the server starts and one worker connects from 10.0.0.1, and is then lost.\<close>

definition serving_net :: "unit net" where
  "serving_net = (failing_net EIO)
     \<lparr>nt_getaddrinfo := (\<lambda>_ _ w. ((0, Some (0, 4444)), w)), nt_socket := (\<lambda>w. (3, w)), nt_reuseaddr := (\<lambda>_ w. (0, w)),
      nt_bind := (\<lambda>_ _ w. (0, w)), nt_listen := (\<lambda>_ _ w. (0, w)), nt_accept := (\<lambda>_ w. ((7, 0, 0), w))\<rparr>"

definition lost_peer :: "unit peer" where
  "lost_peer = \<lparr>pr_write = (\<lambda>m p. (Inr (), p)), pr_read = (\<lambda>p. (Inl TransportClosed, p)),
     pr_close = (\<lambda>p. (Inr (), p))\<rparr>"

definition one_worker :: "unit server" where
  "one_worker = \<lparr>sv_should_stop = False, sv_socket = 3, sv_commanders = [(''10.0.0.1'', (new_commander, ()))],
     sv_dropped = []\<rparr>"

lemma lost_peer_returns: "peer_returns lost_peer"
  by (simp add: peer_returns_def lost_peer_def)

lemma one_worker_reached: "fs_reach serving_net lost_peer (\<lambda>fd w. (Inr (), w)) filler one_worker"
proof -
  let ?sv = "one_worker\<lparr>sv_commanders := []\<rparr>"
  let ?w = "\<lparr>errno = 0, os = ()\<rparr>"
  have "parse_port (Some ''4444'') = Inr 4444" by code_simp
  then have "zcfs_init serving_net default_options None ?w = (False, Some ?sv, ?w)"
    by (simp add: zcfs_init_def default_options_def server_new_def tcp_new_def tcp_bind_def resolved_def
        address_info_def address_delete_def tcp_listen_def serving_net_def failing_net_def one_worker_def map_empty_def)
  then have "fs_reach serving_net lost_peer (\<lambda>fd w. (Inr (), w)) filler ?sv" by (rule fs_reach.mounted)
  moreover have "accept_one serving_net lost_peer (\<lambda>fd w. (Inr (), w)) ?sv ?w = (Inr (), one_worker, ?w)"
    by (simp add: accept_one_def tcp_accept_def format_connection_def serving_net_def failing_net_def one_worker_def
        erase_commander_def)
  ultimately show ?thesis using fs_reach.connected [of _ _ _ _ ?sv] by (simp add: one_worker_def)
qed

section \<open>Properties\<close>



text \<open>
  C7. Whatever connections were accepted and callbacks made: the table of commanders is a map, each of its
  commanders is consistent, and the root directory lists exactly the clients that a lookup finds, each
  once and in order.
\<close>

theorem mounted_table_invariant:
  assumes "peer_returns R" "fs_reach N R accepted filler sv"
  shows "server_ok sv \<and> sorted_wrt (<) (get_clients sv)
    \<and> (\<forall>client. client \<in> set (get_clients sv) \<longleftrightarrow> (\<exists>s. get_commander R client sv = (Inr (Some s), sv)))
    \<and> (\<forall>name. case map_find name (sv_commanders sv) of None \<Rightarrow> True | Some s \<Rightarrow> session_ok (fst s))"
proof -
  have "fs_ok sv" using assms by (rule fs_reach_ok)
  then have "session_ok (fst s)" if "map_find name (sv_commanders sv) = Some s" for name s
    using that by (rule fs_ok_session)
  moreover have "server_ok sv" using \<open>fs_ok sv\<close> by (simp add: fs_ok_def)
  ultimately show ?thesis
    using get_clients_sorted [of sv] get_clients_connected [of sv _ R] by (simp split: option.split)
qed

theorem mounted_table_invariant_witness:
  "server_ok one_worker \<and> (\<exists>s. get_commander lost_peer ''10.0.0.1'' one_worker = (Inr (Some s), one_worker))"
proof -
  have "''10.0.0.1'' \<in> set (get_clients one_worker)"
    by (simp add: one_worker_def get_clients_def is_connected_def new_commander_def)
  with mounted_table_invariant [OF lost_peer_returns one_worker_reached] show ?thesis by blast
qed

end
