(* ===== verification/Local_Files.thy ===== *)
theory Local_Files
  imports End_To_End File_System
begin

text \<open>
  What the mounted file system promises, without the protocol: a process on the client's machine that
  makes the system calls itself and keeps a table from handles to descriptors. \<open>local_op\<close> is the
  effect of one call of the kernel in such a process. Every operation of \<open>zcfs\<close> on a connected client
  refines it, and so does every sequence of operations.
\<close>

section \<open>The specification\<close>

record 'w local_fs =
  lf_files :: "i32 \<Rightarrow> i32 option"
  lf_dirs :: "i32 \<Rightarrow> dir_ptr option"
  lf_world :: "'w world"

definition lf_fd :: "fuse_file_info \<Rightarrow> 'w local_fs \<Rightarrow> i32" where
  "lf_fd fi l = (case lf_files l (id_of_fh (fi_fh fi)) of None \<Rightarrow> -1 | Some fd \<Rightarrow> fd)"

definition lf_dir :: "fuse_file_info \<Rightarrow> 'w local_fs \<Rightarrow> dir_ptr" where
  "lf_dir fi l = (case lf_dirs l (id_of_fh (fi_fh fi)) of None \<Rightarrow> nullptr | Some d \<Rightarrow> d)"

text \<open>The calls that only give a status.\<close>

fun status_op :: "'w posix \<Rightarrow> fuse_call \<Rightarrow> (i32, 'w) call option" where
  "status_op P (Do_Mkdir path mode) = Some (px_mkdir P (c_str path) mode)"
| "status_op P (Do_Unlink path) = Some (px_unlink P (c_str path))"
| "status_op P (Do_Rmdir path) = Some (px_rmdir P (c_str path))"
| "status_op P (Do_Rename old_path new_path flags) = Some (rename_result P old_path new_path (ucast flags))"
| "status_op P (Do_Chmod path mode) = Some (px_chmod P (c_str path) mode)"
| "status_op P (Do_Chown path owner grp) = Some (px_chown P (c_str path) owner grp)"
| "status_op P (Do_Truncate path len) = Some (px_truncate P (c_str path) len)"
| "status_op P (Do_Access path mode) = Some (px_access P (c_str path) mode)"
| "status_op P (Do_Utimens path time0 time1) = Some (px_utimensat P (c_str path)
     \<lparr>tv_sec = tv_sec time0, tv_nsec = 0\<rparr> \<lparr>tv_sec = tv_sec time1, tv_nsec = 0\<rparr>)"
| "status_op P _ = None"

definition status_code :: "i32 \<Rightarrow> 'w world \<Rightarrow> i32 result" where
  "status_code value w = (if value = 0 then Inr 0 else negated (errno w))"

text \<open>The calls that open a file, with the mode they pass on.\<close>

fun open_op :: "fuse_call \<Rightarrow> (string \<times> i32 \<times> fuse_file_info) option" where
  "open_op (Do_Open path fi) = Some (path, DEFFILEMODE, fi)"
| "open_op (Do_Create path mode fi) = Some (path, mode, fi)"
| "open_op _ = None"

inductive local_op ::
    "'w posix \<Rightarrow> 'b filler \<Rightarrow> 'b \<Rightarrow> fuse_call \<Rightarrow> 'w local_fs \<Rightarrow> i32 result \<times> 'b fuse_out \<Rightarrow> 'w local_fs \<Rightarrow> bool"
  for P :: "'w posix" and filler :: "'b filler" and b :: 'b
where
  status: "status_op P call = Some f \<Longrightarrow> f (lf_world l) = (value, w) \<Longrightarrow>
    local_op P filler b call l (status_code value w, Nothing_Filled) (l\<lparr>lf_world := w\<rparr>)"
| getattr: "px_stat P (c_str path) (px_stack_stat P (lf_world l)) (lf_world l) = ((value, st), w) \<Longrightarrow>
    local_op P filler b (Do_Getattr path) l
      (status_code value w, Stat_Filled (if value = 0 then copy_stat st zero_stat else zero_stat))
      (l\<lparr>lf_world := w\<rparr>)"
| statfs: "px_statvfs P (c_str path) (px_stack_statvfs P (lf_world l)) (lf_world l) = ((value, st), w) \<Longrightarrow>
    local_op P filler b (Do_Statfs path) l
      (status_code value w, Statvfs_Filled
        (if value = 0 then (copy_statvfs st)\<lparr>f_flag := low32 (f_flag st) OR mount_flags\<rparr> else copy_statvfs st))
      (l\<lparr>lf_world := w\<rparr>)"
| opened: "open_op call = Some (path, mode, fi) \<Longrightarrow>
    px_open P (c_str path) (fi_flags fi) mode (lf_world l) = (fd, w) \<Longrightarrow> 0 \<le> sint fd \<Longrightarrow>
    lf_files l i = None \<Longrightarrow> i \<noteq> -1 \<Longrightarrow>
    local_op P filler b call l (Inr 0, Info_Filled (fi\<lparr>fi_fh := fh_of_id i\<rparr>))
      (l\<lparr>lf_files := (lf_files l)(i := Some fd), lf_world := w\<rparr>)"
| open_fails: "open_op call = Some (path, mode, fi) \<Longrightarrow>
    px_open P (c_str path) (fi_flags fi) mode (lf_world l) = (fd, w) \<Longrightarrow> sint fd < 0 \<Longrightarrow>
    local_op P filler b call l (negated (errno w), Info_Filled fi) (l\<lparr>lf_world := w\<rparr>)"
| closed: "px_close P (lf_fd fi l) (lf_world l) = (value, w) \<Longrightarrow>
    local_op P filler b (Do_Release path fi) l (status_code value w, Nothing_Filled)
      (l\<lparr>lf_files := (lf_files l)(id_of_fh (fi_fh fi) := None), lf_world := w\<rparr>)"
| pread: "px_pread P (lf_fd fi l) (replicate (unat n) 0) offset (lf_world l) = ((result, buffer), w) \<Longrightarrow>
    local_op P filler b (Do_Read path buf n offset fi) l
      (if sint result = -1 then negated (errno w) else Inr (ucast result), Bytes_Filled (fill result buffer buf))
      (l\<lparr>lf_world := w\<rparr>)"
| pwrite: "px_pwrite P (lf_fd fi l) (take (unat n) buf) offset (lf_world l) = (result, w) \<Longrightarrow>
    local_op P filler b (Do_Write path buf n offset fi) l
      (if sint result = -1 then negated (errno w) else Inr (ucast result), Nothing_Filled) (l\<lparr>lf_world := w\<rparr>)"
| dir_opened: "px_opendir P (c_str path) (lf_world l) = (d, w) \<Longrightarrow> d \<noteq> nullptr \<Longrightarrow>
    lf_dirs l i = None \<Longrightarrow> i \<noteq> -1 \<Longrightarrow>
    local_op P filler b (Do_Opendir path fi) l (Inr 0, Info_Filled (fi\<lparr>fi_fh := fh_of_id i\<rparr>))
      (l\<lparr>lf_dirs := (lf_dirs l)(i := Some d), lf_world := w\<rparr>)"
| dir_open_fails: "px_opendir P (c_str path) (lf_world l) = (nullptr, w) \<Longrightarrow>
    local_op P filler b (Do_Opendir path fi) l (negated (errno w), Info_Filled fi) (l\<lparr>lf_world := w\<rparr>)"
| dir_closed: "px_closedir P (lf_dir fi l) (lf_world l) = (value, w) \<Longrightarrow>
    local_op P filler b (Do_Releasedir path fi) l (status_code value w, Nothing_Filled)
      (l\<lparr>lf_dirs := (lf_dirs l)(id_of_fh (fi_fh fi) := None), lf_world := w\<rparr>)"
| dir_read: "lf_dirs l (id_of_fh (fi_fh fi)) = Some d \<Longrightarrow> listing P d es (lf_world l) w \<Longrightarrow>
    local_op P filler b (Do_Readdir path fi) l
      (Inr 0, Listing_Filled (fill_entries filler (map entry_of es) b)) (l\<lparr>lf_world := w\<rparr>)"
| dir_unknown: "lf_dirs l (id_of_fh (fi_fh fi)) = None \<Longrightarrow>
    local_op P filler b (Do_Readdir path fi) l (Inr (- EBADF), Listing_Filled b) l"

text \<open>A process that makes one call after the other; \<open>bs\<close> are the buffers of the listings.\<close>

inductive local_run ::
    "'w posix \<Rightarrow> 'b filler \<Rightarrow> 'b \<Rightarrow> fuse_call list \<Rightarrow> 'w local_fs \<Rightarrow> (i32 result \<times> 'b fuse_out) list
       \<Rightarrow> 'w local_fs \<Rightarrow> bool"
  for P :: "'w posix" and filler :: "'b filler" and b :: 'b
where
  no_calls: "local_run P filler b [] l [] l"
| next_call: "local_op P filler b call l out l1 \<Longrightarrow> local_run P filler b calls l1 outs l2 \<Longrightarrow>
    local_run P filler b (call # calls) l (out # outs) l2"

section \<open>Opening and closing through the worker\<close>

lemma completes_bind:
  "completes run x p' \<Longrightarrow> \<exists>cm'. run = (x, (cm', p')) \<and> idle cm'"
  by (auto simp: completes_def)

lemma closedir_remote:
  assumes idle: "idle cm" "rm_inbox p = []"
    and dir: "dh_lookup_overridden i (wk_dir_handler (rm_worker p)) = None"
    and run: "px_closedir P (dh_get_fd i (wk_dir_handler (rm_worker p))) (rm_world p) = (value, w)"
  shows "completes (cmd_closedir (worker_peer P android) i (cm, p)) (Inr (value = 0, errno w))
    (p\<lparr>rm_worker := (rm_worker p)\<lparr>wk_dir_handler := dh_forget i (wk_dir_handler (rm_worker p))\<rparr>,
       rm_world := w\<rparr>)"
  using completes_status [OF idle, where
      wk = "(rm_worker p)\<lparr>wk_dir_handler := dh_forget i (wk_dir_handler (rm_worker p))\<rparr>"] run dir
  by (auto simp: cmd_closedir_def ser_simps remote_simps dh_closedir_def dh_lookup_overridden_def)

text \<open>Reading an id that is in neither table.\<close>

lemma readdir_unknown_remote:
  assumes idle: "idle cm" "rm_inbox p = []"
    and dir: "dh_lookup_overridden i (wk_dir_handler (rm_worker p)) = None"
      "dh_lookup i (wk_dir_handler (rm_worker p)) = None"
  shows "completes (cmd_readdir (worker_peer P android) i n (cm, p)) (Inr ([], EBADF)) p"
proof -
  let ?m = "command_of cm ReadDir (be32 i @ be32 n)"
  have "dispatch P android ?m (rm_worker p, rm_world p)
      = (Inr (command_result ?m (ser_of (be32 EBADF))), (rm_worker p, rm_world p))"
    using dir by (simp add: remote_simps dh_readdir_def dh_lookup_overridden_def dh_get_fd_lookup ser_simps)
  from request_remote [OF idle do_command_result [OF this]]
  have "request (worker_peer P android) ReadDir (be32 i @ be32 n) (cm, p)
      = (Inr (command_result ?m (ser_of (be32 EBADF))),
         (after_call (Inr (command_result ?m (ser_of (be32 EBADF)))) cm, p))"
    by simp
  moreover have "read_entries (new_deserializer (be32 EBADF)) = Inr ([], de_cur [] (be32 EBADF))"
    using read_entries_bytes [of "[]" "[]" EBADF] by (simp add: new_deserializer_eq fits_def)
  ultimately show ?thesis
    using idle by (simp add: completes_def cmd_readdir_def ser_simps deser_simps fits_def)
qed

lemma open_callbacks:
  assumes m: "mounted client cm p sv" "split_path path = Inr (client, remote_path)"
    and path: "path \<noteq> ''/''" "path_fits remote_path"
    and run: "px_open P (c_str remote_path) (fi_flags fi) mode (rm_world p) = (fd, w)"
    and id: "(if 0 \<le> sint fd then fh_register fd (wk_file_handler (rm_worker p))
              else (-1, wk_file_handler (rm_worker p))) = (i, h)"
  shows "returns (zcfs_create (worker_peer P android) path mode fi (Some sv))
      (fst (open_return fi (Inr (i, errno w)))) (snd (open_return fi (Inr (i, errno w)))) client sv
      (p\<lparr>rm_worker := (rm_worker p)\<lparr>wk_file_handler := h\<rparr>, rm_world := w\<rparr>)"
    and "mode = DEFFILEMODE \<Longrightarrow> returns (zcfs_open (worker_peer P android) path fi (Some sv))
      (fst (open_return fi (Inr (i, errno w)))) (snd (open_return fi (Inr (i, errno w)))) client sv
      (p\<lparr>rm_worker := (rm_worker p)\<lparr>wk_file_handler := h\<rparr>, rm_world := w\<rparr>)"
proof -
  from completes_bind [OF open_remote [OF mounted_idle [OF m(1)] path(2) run id]]
  obtain cm' where "cmd_open (worker_peer P android) remote_path (fi_flags fi) mode (cm, p)
      = (Inr (i, errno w), (cm', p\<lparr>rm_worker := (rm_worker p)\<lparr>wk_file_handler := h\<rparr>, rm_world := w\<rparr>))"
    "idle cm'" by blast
  then show "returns (zcfs_create (worker_peer P android) path mode fi (Some sv))
      (fst (open_return fi (Inr (i, errno w)))) (snd (open_return fi (Inr (i, errno w)))) client sv
      (p\<lparr>rm_worker := (rm_worker p)\<lparr>wk_file_handler := h\<rparr>, rm_world := w\<rparr>)"
    and "mode = DEFFILEMODE \<Longrightarrow> returns (zcfs_open (worker_peer P android) path fi (Some sv))
      (fst (open_return fi (Inr (i, errno w)))) (snd (open_return fi (Inr (i, errno w)))) client sv
      (p\<lparr>rm_worker := (rm_worker p)\<lparr>wk_file_handler := h\<rparr>, rm_world := w\<rparr>)"
    unfolding zcfs_create_def zcfs_open_def if_not_P [OF path(1)]
    by (auto intro!: mounted_call [OF m])
qed

lemma opendir_callback:
  assumes m: "mounted client cm p sv" "split_path path = Inr (client, remote_path)"
    and path: "path \<noteq> ''/''" "path_fits remote_path"
    and run: "px_opendir P (c_str remote_path) (rm_world p) = (fd, w)"
    and id: "(if fd \<noteq> nullptr then dh_register fd (wk_dir_handler (rm_worker p))
              else (-1, wk_dir_handler (rm_worker p))) = (i, h)"
  shows "returns (zcfs_opendir (worker_peer P False) path fi (Some sv))
      (fst (open_return fi (Inr (i, errno w)))) (snd (open_return fi (Inr (i, errno w)))) client sv
      (p\<lparr>rm_worker := (rm_worker p)\<lparr>wk_dir_handler := h\<rparr>, rm_world := w\<rparr>)"
  using completes_bind [OF opendir_remote [OF mounted_idle [OF m(1)] path(2) run id]]
  unfolding zcfs_opendir_def if_not_P [OF path(1)] by (auto intro!: mounted_call [OF m])

lemma release_callback:
  assumes m: "mounted client cm p sv" "split_path path = Inr (client, remote_path)"
    and run: "px_close P (fh_get_fd (id_of_fh (fi_fh fi)) (wk_file_handler (rm_worker p))) (rm_world p) = (value, w)"
  shows "returns (zcfs_release (worker_peer P android) path fi (Some sv)) (status_return (value = 0, errno w)) ()
    client sv (p\<lparr>rm_worker := (rm_worker p)\<lparr>wk_file_handler :=
      fh_forget (id_of_fh (fi_fh fi)) (wk_file_handler (rm_worker p))\<rparr>, rm_world := w\<rparr>)"
  unfolding zcfs_release_def
  by (rule mounted_status [OF m]) (rule close_remote [OF mounted_idle [OF m(1)] run])

lemma releasedir_callback:
  assumes m: "mounted client cm p sv" "split_path path = Inr (client, remote_path)"
    and fh: "fi_fh fi \<noteq> VirtualRootDirFd"
    and dir: "dh_lookup_overridden (id_of_fh (fi_fh fi)) (wk_dir_handler (rm_worker p)) = None"
    and run: "px_closedir P (dh_get_fd (id_of_fh (fi_fh fi)) (wk_dir_handler (rm_worker p))) (rm_world p)
      = (value, w)"
  shows "returns (zcfs_releasedir (worker_peer P android) path fi (Some sv)) (status_return (value = 0, errno w)) ()
    client sv (p\<lparr>rm_worker := (rm_worker p)\<lparr>wk_dir_handler :=
      dh_forget (id_of_fh (fi_fh fi)) (wk_dir_handler (rm_worker p))\<rparr>, rm_world := w\<rparr>)"
  unfolding zcfs_releasedir_def if_not_P [OF fh]
  by (rule mounted_status [OF m]) (rule closedir_remote [OF mounted_idle [OF m(1)] dir run])

lemma readdir_unknown_callback:
  assumes m: "mounted client cm p sv" "split_path path = Inr (client, remote_path)"
    and fh: "fi_fh fi \<noteq> VirtualRootDirFd"
    and dir: "dh_lookup_overridden (id_of_fh (fi_fh fi)) (wk_dir_handler (rm_worker p)) = None"
      "dh_lookup (id_of_fh (fi_fh fi)) (wk_dir_handler (rm_worker p)) = None"
  shows "\<exists>run. zcfs_readdir (worker_peer P android) filler path buf fi (Some sv) = Some run
    \<and> returns run (Inr (- EBADF)) buf client sv p"
proof -
  obtain cm' where cm': "cmd_readdir (worker_peer P android) (id_of_fh (fi_fh fi)) MaxDirsReadPerCall (cm, p)
      = (Inr ([], EBADF), (cm', p))" "idle cm'"
    using completes_bind [OF readdir_unknown_remote [OF mounted_idle [OF m(1)] dir]] by blast
  then have "readdir_batches (worker_peer P android) filler (id_of_fh (fi_fh fi)) buf (cm, p)
      = Some ((Inr (- EBADF), buf), (cm', p))"
    by (subst readdir_batches.simps) (simp add: negated_def)
  with m fh cm'(2) show ?thesis
    by (auto simp: zcfs_readdir_def get_commander_def is_connected_def returns_def mounted_def idle_def
        error_handler_def)
qed

section \<open>The client as such a process\<close>

definition local_view :: "'w remote \<Rightarrow> 'w local_fs" where
  "local_view p = \<lparr>lf_files = (\<lambda>i. fh_lookup i (wk_file_handler (rm_worker p))),
     lf_dirs = (\<lambda>i. dh_lookup i (wk_dir_handler (rm_worker p))), lf_world = rm_world p\<rparr>"

definition tables_ok :: "'w remote \<Rightarrow> bool" where
  "tables_ok p \<longleftrightarrow> fh_ok (wk_file_handler (rm_worker p)) \<and> dh_ok (wk_dir_handler (rm_worker p))
     \<and> dh_overridden_fds (wk_dir_handler (rm_worker p)) = map_empty
     \<and> (\<forall>i. dh_lookup i (wk_dir_handler (rm_worker p)) \<noteq> Some nullptr)"

text \<open>\<open>room n p\<close>: the counters of the two tables do not reach their end in \<open>n\<close> calls.\<close>

definition counter_room :: "nat \<Rightarrow> i32 \<Rightarrow> bool" where
  "counter_room n i \<longleftrightarrow> 0 \<le> sint i \<and> sint i + int n < 2 ^ 31"

definition room :: "nat \<Rightarrow> 'w remote \<Rightarrow> bool" where
  "room n p \<longleftrightarrow> counter_room n (fh_next_fd_id (wk_file_handler (rm_worker p)))
     \<and> counter_room n (dh_next_fd_id (wk_dir_handler (rm_worker p)))"

text \<open>The name under which the client's path is mounted.\<close>

definition mounted_path :: "string \<Rightarrow> string \<Rightarrow> string" where
  "mounted_path client path = CHR ''/'' # client @ (if path = ''/'' then [] else path)"

fun on_client :: "string \<Rightarrow> fuse_call \<Rightarrow> fuse_call" where
  "on_client c (Do_Getattr path) = Do_Getattr (mounted_path c path)"
| "on_client c (Do_Mkdir path mode) = Do_Mkdir (mounted_path c path) mode"
| "on_client c (Do_Unlink path) = Do_Unlink (mounted_path c path)"
| "on_client c (Do_Rmdir path) = Do_Rmdir (mounted_path c path)"
| "on_client c (Do_Rename old_path new_path flags) = Do_Rename (mounted_path c old_path) (mounted_path c new_path) flags"
| "on_client c (Do_Chmod path mode) = Do_Chmod (mounted_path c path) mode"
| "on_client c (Do_Chown path owner grp) = Do_Chown (mounted_path c path) owner grp"
| "on_client c (Do_Truncate path len) = Do_Truncate (mounted_path c path) len"
| "on_client c (Do_Open path fi) = Do_Open (mounted_path c path) fi"
| "on_client c (Do_Read path buf n offset fi) = Do_Read (mounted_path c path) buf n offset fi"
| "on_client c (Do_Write path buf n offset fi) = Do_Write (mounted_path c path) buf n offset fi"
| "on_client c (Do_Statfs path) = Do_Statfs (mounted_path c path)"
| "on_client c (Do_Release path fi) = Do_Release (mounted_path c path) fi"
| "on_client c (Do_Opendir path fi) = Do_Opendir (mounted_path c path) fi"
| "on_client c (Do_Readdir path fi) = Do_Readdir (mounted_path c path) fi"
| "on_client c (Do_Releasedir path fi) = Do_Releasedir (mounted_path c path) fi"
| "on_client c (Do_Access path mode) = Do_Access (mounted_path c path) mode"
| "on_client c (Do_Create path mode fi) = Do_Create (mounted_path c path) mode fi"
| "on_client c (Do_Utimens path time0 time1) = Do_Utimens (mounted_path c path) time0 time1"

text \<open>
  The calls the kernel makes: absolute paths that fit into a message, sizes the buffer has, and for
  the two directory calls a handle \<open>opendir\<close> has given for the client.
\<close>

definition path_ok :: "string \<Rightarrow> bool" where
  "path_ok path \<longleftrightarrow> (\<exists>rest. path = CHR ''/'' # rest) \<and> length path < 2 ^ 30"

definition size_ok :: "u64 \<Rightarrow> u8 list \<Rightarrow> bool" where
  "size_ok n buf \<longleftrightarrow> unat n < 2 ^ 31 \<and> unat n \<le> length buf"

fun call_ok :: "fuse_call \<Rightarrow> bool" where
  "call_ok (Do_Getattr path) = path_ok path"
| "call_ok (Do_Mkdir path mode) = path_ok path"
| "call_ok (Do_Unlink path) = path_ok path"
| "call_ok (Do_Rmdir path) = path_ok path"
| "call_ok (Do_Rename old_path new_path flags) = (path_ok old_path \<and> path_ok new_path)"
| "call_ok (Do_Chmod path mode) = path_ok path"
| "call_ok (Do_Chown path owner grp) = path_ok path"
| "call_ok (Do_Truncate path len) = path_ok path"
| "call_ok (Do_Open path fi) = path_ok path"
| "call_ok (Do_Read path buf n offset fi) = (path_ok path \<and> size_ok n buf)"
| "call_ok (Do_Write path buf n offset fi) = (path_ok path \<and> size_ok n buf)"
| "call_ok (Do_Statfs path) = path_ok path"
| "call_ok (Do_Release path fi) = path_ok path"
| "call_ok (Do_Opendir path fi) = path_ok path"
| "call_ok (Do_Readdir path fi) = (path_ok path \<and> fi_fh fi \<noteq> VirtualRootDirFd)"
| "call_ok (Do_Releasedir path fi) = (path_ok path \<and> fi_fh fi \<noteq> VirtualRootDirFd)"
| "call_ok (Do_Access path mode) = path_ok path"
| "call_ok (Do_Create path mode fi) = path_ok path"
| "call_ok (Do_Utimens path time0 time1) = path_ok path"

text \<open>
  What the manual pages say of the kernel: a read stores at most as many bytes as were asked for, a
  write takes at most as many as it was given, and a directory has finitely many entries.
\<close>

definition kernel_behaves :: "'w posix \<Rightarrow> bool" where
  "kernel_behaves P \<longleftrightarrow>
     (\<forall>fd n offset w. case px_pread P fd (replicate (unat n) 0) offset w of
        ((result, buffer), _) \<Rightarrow> read_behaves n result buffer)
     \<and> (\<forall>fd bytes offset w. -1 \<le> sint (fst (px_pwrite P fd bytes offset w))
        \<and> sint (fst (px_pwrite P fd bytes offset w)) \<le> int (length bytes))
     \<and> (\<forall>d w. d \<noteq> nullptr \<longrightarrow> (\<exists>es w'. listing P d es w w' \<and> errno w' = 0
        \<and> (\<forall>e \<in> set es. length (d_name e) \<le> 255)))"

definition client_name :: "string \<Rightarrow> bool" where
  "client_name client \<longleftrightarrow> client \<noteq> [] \<and> CHR ''/'' \<notin> set client"

lemma mounted_path_splits:
  assumes "client_name client" "path_ok path"
  shows "split_path (mounted_path client path) = Inr (client, path)" "mounted_path client path \<noteq> ''/''"
proof -
  obtain rest where rest: "path = CHR ''/'' # rest" using assms(2) by (auto simp: path_ok_def)
  show "mounted_path client path \<noteq> ''/''" using assms(1) by (simp add: mounted_path_def client_name_def)
  show "split_path (mounted_path client path) = Inr (client, path)"
  proof (cases "rest = []")
    case True
    then show ?thesis using assms(1) by (simp add: rest mounted_path_def client_name_def split_path_client)
  next
    case False
    then show ?thesis using assms(1) by (simp add: rest mounted_path_def client_name_def split_path_file)
  qed
qed

lemma path_ok_fits: "path_ok path \<Longrightarrow> path_fits path" "path_ok path \<Longrightarrow> length path < 2 ^ 30"
  by (simp_all add: path_ok_def)

section \<open>One call\<close>

text \<open>
  The callback returns, the client is again connected with no request under way, what has happened on
  its machine is a step of the local process, and the other clients are as they were.
\<close>

definition simulates ::
    "'w posix \<Rightarrow> 'b filler \<Rightarrow> 'b \<Rightarrow> string \<Rightarrow> fuse_call \<Rightarrow> 'w remote \<Rightarrow> 'w remote server
       \<Rightarrow> ('w remote, 'b) fuse_answer \<Rightarrow> bool" where
  "simulates P filler b client call p sv run \<longleftrightarrow>
     (\<exists>r out cm' p' sv'. run = Some ((r, out), Some sv') \<and> mounted client cm' p' sv'
        \<and> local_op P filler b call (local_view p) (r, out) (local_view p')
        \<and> tables_ok p' \<and> (\<forall>n. room (Suc n) p \<longrightarrow> room n p')
        \<and> (\<forall>other. other \<noteq> client \<longrightarrow>
             map_find other (sv_commanders sv') = map_find other (sv_commanders sv)))"

lemma simulates_returns:
  assumes "returns run r out client sv p'" "rm_inbox p' = []" "tables_ok p'"
    and "\<And>n. room (Suc n) p \<Longrightarrow> room n p'"
    and "local_op P filler b call (local_view p) (error_handler r, f out) (local_view p')"
  shows "simulates P filler b client call p sv (returned f run)"
proof -
  obtain cm' where cm': "idle cm'" and run: "run = ((error_handler r, out), Some (put_commander client (cm', p') sv))"
    using assms(1) by (auto simp: returns_def)
  show ?thesis
    unfolding simulates_def
  proof (intro exI conjI)
    show "returned f run = Some ((error_handler r, f out), Some (put_commander client (cm', p') sv))"
      by (simp add: run returned_def)
    show "mounted client cm' p' (put_commander client (cm', p') sv)" using cm' assms(2) by (rule mounted_put)
  qed (use assms(3-5) in \<open>auto simp: put_commander_def map_find_assign\<close>)
qed

lemma negated_handled [simp]: "error_handler (negated e) = negated e"
  by (simp add: negated_def error_handler_def)

lemma status_handled [simp]: "error_handler (status_return (value = 0, errno w)) = status_code value w"
  by (simp add: status_return_def status_code_def error_handler_def [of "Inr 0"])

lemma room_less: "room (Suc n) p \<Longrightarrow> room n p"
  by (simp add: room_def counter_room_def)

text \<open>The calls that leave the tables alone.\<close>

lemma world_only:
  "tables_ok (p\<lparr>rm_world := w\<rparr>) = tables_ok p" "room n (p\<lparr>rm_world := w\<rparr>) = room n p"
  "local_view (p\<lparr>rm_world := w\<rparr>) = (local_view p)\<lparr>lf_world := w\<rparr>"
  "lf_world (local_view p) = rm_world p"
  by (simp_all add: tables_ok_def room_def local_view_def)

lemma view_lookups:
  "lf_fd fi (local_view p) = fh_get_fd (id_of_fh (fi_fh fi)) (wk_file_handler (rm_worker p))"
  "lf_dir fi (local_view p) = dh_get_fd (id_of_fh (fi_fh fi)) (wk_dir_handler (rm_worker p))"
  by (simp_all add: lf_fd_def lf_dir_def local_view_def fh_get_fd_lookup dh_get_fd_lookup)

lemma simulates_world:
  assumes "mounted client cm p sv" "tables_ok p" "returns run r out client sv (p\<lparr>rm_world := w\<rparr>)"
    and "local_op P filler b call (local_view p) (error_handler r, f out) ((local_view p)\<lparr>lf_world := w\<rparr>)"
  shows "simulates P filler b client call p sv (returned f run)"
  using assms(2,4) mounted_idle(2) [OF assms(1)]
  by (intro simulates_returns [OF assms(3)]) (simp_all add: world_only room_less)

lemma simulates_status:
  assumes "mounted client cm p sv" "tables_ok p" "status_op P call = Some f" "does f run client sv p"
  shows "simulates P filler b client call p sv (plain run)"
proof -
  obtain v w where f: "f (rm_world p) = (v, w)" by (rule prod.exhaust)
  with assms(4) have run: "returns run (status_return (v = 0, errno w)) () client sv (p\<lparr>rm_world := w\<rparr>)"
    by (simp add: does_def)
  have "local_op P filler b call (local_view p) (status_code v w, Nothing_Filled) ((local_view p)\<lparr>lf_world := w\<rparr>)"
    using f by (intro local_op.status [OF assms(3)]) (simp add: world_only)
  then show ?thesis by (intro simulates_world [OF assms(1,2) run]) (simp only: status_handled)
qed

text \<open>The calls that open or close.\<close>

lemma room_register: "room (Suc n) p \<Longrightarrow> id_room (fh_next_fd_id (wk_file_handler (rm_worker p)))"
    "room (Suc n) p \<Longrightarrow> id_room (dh_next_fd_id (wk_dir_handler (rm_worker p)))"
  by (simp_all add: room_def counter_room_def id_room_def)

lemma counter_room_next: "id_room i \<Longrightarrow> counter_room (Suc n) i \<Longrightarrow> counter_room n (i + 1)"
  by (simp add: counter_room_def sint_next)

abbreviation with_files :: "file_handler \<Rightarrow> 'w world \<Rightarrow> 'w remote \<Rightarrow> 'w remote" where
  "with_files h w p \<equiv> p\<lparr>rm_worker := (rm_worker p)\<lparr>wk_file_handler := h\<rparr>, rm_world := w\<rparr>"

abbreviation with_dirs :: "dir_handler \<Rightarrow> 'w world \<Rightarrow> 'w remote \<Rightarrow> 'w remote" where
  "with_dirs h w p \<equiv> p\<lparr>rm_worker := (rm_worker p)\<lparr>wk_dir_handler := h\<rparr>, rm_world := w\<rparr>"

lemma files_registered:
  assumes "tables_ok p" "room 1 p"
  shows "tables_ok (with_files (snd (fh_register fd (wk_file_handler (rm_worker p)))) w p)"
    and "room (Suc n) p \<Longrightarrow> room n (with_files (snd (fh_register fd (wk_file_handler (rm_worker p)))) w p)"
    and "local_view (with_files (snd (fh_register fd (wk_file_handler (rm_worker p)))) w p)
      = (local_view p)\<lparr>lf_files := (lf_files (local_view p))(fh_next_fd_id (wk_file_handler (rm_worker p)) := Some fd),
          lf_world := w\<rparr>"
    and "lf_files (local_view p) (fh_next_fd_id (wk_file_handler (rm_worker p))) = None"
    and "fh_next_fd_id (wk_file_handler (rm_worker p)) \<noteq> -1"
proof -
  have ok: "fh_ok (wk_file_handler (rm_worker p))" using assms(1) by (simp add: tables_ok_def)
  have room: "id_room (fh_next_fd_id (wk_file_handler (rm_worker p)))" using room_register(1) [of 0 p] assms(2) by simp
  show "tables_ok (with_files (snd (fh_register fd (wk_file_handler (rm_worker p)))) w p)"
    using assms(1) fh.alloc_ok [OF ok room] by (simp add: tables_ok_def)
  show "room n (with_files (snd (fh_register fd (wk_file_handler (rm_worker p)))) w p)" if "room (Suc n) p"
    using that counter_room_next [OF room]
    by (auto simp: room_def fh.alloc_next counter_room_def)
  show "local_view (with_files (snd (fh_register fd (wk_file_handler (rm_worker p)))) w p)
      = (local_view p)\<lparr>lf_files := (lf_files (local_view p))(fh_next_fd_id (wk_file_handler (rm_worker p)) := Some fd),
          lf_world := w\<rparr>"
    by (auto simp: local_view_def fh.alloc_lookup [OF ok])
  show "lf_files (local_view p) (fh_next_fd_id (wk_file_handler (rm_worker p))) = None"
    using fh.lookup_unissued [OF ok] by (simp add: local_view_def)
  show "fh_next_fd_id (wk_file_handler (rm_worker p)) \<noteq> -1" using room by (auto simp: id_room_def)
qed

lemma dirs_registered:
  assumes "tables_ok p" "room 1 p" "d \<noteq> nullptr"
  shows "tables_ok (with_dirs (snd (dh_register d (wk_dir_handler (rm_worker p)))) w p)"
    and "room (Suc n) p \<Longrightarrow> room n (with_dirs (snd (dh_register d (wk_dir_handler (rm_worker p)))) w p)"
    and "local_view (with_dirs (snd (dh_register d (wk_dir_handler (rm_worker p)))) w p)
      = (local_view p)\<lparr>lf_dirs := (lf_dirs (local_view p))(dh_next_fd_id (wk_dir_handler (rm_worker p)) := Some d),
          lf_world := w\<rparr>"
    and "lf_dirs (local_view p) (dh_next_fd_id (wk_dir_handler (rm_worker p))) = None"
    and "dh_next_fd_id (wk_dir_handler (rm_worker p)) \<noteq> -1"
proof -
  have ok: "dh_ok (wk_dir_handler (rm_worker p))" using assms(1) by (simp add: tables_ok_def)
  have room: "id_room (dh_next_fd_id (wk_dir_handler (rm_worker p)))" using room_register(2) [of 0 p] assms(2) by simp
  have fixed: "dh_overridden_fds (snd (dh_register d h)) = dh_overridden_fds h" for h
    by (simp add: dh_register_def Let_def)
  show "tables_ok (with_dirs (snd (dh_register d (wk_dir_handler (rm_worker p)))) w p)"
    using assms(1,3) dh.alloc_ok [OF ok room] by (auto simp: tables_ok_def fixed dh.alloc_lookup [OF ok])
  show "room n (with_dirs (snd (dh_register d (wk_dir_handler (rm_worker p)))) w p)" if "room (Suc n) p"
    using that counter_room_next [OF room]
    by (auto simp: room_def dh.alloc_next counter_room_def)
  show "local_view (with_dirs (snd (dh_register d (wk_dir_handler (rm_worker p)))) w p)
      = (local_view p)\<lparr>lf_dirs := (lf_dirs (local_view p))(dh_next_fd_id (wk_dir_handler (rm_worker p)) := Some d),
          lf_world := w\<rparr>"
    by (auto simp: local_view_def dh.alloc_lookup [OF ok])
  show "lf_dirs (local_view p) (dh_next_fd_id (wk_dir_handler (rm_worker p))) = None"
    using dh.lookup_unissued [OF ok] by (simp add: local_view_def)
  show "dh_next_fd_id (wk_dir_handler (rm_worker p)) \<noteq> -1" using room by (auto simp: id_room_def)
qed

lemma files_forgotten:
  assumes "tables_ok p"
  shows "tables_ok (with_files (fh_forget i (wk_file_handler (rm_worker p))) w p)"
    and "room n (with_files (fh_forget i (wk_file_handler (rm_worker p))) w p) = room n p"
    and "local_view (with_files (fh_forget i (wk_file_handler (rm_worker p))) w p)
      = (local_view p)\<lparr>lf_files := (lf_files (local_view p))(i := None), lf_world := w\<rparr>"
  using assms
  by (auto simp: tables_ok_def room_def local_view_def fh.drop_ok fh.drop_next fh.drop_lookup)

lemma dirs_forgotten:
  assumes "tables_ok p"
  shows "tables_ok (with_dirs (dh_forget i (wk_dir_handler (rm_worker p))) w p)"
    and "room n (with_dirs (dh_forget i (wk_dir_handler (rm_worker p))) w p) = room n p"
    and "local_view (with_dirs (dh_forget i (wk_dir_handler (rm_worker p))) w p)
      = (local_view p)\<lparr>lf_dirs := (lf_dirs (local_view p))(i := None), lf_world := w\<rparr>"
proof -
  have "dh_overridden_fds (dh_forget i h) = dh_overridden_fds h" for h by (simp add: dh_forget_def)
  then show "tables_ok (with_dirs (dh_forget i (wk_dir_handler (rm_worker p))) w p)"
    and "room n (with_dirs (dh_forget i (wk_dir_handler (rm_worker p))) w p) = room n p"
    and "local_view (with_dirs (dh_forget i (wk_dir_handler (rm_worker p))) w p)
      = (local_view p)\<lparr>lf_dirs := (lf_dirs (local_view p))(i := None), lf_world := w\<rparr>"
    using assms by (auto simp: tables_ok_def room_def local_view_def dh.drop_ok dh.drop_next dh.drop_lookup)
qed

lemma same_files [simp]:
  "with_files (wk_file_handler (rm_worker p)) w p = p\<lparr>rm_world := w\<rparr>"
  "with_dirs (wk_dir_handler (rm_worker p)) w p = p\<lparr>rm_world := w\<rparr>"
  by (cases p; cases "rm_worker p"; simp)+

lemma open_return_cases [simp]:
  "open_return fi (Inr (-1, e)) = (negated e, fi)"
  "i \<noteq> -1 \<Longrightarrow> open_return fi (Inr (i, e)) = (Inr 0, fi\<lparr>fi_fh := fh_of_id i\<rparr>)"
  by (simp_all add: open_return_def)

lemma success_handled [simp]: "error_handler (Inr n) = Inr n"
  by (simp add: error_handler_def)

lemma simulates_open:
  assumes m: "mounted client cm p sv" and tables: "tables_ok p" "room 1 p"
    and call: "open_op call = Some (path, mode, fi)"
    and run: "\<And>fd w i h. px_open P (c_str path) (fi_flags fi) mode (rm_world p) = (fd, w) \<Longrightarrow>
      (if 0 \<le> sint fd then fh_register fd (wk_file_handler (rm_worker p))
       else (-1, wk_file_handler (rm_worker p))) = (i, h) \<Longrightarrow>
      returns run (fst (open_return fi (Inr (i, errno w)))) (snd (open_return fi (Inr (i, errno w)))) client sv
        (with_files h w p)"
  shows "simulates P filler b client call p sv (returned Info_Filled run)"
proof -
  obtain fd w where fd: "px_open P (c_str path) (fi_flags fi) mode (rm_world p) = (fd, w)" by (rule prod.exhaust)
  let ?i = "fh_next_fd_id (wk_file_handler (rm_worker p))"
    and ?h = "snd (fh_register fd (wk_file_handler (rm_worker p)))"
  note [simp] = mounted_idle(2) [OF m]
  show ?thesis
  proof (cases "0 \<le> sint fd")
    case True
    note new = files_registered [OF tables]
    have run1: "returns run (Inr 0) (fi\<lparr>fi_fh := fh_of_id ?i\<rparr>) client sv (with_files ?h w p)"
      using run [OF fd, of ?i ?h] True new(5) by (simp add: fh_register_def Let_def)
    have op: "local_op P filler b call (local_view p) (Inr 0, Info_Filled (fi\<lparr>fi_fh := fh_of_id ?i\<rparr>))
        (local_view (with_files ?h w p))"
      unfolding new(3) by (rule local_op.opened [OF call _ True new(4,5)]) (simp add: world_only fd)
    show ?thesis by (rule simulates_returns [OF run1 _ new(1,2)]) (simp_all add: op)
  next
    case False
    have run1: "returns run (negated (errno w)) fi client sv (p\<lparr>rm_world := w\<rparr>)"
      using run [OF fd, of "-1" "wk_file_handler (rm_worker p)"] False by simp
    have op: "local_op P filler b call (local_view p) (negated (errno w), Info_Filled fi)
        ((local_view p)\<lparr>lf_world := w\<rparr>)"
      using False fd by (intro local_op.open_fails [OF call]) (simp_all add: world_only not_le)
    show ?thesis by (rule simulates_world [OF m tables(1) run1]) (simp add: op)
  qed
qed

lemma simulates_opendir:
  assumes m: "mounted client cm p sv" and tables: "tables_ok p" "room 1 p"
    and run: "\<And>fd w i h. px_opendir P (c_str path) (rm_world p) = (fd, w) \<Longrightarrow>
      (if fd \<noteq> nullptr then dh_register fd (wk_dir_handler (rm_worker p))
       else (-1, wk_dir_handler (rm_worker p))) = (i, h) \<Longrightarrow>
      returns run (fst (open_return fi (Inr (i, errno w)))) (snd (open_return fi (Inr (i, errno w)))) client sv
        (with_dirs h w p)"
  shows "simulates P filler b client (Do_Opendir path fi) p sv (returned Info_Filled run)"
proof -
  obtain d w where d: "px_opendir P (c_str path) (rm_world p) = (d, w)" by (rule prod.exhaust)
  let ?i = "dh_next_fd_id (wk_dir_handler (rm_worker p))"
    and ?h = "snd (dh_register d (wk_dir_handler (rm_worker p)))"
  note [simp] = mounted_idle(2) [OF m]
  show ?thesis
  proof (cases "d = nullptr")
    case False
    note new = dirs_registered [OF tables False]
    have run1: "returns run (Inr 0) (fi\<lparr>fi_fh := fh_of_id ?i\<rparr>) client sv (with_dirs ?h w p)"
      using run [OF d, of ?i ?h] False new(5) by (simp add: dh_register_def Let_def)
    have op: "local_op P filler b (Do_Opendir path fi) (local_view p)
        (Inr 0, Info_Filled (fi\<lparr>fi_fh := fh_of_id ?i\<rparr>)) (local_view (with_dirs ?h w p))"
      unfolding new(3) by (rule local_op.dir_opened [OF _ False new(4,5)]) (simp add: world_only d)
    show ?thesis by (rule simulates_returns [OF run1 _ new(1,2)]) (simp_all add: op)
  next
    case True
    have run1: "returns run (negated (errno w)) fi client sv (p\<lparr>rm_world := w\<rparr>)"
      using run [OF d, of "-1" "wk_dir_handler (rm_worker p)"] True by simp
    have op: "local_op P filler b (Do_Opendir path fi) (local_view p) (negated (errno w), Info_Filled fi)
        ((local_view p)\<lparr>lf_world := w\<rparr>)"
      using True d by (intro local_op.dir_open_fails) (simp_all add: world_only)
    show ?thesis by (rule simulates_world [OF m tables(1) run1]) (simp add: op)
  qed
qed

lemma simulates_close:
  assumes m: "mounted client cm p sv" and tables: "tables_ok p"
    and run: "\<And>value w. px_close P (fh_get_fd (id_of_fh (fi_fh fi)) (wk_file_handler (rm_worker p))) (rm_world p)
        = (value, w) \<Longrightarrow>
      returns run (status_return (value = 0, errno w)) () client sv
        (with_files (fh_forget (id_of_fh (fi_fh fi)) (wk_file_handler (rm_worker p))) w p)"
  shows "simulates P filler b client (Do_Release path fi) p sv (plain run)"
proof -
  obtain v w where v: "px_close P (fh_get_fd (id_of_fh (fi_fh fi)) (wk_file_handler (rm_worker p))) (rm_world p)
      = (v, w)" by (rule prod.exhaust)
  have op: "local_op P filler b (Do_Release path fi) (local_view p) (status_code v w, Nothing_Filled)
      (local_view (with_files (fh_forget (id_of_fh (fi_fh fi)) (wk_file_handler (rm_worker p))) w p))"
    unfolding files_forgotten(3) [OF tables] by (rule local_op.closed) (simp add: view_lookups world_only v)
  show ?thesis
    by (rule simulates_returns [OF run [OF v]])
      (simp_all add: files_forgotten [OF tables] mounted_idle(2) [OF m] room_less op [unfolded files_forgotten(3) [OF tables]])
qed

lemma simulates_closedir:
  assumes m: "mounted client cm p sv" and tables: "tables_ok p"
    and run: "\<And>value w. px_closedir P (dh_get_fd (id_of_fh (fi_fh fi)) (wk_dir_handler (rm_worker p))) (rm_world p)
        = (value, w) \<Longrightarrow>
      returns run (status_return (value = 0, errno w)) () client sv
        (with_dirs (dh_forget (id_of_fh (fi_fh fi)) (wk_dir_handler (rm_worker p))) w p)"
  shows "simulates P filler b client (Do_Releasedir path fi) p sv (plain run)"
proof -
  obtain v w where v: "px_closedir P (dh_get_fd (id_of_fh (fi_fh fi)) (wk_dir_handler (rm_worker p))) (rm_world p)
      = (v, w)" by (rule prod.exhaust)
  have op: "local_op P filler b (Do_Releasedir path fi) (local_view p) (status_code v w, Nothing_Filled)
      (local_view (with_dirs (dh_forget (id_of_fh (fi_fh fi)) (wk_dir_handler (rm_worker p))) w p))"
    unfolding dirs_forgotten(3) [OF tables] by (rule local_op.dir_closed) (simp add: view_lookups world_only v)
  show ?thesis
    by (rule simulates_returns [OF run [OF v]])
      (simp_all add: dirs_forgotten [OF tables] mounted_idle(2) [OF m] room_less op [unfolded dirs_forgotten(3) [OF tables]])
qed

lemma same_world: "p\<lparr>rm_world := rm_world p\<rparr> = p"
  by (cases p) simp

lemma simulates_readdir:
  assumes m: "mounted client cm p sv" "split_path path' = Inr (client, path)" and tables: "tables_ok p"
    and fh: "fi_fh fi \<noteq> VirtualRootDirFd" and filler: "never_full filler" and kernel: "kernel_behaves P"
  shows "simulates P filler b client (Do_Readdir path fi) p sv
    (zcfs_operations (worker_peer P android) filler b (Do_Readdir path' fi) (Some sv))"
proof -
  let ?i = "id_of_fh (fi_fh fi)"
  have fixed: "dh_lookup_overridden ?i (wk_dir_handler (rm_worker p)) = None"
    using tables by (simp add: tables_ok_def dh_lookup_overridden_def map_empty_def)
  show ?thesis
  proof (cases "dh_lookup ?i (wk_dir_handler (rm_worker p))")
    case None
    obtain run where run: "zcfs_readdir (worker_peer P android) filler path' b fi (Some sv) = Some run"
      "returns run (Inr (- EBADF)) b client sv (p\<lparr>rm_world := rm_world p\<rparr>)"
      using readdir_unknown_callback [OF m fh fixed None, of P android filler b] unfolding same_world by blast
    have op: "local_op P filler b (Do_Readdir path fi) (local_view p) (Inr (- EBADF), Listing_Filled b) (local_view p)"
      using None by (intro local_op.dir_unknown) (simp add: local_view_def)
    have same: "(local_view p)\<lparr>lf_world := rm_world p\<rparr> = local_view p" by (simp add: local_view_def)
    have "simulates P filler b client (Do_Readdir path fi) p sv (returned Listing_Filled run)"
      by (rule simulates_world [OF m(1) tables run(2)]) (simp only: same success_handled op)
    then show ?thesis by (simp add: run(1))
  next
    case (Some d)
    then have d: "d \<noteq> nullptr" using tables by (auto simp: tables_ok_def)
    obtain es w where es: "listing P d es (rm_world p) w" "errno w = 0" "\<forall>e \<in> set es. length (d_name e) \<le> 255"
      using kernel d unfolding kernel_behaves_def by blast
    obtain run where run: "zcfs_readdir (worker_peer P android) filler path' b fi (Some sv) = Some run"
      "returns run (Inr 0) (fill_entries filler (map entry_of es) b) client sv (p\<lparr>rm_world := w\<rparr>)"
      using zcfs_readdir_remote [OF m fh fixed Some d filler es] by blast
    have op: "local_op P filler b (Do_Readdir path fi) (local_view p)
        (Inr 0, Listing_Filled (fill_entries filler (map entry_of es) b)) ((local_view p)\<lparr>lf_world := w\<rparr>)"
      by (rule local_op.dir_read [OF _ es(1) [folded world_only(4)]]) (simp add: local_view_def Some)
    have "simulates P filler b client (Do_Readdir path fi) p sv (returned Listing_Filled run)"
      by (rule simulates_world [OF m(1) tables run(2)]) (simp only: success_handled op)
    then show ?thesis by (simp add: run(1))
  qed
qed

lemma size_ok_narrow: "size_ok n buf \<Longrightarrow> unat (ucast n :: u32) = unat n"
  by (simp add: size_ok_def unsigned_ucast_eq take_bit_nat_eq_self)

lemma simulates_pread:
  assumes m: "mounted client cm p sv" "split_path path' = Inr (client, path)" and tables: "tables_ok p"
    and len: "size_ok n buf" and kernel: "kernel_behaves P"
  shows "simulates P filler b client (Do_Read path buf n offset fi) p sv
    (zcfs_operations (worker_peer P android) filler b (Do_Read path' buf n offset fi) (Some sv))"
proof -
  have n: "unat (ucast n :: u32) = unat n" using len by (rule size_ok_narrow)
  obtain result buffer w where run: "px_pread P (lf_fd fi (local_view p)) (replicate (unat n) 0) offset (rm_world p)
      = ((result, buffer), w)" by (metis prod.exhaust)
  have behaves: "read_behaves (ucast n) result buffer"
    using kernel run n unfolding kernel_behaves_def by (metis (no_types, lifting) case_prod_conv)
  have "px_pread P (fh_get_fd (id_of_fh (fi_fh fi)) (wk_file_handler (rm_worker p)))
      (replicate (unat (ucast n :: u32)) 0) offset (rm_world p) = ((result, buffer), w)"
    using run by (simp only: n view_lookups)
  from zcfs_read_remote [OF m behaves _ _ this, of buf android] len
  have out: "returns (zcfs_read (worker_peer P android) path' buf n offset fi (Some sv))
      (if sint result = -1 then negated (errno w) else Inr (ucast result)) (fill result buffer buf)
      client sv (p\<lparr>rm_world := w\<rparr>)" by (simp add: n size_ok_def)
  have op: "local_op P filler b (Do_Read path buf n offset fi) (local_view p)
      (if sint result = -1 then negated (errno w) else Inr (ucast result), Bytes_Filled (fill result buffer buf))
      ((local_view p)\<lparr>lf_world := w\<rparr>)"
    by (rule local_op.pread) (simp only: world_only run)
  have "simulates P filler b client (Do_Read path buf n offset fi) p sv
      (returned Bytes_Filled (zcfs_read (worker_peer P android) path' buf n offset fi (Some sv)))"
    by (rule simulates_world [OF m(1) tables out]) (use op in \<open>simp split: if_splits\<close>)
  then show ?thesis by simp
qed

lemma simulates_pwrite:
  assumes m: "mounted client cm p sv" "split_path path' = Inr (client, path)" and tables: "tables_ok p"
    and len: "size_ok n buf" and kernel: "kernel_behaves P"
  shows "simulates P filler b client (Do_Write path buf n offset fi) p sv
    (zcfs_operations (worker_peer P android) filler b (Do_Write path' buf n offset fi) (Some sv))"
proof -
  have n: "unat (ucast n :: u32) = unat n" using len by (rule size_ok_narrow)
  let ?r = "px_pwrite P (lf_fd fi (local_view p)) (take (unat n) buf) offset (rm_world p)"
  obtain result w where run: "?r = (result, w)" by (rule prod.exhaust)
  have "-1 \<le> sint (fst ?r) \<and> sint (fst ?r) \<le> int (length (take (unat n) buf))"
    using kernel unfolding kernel_behaves_def by blast
  then have "read_behaves (ucast n) result (replicate (unat n) 0)"
    using len n by (simp add: run read_behaves_def size_ok_def)
  moreover have "unat (ucast n :: u32) < 2 ^ 31" using len by (simp add: n size_ok_def)
  ultimately have value_eq: "value_return (ucast result, errno w)
      = (if sint result = -1 then negated (errno w) else Inr (ucast result))" by (rule read_return)
  have "px_pwrite P (fh_get_fd (id_of_fh (fi_fh fi)) (wk_file_handler (rm_worker p)))
      (take (unat (ucast n :: u32)) buf) offset (rm_world p) = (result, w)"
    using run by (simp only: n view_lookups)
  from zcfs_write_remote [OF m _ _ this, of android] len
  have out: "returns (zcfs_write (worker_peer P android) path' buf n offset fi (Some sv))
      (if sint result = -1 then negated (errno w) else Inr (ucast result)) () client sv (p\<lparr>rm_world := w\<rparr>)"
    by (simp add: n size_ok_def value_eq)
  have op: "local_op P filler b (Do_Write path buf n offset fi) (local_view p)
      (if sint result = -1 then negated (errno w) else Inr (ucast result), Nothing_Filled)
      ((local_view p)\<lparr>lf_world := w\<rparr>)"
    by (rule local_op.pwrite) (simp only: world_only run)
  have "simulates P filler b client (Do_Write path buf n offset fi) p sv
      (plain (zcfs_write (worker_peer P android) path' buf n offset fi (Some sv)))"
    by (rule simulates_world [OF m(1) tables out]) (use op in \<open>simp split: if_splits\<close>)
  then show ?thesis by simp
qed

lemma simulates_getattr:
  assumes m: "mounted client cm p sv" "split_path path' = Inr (client, path)" and tables: "tables_ok p"
    and path: "path' \<noteq> ''/''" "path_fits path"
  shows "simulates P filler b client (Do_Getattr path) p sv
    (zcfs_operations (worker_peer P android) filler b (Do_Getattr path') (Some sv))"
proof -
  obtain v st w where run: "px_stat P (c_str path) (px_stack_stat P (rm_world p)) (rm_world p) = ((v, st), w)"
    by (metis prod.exhaust)
  note out = zcfs_getattr_remote [OF m path run, of android]
  have code: "error_handler (if v = 0 then Inr 0 else negated (errno w)) = status_code v w"
    by (simp add: status_code_def)
  have "simulates P filler b client (Do_Getattr path) p sv
      (returned Stat_Filled (zcfs_getattr (worker_peer P android) path' (Some sv)))"
    by (rule simulates_world [OF m(1) tables out], unfold code, rule local_op.getattr) (simp only: world_only run)
  then show ?thesis by simp
qed

lemma simulates_statfs:
  assumes m: "mounted client cm p sv" "split_path path' = Inr (client, path)" and tables: "tables_ok p"
    and path: "path' \<noteq> ''/''" "path_fits path"
  shows "simulates P filler b client (Do_Statfs path) p sv
    (zcfs_operations (worker_peer P android) filler b (Do_Statfs path') (Some sv))"
proof -
  obtain v st w where run: "px_statvfs P (c_str path) (px_stack_statvfs P (rm_world p)) (rm_world p) = ((v, st), w)"
    by (metis prod.exhaust)
  note out = zcfs_statfs_remote [OF m path run, of android]
  have code: "error_handler (if v = 0 then Inr 0 else negated (errno w)) = status_code v w"
    by (simp add: status_code_def)
  have "simulates P filler b client (Do_Statfs path) p sv
      (returned Statvfs_Filled (zcfs_statfs (worker_peer P android) path' (Some sv)))"
    by (rule simulates_world [OF m(1) tables out], unfold code, rule local_op.statfs) (simp only: world_only run)
  then show ?thesis by simp
qed

text \<open>Every call.\<close>

lemma operations_simulate:
  assumes kernel: "kernel_behaves P" and filler: "never_full filler" and name: "client_name client"
    and m: "mounted client cm p sv" and tables: "tables_ok p" "room 1 p" and call: "call_ok call"
  shows "simulates P filler b client call p sv
    (zcfs_operations (worker_peer P False) filler b (on_client client call) (Some sv))"
proof -
  note path = mounted_path_splits [OF name] and fits = path_ok_fits
  note status = simulates_status [OF m tables(1)] and remote = path_callbacks_remote [OF m path(1)]
  show ?thesis
  proof (cases call)
    case (Do_Open path fi)
    with call show ?thesis
      by (simp only: on_client.simps zcfs_operations.simps call_ok.simps)
        (rule simulates_open [OF m tables open_op.simps(1)], rule open_callbacks(2) [OF m path fits(1)], simp_all)
  next
    case (Do_Create path mode fi)
    with call show ?thesis
      by (simp only: on_client.simps zcfs_operations.simps call_ok.simps)
        (rule simulates_open [OF m tables open_op.simps(2)], rule open_callbacks(1) [OF m path fits(1)], simp_all)
  next
    case (Do_Opendir path fi)
    with call show ?thesis
      by (simp only: on_client.simps zcfs_operations.simps call_ok.simps)
        (rule simulates_opendir [OF m tables], rule opendir_callback [OF m path fits(1)], simp_all)
  next
    case (Do_Release path fi)
    with call show ?thesis
      by (simp only: on_client.simps zcfs_operations.simps call_ok.simps)
        (rule simulates_close [OF m tables(1)], rule release_callback [OF m path(1)], simp_all)
  next
    case (Do_Releasedir path fi)
    have "dh_lookup_overridden i (wk_dir_handler (rm_worker p)) = None" for i
      using tables(1) by (simp add: tables_ok_def dh_lookup_overridden_def map_empty_def)
    with Do_Releasedir call show ?thesis
      by (simp only: on_client.simps zcfs_operations.simps call_ok.simps)
        (rule simulates_closedir [OF m tables(1)], rule releasedir_callback [OF m path(1)], simp_all)
  next
    case (Do_Readdir path fi)
    with call show ?thesis
      by (simp only: on_client.simps call_ok.simps)
        (blast intro: simulates_readdir [OF m path(1) tables(1) _ filler kernel])
  next
    case (Do_Read path buf n offset fi)
    with call show ?thesis
      by (simp only: on_client.simps call_ok.simps) (blast intro: simulates_pread [OF m path(1) tables(1) _ kernel])
  next
    case (Do_Write path buf n offset fi)
    with call show ?thesis
      by (simp only: on_client.simps call_ok.simps) (blast intro: simulates_pwrite [OF m path(1) tables(1) _ kernel])
  next
    case (Do_Getattr path)
    with call show ?thesis
      by (simp only: on_client.simps call_ok.simps) (blast intro: simulates_getattr [OF m path(1) tables(1) path(2) fits(1)])
  next
    case (Do_Statfs path)
    with call show ?thesis
      by (simp only: on_client.simps call_ok.simps) (blast intro: simulates_statfs [OF m path(1) tables(1) path(2) fits(1)])
  next
    case (Do_Rename old_path new_path flags)
    with call show ?thesis
      by (simp only: on_client.simps zcfs_operations.simps call_ok.simps)
        (rule status [OF status_op.simps(4)], blast intro: zcfs_rename_remote [OF m path(1) path(1) fits])
  qed (insert call, simp only: on_client.simps zcfs_operations.simps call_ok.simps,
      rule status, rule status_op.simps, rule remote, assumption, erule fits(1), (erule path(2))?)+
qed

section \<open>Runs\<close>

fun fuse_run ::
    "'p peer \<Rightarrow> 'b filler \<Rightarrow> 'b \<Rightarrow> fuse_call list \<Rightarrow> 'p zcfs
       \<Rightarrow> ((i32 result \<times> 'b fuse_out) list \<times> 'p zcfs) option" where
  "fuse_run R filler b [] server = Some ([], server)"
| "fuse_run R filler b (call # calls) server =
     (case zcfs_operations R filler b call server of
        None \<Rightarrow> None
      | Some (answer, server1) \<Rightarrow>
          (case fuse_run R filler b calls server1 of
             None \<Rightarrow> None
           | Some (answers, server2) \<Rightarrow> Some (answer # answers, server2)))"

lemma runs_simulate:
  assumes "kernel_behaves P" "never_full filler" "client_name client"
  shows "mounted client cm p sv \<Longrightarrow> tables_ok p \<Longrightarrow> room (length calls) p \<Longrightarrow> \<forall>call \<in> set calls. call_ok call \<Longrightarrow>
    \<exists>outs cm' p' sv'. fuse_run (worker_peer P False) filler b (map (on_client client) calls) (Some sv)
        = Some (outs, Some sv')
      \<and> local_run P filler b calls (local_view p) outs (local_view p') \<and> mounted client cm' p' sv' \<and> tables_ok p'
      \<and> (\<forall>other. other \<noteq> client \<longrightarrow> map_find other (sv_commanders sv') = map_find other (sv_commanders sv))"
proof (induction calls arbitrary: cm p sv)
  case Nil
  then show ?case by (auto intro: local_run.no_calls)
next
  case (Cons call calls)
  have "room 1 p" using Cons.prems(3) by (simp add: room_def counter_room_def)
  from operations_simulate [OF assms Cons.prems(1,2) this, of call b] Cons.prems(4)
  obtain r out cm1 p1 sv1 where
    step: "zcfs_operations (worker_peer P False) filler b (on_client client call) (Some sv) = Some ((r, out), Some sv1)"
      "local_op P filler b call (local_view p) (r, out) (local_view p1)"
    and m1: "mounted client cm1 p1 sv1" "tables_ok p1" "\<And>n. room (Suc n) p \<Longrightarrow> room n p1"
    and others: "\<And>other. other \<noteq> client \<Longrightarrow> map_find other (sv_commanders sv1) = map_find other (sv_commanders sv)"
    unfolding simulates_def by auto
  have "room (length calls) p1" using Cons.prems(3) m1(3) by simp
  from Cons.IH [OF m1(1,2) this] Cons.prems(4) obtain outs cm' p' sv' where
    rest: "fuse_run (worker_peer P False) filler b (map (on_client client) calls) (Some sv1) = Some (outs, Some sv')"
      "local_run P filler b calls (local_view p1) outs (local_view p')"
    and m': "mounted client cm' p' sv'" "tables_ok p'"
      "\<forall>other. other \<noteq> client \<longrightarrow> map_find other (sv_commanders sv') = map_find other (sv_commanders sv1)"
    by auto
  have "fuse_run (worker_peer P False) filler b (map (on_client client) (call # calls)) (Some sv)
      = Some ((r, out) # outs, Some sv')" by (simp add: step(1) rest(1))
  moreover have "local_run P filler b (call # calls) (local_view p) ((r, out) # outs) (local_view p')"
    by (rule local_run.next_call [OF step(2) rest(2)])
  ultimately show ?case using m' others by metis
qed

section \<open>An example\<close>

text \<open>A kernel with one file, whose bytes are \<open>os\<close>; a call moves at most four of them.\<close>

definition one_file_posix :: "u8 list posix" where
  "one_file_posix = (failing_posix ENOENT)
     \<lparr>px_open := (\<lambda>path flags mode w. if path = ''/a'' then (7, w) else (-1, w\<lparr>errno := ENOENT\<rparr>)),
      px_close := (\<lambda>fd w. if fd = 7 then (0, w) else (-1, w\<lparr>errno := EBADF\<rparr>)),
      px_pread := (\<lambda>fd buf offset w. let k = min 4 (min (length buf) (length (os w)))
        in if fd = 7 then ((word_of_nat k, take k (os w) @ drop k buf), w) else ((-1, buf), w\<lparr>errno := EBADF\<rparr>)),
      px_pwrite := (\<lambda>fd bytes offset w. let k = min 4 (length bytes)
        in if fd = 7 then (word_of_nat k, w\<lparr>os := take k bytes\<rparr>) else (-1, w\<lparr>errno := EBADF\<rparr>)),
      px_readdir := (\<lambda>_ w. (None, w))\<rparr>"

definition fresh_remote :: "u8 list remote" where
  "fresh_remote = \<lparr>rm_worker = new_worker, rm_world = \<lparr>errno = 0, os = []\<rparr>, rm_inbox = []\<rparr>"

definition fresh_server :: "u8 list remote server" where
  "fresh_server = \<lparr>sv_should_stop = False, sv_socket = 3, sv_commanders = [(''h'', (new_commander, fresh_remote))],
     sv_dropped = []\<rparr>"

definition first_calls :: "fuse_call list" where
  "first_calls = [Do_Create ''/a'' 420 \<lparr>fi_flags = 66, fi_fh = 0\<rparr>, Do_Write ''/a'' [1, 2, 3] 2 0 \<lparr>fi_flags = 66, fi_fh = 0\<rparr>,
     Do_Read ''/a'' [0, 0, 0, 0] 4 0 \<lparr>fi_flags = 66, fi_fh = 0\<rparr>, Do_Release ''/a'' \<lparr>fi_flags = 66, fi_fh = 0\<rparr>]"

lemma sint_small: "k \<le> 4 \<Longrightarrow> sint (word_of_nat k :: i64) = int k"
  by (simp add: signed_of_nat signed_take_bit_int_eq_self)

lemma one_file_behaves: "kernel_behaves one_file_posix"
  unfolding kernel_behaves_def
proof (intro conjI allI impI)
  fix fd :: i32 and n :: u32 and offset :: i64 and w :: "u8 list world"
  have "int (min 4 (min (unat n) (length (os w)))) \<le> int (unat n)" by (simp only: of_nat_le_iff)
  then have "int (min 4 (min (unat n) (length (os w)))) \<le> uint n" "- 1 \<le> uint n" using uint_ge_0 [of n] by simp_all
  then show "case px_pread one_file_posix fd (replicate (unat n) 0) offset w of
      ((result, buffer), _) \<Rightarrow> read_behaves n result buffer"
    by (auto simp: one_file_posix_def Let_def read_behaves_def sint_small)
next
  fix fd :: i32 and bytes :: "u8 list" and offset :: i64 and w :: "u8 list world"
  show "-1 \<le> sint (fst (px_pwrite one_file_posix fd bytes offset w))"
    and "sint (fst (px_pwrite one_file_posix fd bytes offset w)) \<le> int (length bytes)"
    by (simp_all add: one_file_posix_def Let_def sint_small)
next
  fix d :: dir_ptr and w :: "u8 list world"
  have "listing one_file_posix d [] w (w\<lparr>errno := 0\<rparr>)" by (simp add: listing_def one_file_posix_def)
  then show "\<exists>es w'. listing one_file_posix d es w w' \<and> errno w' = 0 \<and> (\<forall>e \<in> set es. length (d_name e) \<le> 255)"
    by (intro exI [of _ "[]"] exI [of _ "w\<lparr>errno := 0\<rparr>"]) simp
qed

lemma fresh_client:
  "mounted ''h'' new_commander fresh_remote fresh_server" "tables_ok fresh_remote"
  "room (length first_calls) fresh_remote" "\<forall>call \<in> set first_calls. call_ok call" "client_name ''h''"
  by (simp_all add: mounted_def fresh_server_def idle_def new_commander_def map_empty_def fresh_remote_def
      tables_ok_def new_worker_def dh_lookup_def new_dir_handler_def new_file_handler_def room_def counter_room_def
      first_calls_def path_ok_def size_ok_def client_name_def fh_ok_def dh_ok_def keys_issued_def)

text \<open>What the four calls do there.\<close>

lemma fresh_run:
  "\<exists>outs p' sv'.
      fuse_run (worker_peer one_file_posix False) (\<lambda>b name st. (False, b @ [name])) []
        (map (on_client ''h'') first_calls) (Some fresh_server) = Some (outs, Some sv')
      \<and> local_run one_file_posix (\<lambda>b name st. (False, b @ [name])) [] first_calls (local_view fresh_remote) outs
          (local_view p')"
proof -
  have "never_full (\<lambda>b name st. (False, b @ [name]))" by (simp add: never_full_def)
  from runs_simulate [OF one_file_behaves this fresh_client(5,1-4), of "[]"] show ?thesis by blast
qed

end
