(* ===== verification/Mounted_Files.thy ===== *)
theory Mounted_Files
  imports Local_Files
begin

text \<open>
  The whole mount point: a map from the names of the clients to local processes, as in
  \<open>Local_Files\<close>, with a root directory that lists the names. \<open>mount_op\<close> is one call of the kernel on any
  path; the operations of \<open>zcfs\<close> refine it as long as every connected client in the table stays connected.
  A client whose commander has lost its worker is not in the map.
\<close>

section \<open>The specification\<close>

type_synonym 'w mount = "string \<Rightarrow> 'w local_fs option"

text \<open>What a call on a name gives that no client has.\<close>

fun absent_answer :: "'b \<Rightarrow> fuse_call \<Rightarrow> i32 result \<times> 'b fuse_out" where
  "absent_answer b (Do_Getattr path) = (Inr (- ENOENT), Stat_Filled zero_stat)"
| "absent_answer b (Do_Statfs path) = (Inr (- ENOENT), Statvfs_Filled zero_statvfs)"
| "absent_answer b (Do_Open path fi) = (Inr (- ENOENT), Info_Filled fi)"
| "absent_answer b (Do_Create path mode fi) = (Inr (- ENOENT), Info_Filled fi)"
| "absent_answer b (Do_Opendir path fi) = (Inr (- ENOENT), Info_Filled fi)"
| "absent_answer b (Do_Read path buf n offset fi) = (Inr (- EIO), Bytes_Filled buf)"
| "absent_answer b (Do_Write path buf n offset fi) = (Inr (- EIO), Nothing_Filled)"
| "absent_answer b (Do_Readdir path fi) = (Inr (- EIO), Listing_Filled b)"
| "absent_answer b _ = (Inr (- ENOENT), Nothing_Filled)"

text \<open>The root directory: it has attributes and can be opened, and is no client.\<close>

fun root_answer :: "'b \<Rightarrow> fuse_call \<Rightarrow> i32 result \<times> 'b fuse_out" where
  "root_answer b (Do_Getattr path) = (Inr 0, Stat_Filled dir_stat)"
| "root_answer b (Do_Statfs path) = (Inr 0, Statvfs_Filled (zero_statvfs\<lparr>f_flag := mount_flags\<rparr>))"
| "root_answer b (Do_Access path mode) = (Inr 0, Nothing_Filled)"
| "root_answer b (Do_Open path fi) = (Inr (- EISDIR), Info_Filled fi)"
| "root_answer b (Do_Create path mode fi) = (Inr (- EISDIR), Info_Filled fi)"
| "root_answer b (Do_Opendir path fi) = (Inr 0, Info_Filled (fi\<lparr>fi_fh := VirtualRootDirFd\<rparr>))"
| "root_answer b call = absent_answer b call"

fun call_paths :: "fuse_call \<Rightarrow> string list" where
  "call_paths (Do_Getattr path) = [path]"
| "call_paths (Do_Mkdir path mode) = [path]"
| "call_paths (Do_Unlink path) = [path]"
| "call_paths (Do_Rmdir path) = [path]"
| "call_paths (Do_Rename old_path new_path flags) = [old_path, new_path]"
| "call_paths (Do_Chmod path mode) = [path]"
| "call_paths (Do_Chown path owner grp) = [path]"
| "call_paths (Do_Truncate path len) = [path]"
| "call_paths (Do_Open path fi) = [path]"
| "call_paths (Do_Read path buf n offset fi) = [path]"
| "call_paths (Do_Write path buf n offset fi) = [path]"
| "call_paths (Do_Statfs path) = [path]"
| "call_paths (Do_Release path fi) = [path]"
| "call_paths (Do_Opendir path fi) = [path]"
| "call_paths (Do_Readdir path fi) = [path]"
| "call_paths (Do_Releasedir path fi) = [path]"
| "call_paths (Do_Access path mode) = [path]"
| "call_paths (Do_Create path mode fi) = [path]"
| "call_paths (Do_Utimens path time0 time1) = [path]"

text \<open>The two directory calls go by the handle: that of the root is the same on any path.\<close>

fun root_handle :: "fuse_call \<Rightarrow> bool" where
  "root_handle (Do_Readdir path fi) \<longleftrightarrow> fi_fh fi = VirtualRootDirFd"
| "root_handle (Do_Releasedir path fi) \<longleftrightarrow> fi_fh fi = VirtualRootDirFd"
| "root_handle _ \<longleftrightarrow> False"

definition root_call :: "fuse_call \<Rightarrow> bool" where
  "root_call call \<longleftrightarrow> set (call_paths call) = {''/''} \<and> \<not> root_handle call"

text \<open>A rename from one client to another.\<close>

fun crosses :: "fuse_call \<Rightarrow> bool" where
  "crosses (Do_Rename old_path new_path flags) \<longleftrightarrow>
     (case split_path old_path of Inl e \<Rightarrow> False | Inr (old_client, _) \<Rightarrow>
        (case split_path new_path of Inl e \<Rightarrow> False | Inr (new_client, _) \<Rightarrow> old_client \<noteq> new_client))"
| "crosses _ \<longleftrightarrow> False"

inductive mount_op ::
    "'w posix \<Rightarrow> 'b filler \<Rightarrow> 'b \<Rightarrow> fuse_call \<Rightarrow> 'w mount \<Rightarrow> i32 result \<times> 'b fuse_out \<Rightarrow> 'w mount \<Rightarrow> bool"
  for P :: "'w posix" and filler :: "'b filler" and b :: 'b
where
  on_a_client: "client_name client \<Longrightarrow> call_ok call \<Longrightarrow> ns client = Some l \<Longrightarrow> local_op P filler b call l out l' \<Longrightarrow>
    mount_op P filler b (on_client client call) ns out (ns(client \<mapsto> l'))"
| on_no_client: "client_name client \<Longrightarrow> call_ok call \<Longrightarrow> ns client = None \<Longrightarrow>
    mount_op P filler b (on_client client call) ns (absent_answer b call) ns"
| on_the_root: "root_call call \<Longrightarrow> mount_op P filler b call ns (root_answer b call) ns"
| root_listed: "fi_fh fi = VirtualRootDirFd \<Longrightarrow> set names = dom ns \<Longrightarrow> sorted_wrt (<) names \<Longrightarrow>
    mount_op P filler b (Do_Readdir path fi) ns
      (Inr 0, Listing_Filled (foldl (\<lambda>b name. snd (filler b name dir_stat)) b (''.'' # ''..'' # map c_str names))) ns"
| root_closed: "fi_fh fi = VirtualRootDirFd \<Longrightarrow>
    mount_op P filler b (Do_Releasedir path fi) ns (Inr 0, Nothing_Filled) ns"
| across: "crosses call \<Longrightarrow> mount_op P filler b call ns (Inr (- EXDEV), Nothing_Filled) ns"

inductive mount_run ::
    "'w posix \<Rightarrow> 'b filler \<Rightarrow> 'b \<Rightarrow> fuse_call list \<Rightarrow> 'w mount \<Rightarrow> (i32 result \<times> 'b fuse_out) list
       \<Rightarrow> 'w mount \<Rightarrow> bool"
  for P :: "'w posix" and filler :: "'b filler" and b :: 'b
where
  nothing: "mount_run P filler b [] ns [] ns"
| one_call: "mount_op P filler b call ns out ns1 \<Longrightarrow> mount_run P filler b calls ns1 outs ns2 \<Longrightarrow>
    mount_run P filler b (call # calls) ns (out # outs) ns2"

section \<open>The server as such a map\<close>

definition mount_view :: "'w remote server \<Rightarrow> 'w mount" where
  "mount_view sv name = (case map_find name (sv_commanders sv) of
     None \<Rightarrow> None | Some (cm, p) \<Rightarrow> (if cm_connected cm then Some (local_view p) else None))"

text \<open>Every connected client has no request under way, and its handles have room for \<open>n\<close> more calls.\<close>

definition all_mounted :: "nat \<Rightarrow> 'w remote server \<Rightarrow> bool" where
  "all_mounted n sv \<longleftrightarrow> fs_ok sv \<and> map_find [] (sv_commanders sv) = None
     \<and> (\<forall>name cm p. map_find name (sv_commanders sv) = Some (cm, p) \<longrightarrow> cm_connected cm \<longrightarrow>
          mounted name cm p sv \<and> tables_ok p \<and> room n p)"

text \<open>The calls the kernel makes.\<close>

definition mount_call_ok :: "fuse_call \<Rightarrow> bool" where
  "mount_call_ok call \<longleftrightarrow>
     (\<exists>client c. client_name client \<and> call_ok c \<and> call = on_client client c)
     \<or> root_call call \<or> root_handle call \<or> crosses call"

section \<open>Calls that reach no client\<close>

lemmas callback_defs = zcfs_getattr_def zcfs_mkdir_def zcfs_unlink_def zcfs_rmdir_def zcfs_chmod_def zcfs_chown_def
  zcfs_truncate_def zcfs_access_def zcfs_utimens_def zcfs_open_def zcfs_create_def zcfs_read_def zcfs_write_def
  zcfs_release_def zcfs_statfs_def zcfs_opendir_def zcfs_releasedir_def zcfs_rename_def zcfs_readdir_def

lemma absent_call:
  assumes name: "client_name client" and call: "call_ok call" and absent: "map_find client (sv_commanders sv) = None"
  shows "zcfs_operations R filler b (on_client client call) (Some sv) = Some (absent_answer b call, Some sv)"
proof -
  note path = mounted_path_splits [OF name]
  show ?thesis
    using call by (cases call)
      (simp_all add: callback_defs returned_def path on_path_absent [OF absent] on_commander_absent [OF absent]
        get_commander_def absent)
qed

text \<open>A commander that has lost its worker is forgotten by the first call on its client.\<close>

definition forgotten :: "'p peer \<Rightarrow> string \<Rightarrow> 'p server \<Rightarrow> 'p server" where
  "forgotten R client sv = snd (get_commander R client sv)"

lemma forgotten_find:
  assumes "server_ok sv" "map_find client (sv_commanders sv) = Some (cm, p)" "\<not> cm_connected cm"
  shows "map_find other (sv_commanders (forgotten R client sv))
    = (if other = client then None else map_find other (sv_commanders sv))"
  using assms erase_commander_find [OF assms(1), of other R client]
  by (simp add: forgotten_def get_commander_def is_connected_def split_beta)

lemma dead_call:
  assumes name: "client_name client" and call: "call_ok call"
    and dead: "map_find client (sv_commanders sv) = Some (cm, p)" "\<not> cm_connected cm"
  shows "zcfs_operations R filler b (on_client client call) (Some sv)
    = Some (absent_answer b call, Some (forgotten R client sv))"
proof -
  note path = mounted_path_splits [OF name]
  obtain sv1 where "get_commander R client sv = (Inr None, sv1)"
    using dead by (cases rule: get_commander_cases [of client sv R]) auto
  then show ?thesis
    using call by (cases call)
      (simp_all add: callback_defs returned_def path on_path_def on_commander_def forgotten_def)
qed

lemma split_root: "split_path ''/'' = Inr ([], ''/'')"
  by (simp add: split_path_def)

lemma root_calls:
  assumes "root_call call" and absent: "map_find [] (sv_commanders sv) = None"
  shows "zcfs_operations R filler b call (Some sv) = Some (root_answer b call, Some sv)"
proof -
  have paths: "set (call_paths call) = {''/''}" and fh: "\<not> root_handle call"
    using assms(1) by (simp_all add: root_call_def)
  have rename: "x = ''/'' \<and> y = ''/''" if "{x, y} = {''/''}" for x y :: string using that by blast
  show ?thesis
    using paths fh by (cases call)
      (auto simp: callback_defs returned_def split_root on_path_absent [OF absent split_root]
        on_commander_absent [OF absent] get_commander_def absent dest!: rename)
qed

lemma crossing_calls:
  "crosses call \<Longrightarrow> zcfs_operations R filler b call (Some sv) = Some ((Inr (- EXDEV), Nothing_Filled), Some sv)"
  by (cases call rule: crosses.cases) (auto simp: zcfs_rename_def returned_def split: sum.splits)

section \<open>Every call\<close>

text \<open>What the theorem says of one call: it returns, and it is a step of the specification.\<close>

definition mount_simulates ::
    "'w posix \<Rightarrow> 'b filler \<Rightarrow> 'b \<Rightarrow> nat \<Rightarrow> fuse_call \<Rightarrow> 'w remote server \<Rightarrow> bool" where
  "mount_simulates P filler b n call sv \<longleftrightarrow>
     (\<exists>out sv'. zcfs_operations (worker_peer P False) filler b call (Some sv) = Some (out, Some sv')
        \<and> mount_op P filler b call (mount_view sv) out (mount_view sv') \<and> all_mounted n sv')"

lemma all_mounted_less: "all_mounted (Suc n) sv \<Longrightarrow> all_mounted n sv"
  using room_less unfolding all_mounted_def by blast

lemma unchanged_simulates:
  assumes "all_mounted (Suc n) sv" "zcfs_operations (worker_peer P False) filler b call (Some sv) = Some (out, Some sv)"
    and "mount_op P filler b call (mount_view sv) out (mount_view sv)"
  shows "mount_simulates P filler b n call sv"
  using assms(2,3) all_mounted_less [OF assms(1)] unfolding mount_simulates_def by blast

lemma mounted_clients:
  assumes "all_mounted n sv"
  shows "set (get_clients sv) = dom (mount_view sv)" "sorted_wrt (<) (get_clients sv)"
proof -
  have ok: "server_ok sv" using assms by (simp add: all_mounted_def fs_ok_def)
  show "sorted_wrt (<) (get_clients sv)" by (rule get_clients_sorted [OF ok])
  show "set (get_clients sv) = dom (mount_view sv)"
    by (auto simp: get_clients_iff [OF ok] mount_view_def split: option.splits if_splits)
qed

lemma root_handles:
  assumes "all_mounted (Suc n) sv" "root_handle call"
  shows "mount_simulates P filler b n call sv"
proof -
  consider path fi where "call = Do_Readdir path fi" "fi_fh fi = VirtualRootDirFd"
    | path fi where "call = Do_Releasedir path fi" "fi_fh fi = VirtualRootDirFd"
    using assms(2) by (cases call) auto
  then show ?thesis
  proof cases
    case (1 path fi)
    show ?thesis
      unfolding 1(1)
      by (rule unchanged_simulates [OF assms(1) _ mount_op.root_listed [OF 1(2) mounted_clients [OF assms(1)]]])
        (simp add: zcfs_readdir_def 1(2) root_entries_def returned_def)
  next
    case (2 path fi)
    show ?thesis
      unfolding 2(1)
      by (rule unchanged_simulates [OF assms(1) _ mount_op.root_closed [OF 2(2)]])
        (simp add: zcfs_releasedir_def 2(2) returned_def)
  qed
qed

lemma forgotten_mounted:
  assumes all: "all_mounted n sv" and dead: "map_find client (sv_commanders sv) = Some (cm, p)" "\<not> cm_connected cm"
  shows "mount_view (forgotten R client sv) = mount_view sv" "all_mounted n (forgotten R client sv)"
proof -
  have ok: "server_ok sv" using all by (simp add: all_mounted_def fs_ok_def)
  note find = forgotten_find [OF ok dead]
  show "mount_view (forgotten R client sv) = mount_view sv"
    by (auto simp: mount_view_def fun_eq_iff find dead)
  have "fs_ok (forgotten R client sv)"
    using all get_commander_ok [OF ok, of R client] by (auto simp: fs_ok_def all_mounted_def find forgotten_def [symmetric])
  with all show "all_mounted n (forgotten R client sv)"
    by (auto simp: all_mounted_def find mounted_def split: if_splits)
qed

lemma dead_client:
  assumes all: "all_mounted (Suc n) sv" and name: "client_name client" and call: "call_ok c"
    and dead: "map_find client (sv_commanders sv) = Some (cm, p)" "\<not> cm_connected cm"
  shows "mount_simulates P filler b n (on_client client c) sv"
proof -
  have "mount_view sv client = None" by (simp add: mount_view_def dead)
  from mount_op.on_no_client [where ns = "mount_view sv", OF name call this]
  show ?thesis
    unfolding mount_simulates_def
    using dead_call [OF name call dead] forgotten_mounted [OF all_mounted_less [OF all] dead] by metis
qed

lemma live_client:
  assumes kernel: "kernel_behaves P" and filler: "never_full filler" and all: "all_mounted (Suc n) sv"
    and name: "client_name client" and call: "call_ok c"
    and live: "map_find client (sv_commanders sv) = Some (cm, p)" "cm_connected cm"
  shows "mount_simulates P filler b n (on_client client c) sv"
proof -
  have m: "mounted client cm p sv" and tables: "tables_ok p" and room: "room (Suc n) p"
    using all live by (auto simp: all_mounted_def)
  have "room 1 p" using room by (simp add: room_def counter_room_def)
  from operations_simulate [OF kernel filler name m tables this call, of b]
  obtain r out cm' p' sv' where
    run: "zcfs_operations (worker_peer P False) filler b (on_client client c) (Some sv) = Some ((r, out), Some sv')"
    and m': "mounted client cm' p' sv'" and op: "local_op P filler b c (local_view p) (r, out) (local_view p')"
    and tables': "tables_ok p'" and room': "room n p'"
    and others: "\<And>other. other \<noteq> client \<Longrightarrow> map_find other (sv_commanders sv') = map_find other (sv_commanders sv)"
    using room unfolding simulates_def by blast
  have found: "map_find client (sv_commanders sv') = Some (cm', p')" using m' by (simp add: mounted_def)
  have view: "mount_view sv' = (mount_view sv)(client \<mapsto> local_view p')"
    using found others mounted_idle(1) [OF m'] by (auto simp: mount_view_def fun_eq_iff idle_def)
  have "mount_view sv client = Some (local_view p)" by (simp add: mount_view_def live)
  from mount_op.on_a_client [where ns = "mount_view sv", OF name call this op]
  have step: "mount_op P filler b (on_client client c) (mount_view sv) (r, out) (mount_view sv')" by (simp only: view)
  have "fs_ok sv'"
    using operations_answered [OF worker_peer_returns _ run] all by (auto simp: all_mounted_def)
  moreover have "mounted other cm1 p1 sv' \<and> tables_ok p1 \<and> room n p1"
    if "map_find other (sv_commanders sv') = Some (cm1, p1)" "cm_connected cm1" for other cm1 p1
  proof (cases "other = client")
    case True
    with that found m' tables' room' show ?thesis by simp
  next
    case False
    with that others have "map_find other (sv_commanders sv) = Some (cm1, p1)" by simp
    with all_mounted_less [OF all] that show ?thesis by (auto simp: all_mounted_def mounted_def)
  qed
  moreover have "map_find [] (sv_commanders sv') = None"
    using all others [of "[]"] name by (auto simp: all_mounted_def client_name_def)
  ultimately have "all_mounted n sv'" unfolding all_mounted_def by blast
  with run step show ?thesis unfolding mount_simulates_def by blast
qed

lemma client_calls:
  assumes kernel: "kernel_behaves P" and filler: "never_full filler" and all: "all_mounted (Suc n) sv"
    and name: "client_name client" and call: "call_ok c"
  shows "mount_simulates P filler b n (on_client client c) sv"
proof (cases "map_find client (sv_commanders sv)")
  case None
  then have "mount_view sv client = None" by (simp add: mount_view_def)
  from mount_op.on_no_client [where ns = "mount_view sv", OF name call this] absent_call [OF name call None] show ?thesis
    by (intro unchanged_simulates [OF all])
next
  case (Some s)
  obtain cm p where s: "s = (cm, p)" by (rule prod.exhaust)
  show ?thesis
  proof (cases "cm_connected cm")
    case False
    with Some s show ?thesis by (blast intro: dead_client [OF all name call])
  next
    case True
    show ?thesis by (rule live_client [OF assms Some [unfolded s] True])
  qed
qed
lemma mount_calls:
  assumes "kernel_behaves P" "never_full filler" "all_mounted (Suc n) sv" "mount_call_ok call"
  shows "mount_simulates P filler b n call sv"
  using assms(4) unfolding mount_call_ok_def
proof (elim disjE exE conjE)
  fix client c assume "client_name client" "call_ok c" "call = on_client client c"
  with client_calls [OF assms(1-3)] show ?thesis by simp
next
  assume root: "root_call call"
  have "map_find [] (sv_commanders sv) = None" using assms(3) by (simp add: all_mounted_def)
  then show ?thesis
    by (rule unchanged_simulates [OF assms(3) root_calls [OF root] mount_op.on_the_root [OF root]])
next
  assume "root_handle call"
  with assms(3) show ?thesis by (rule root_handles)
next
  assume crossing: "crosses call"
  show ?thesis by (rule unchanged_simulates [OF assms(3) crossing_calls [OF crossing] mount_op.across [OF crossing]])
qed

lemma mount_runs:
  assumes "kernel_behaves P" "never_full filler"
  shows "all_mounted (length calls) sv \<Longrightarrow> \<forall>call \<in> set calls. mount_call_ok call \<Longrightarrow>
    \<exists>outs sv'. fuse_run (worker_peer P False) filler b calls (Some sv) = Some (outs, Some sv')
      \<and> mount_run P filler b calls (mount_view sv) outs (mount_view sv') \<and> all_mounted 0 sv'"
proof (induction calls arbitrary: sv)
  case Nil
  then show ?case by (auto intro: mount_run.nothing)
next
  case (Cons call calls)
  have "all_mounted (Suc (length calls)) sv" using Cons.prems(1) by simp
  from mount_calls [OF assms this, of call b] Cons.prems(2) obtain out sv1 where
    step: "zcfs_operations (worker_peer P False) filler b call (Some sv) = Some (out, Some sv1)"
      "mount_op P filler b call (mount_view sv) out (mount_view sv1)" "all_mounted (length calls) sv1"
    by (auto simp: mount_simulates_def)
  from Cons.IH [OF step(3)] Cons.prems(2) obtain outs sv' where
    rest: "fuse_run (worker_peer P False) filler b calls (Some sv1) = Some (outs, Some sv')"
      "mount_run P filler b calls (mount_view sv1) outs (mount_view sv')" "all_mounted 0 sv'"
    by auto
  have "fuse_run (worker_peer P False) filler b (call # calls) (Some sv) = Some (out # outs, Some sv')"
    by (simp add: step(1) rest(1))
  with mount_run.one_call [OF step(2) rest(2)] rest(3) show ?case by blast
qed

section \<open>An example\<close>

text \<open>The root is listed, a file is written and read back, and two names are tried that no client has.\<close>

definition mixed_calls :: "fuse_call list" where
  "mixed_calls = [Do_Opendir ''/'' \<lparr>fi_flags = 0, fi_fh = 0\<rparr>, Do_Readdir ''/'' \<lparr>fi_flags = 0, fi_fh = VirtualRootDirFd\<rparr>]
     @ map (on_client ''h'') first_calls @ [on_client ''k'' (Do_Unlink ''/a''), Do_Rename ''/h/a'' ''/k/a'' 0]"

lemma mixed_ok: "\<forall>call \<in> set mixed_calls. mount_call_ok call"
proof -
  have "mount_call_ok (on_client ''h'' c)" if "c \<in> set first_calls" for c
    using fresh_client(4,5) that unfolding mount_call_ok_def by blast
  moreover have "client_name ''k'' \<and> call_ok (Do_Unlink ''/a'')" by (simp add: client_name_def path_ok_def)
  then have "mount_call_ok (on_client ''k'' (Do_Unlink ''/a''))" unfolding mount_call_ok_def by blast
  moreover have "mount_call_ok (Do_Opendir ''/'' \<lparr>fi_flags = 0, fi_fh = 0\<rparr>)"
    "mount_call_ok (Do_Readdir ''/'' \<lparr>fi_flags = 0, fi_fh = VirtualRootDirFd\<rparr>)"
    "mount_call_ok (Do_Rename ''/h/a'' ''/k/a'' 0)"
    by (simp_all add: mount_call_ok_def root_call_def split_path_def)
  ultimately show ?thesis by (auto simp: mixed_calls_def simp del: on_client.simps)
qed

lemma fresh_all_mounted: "all_mounted (length mixed_calls) fresh_server"
proof -
  have "room (length mixed_calls) fresh_remote"
    by (simp add: room_def counter_room_def mixed_calls_def first_calls_def fresh_remote_def new_worker_def
        new_file_handler_def new_dir_handler_def)
  moreover have "fs_ok fresh_server" by (simp add: fs_ok_def server_ok_def fresh_server_def map_ok_def)
  ultimately show ?thesis
    using fresh_client(1,2) by (auto simp: all_mounted_def fresh_server_def split: if_splits)
qed

section \<open>Properties\<close>

text \<open>
  C1. The mounted file system refines its specification. Any sequence of calls, on any of the clients, on the
  root, on names no client has or from one client to another, returns, one answer each, and the answers
  and the final states of all machines are those of a map from names to local processes, each of which
  makes the system calls on its machine itself and keeps the table of its handles. A client whose
  worker is lost is not in the map, and none is lost on the way; the kernels give the sizes their manual pages promise, the
  directories are finite, the counters of the handles have room, and no worker is the Android one.
\<close>

theorem mount_point_refines_local_processes:
  assumes "kernel_behaves P" "never_full filler"
    and "all_mounted (length calls) sv" "\<forall>call \<in> set calls. mount_call_ok call"
  shows "\<exists>outs sv'. fuse_run (worker_peer P False) filler b calls (Some sv) = Some (outs, Some sv')
    \<and> mount_run P filler b calls (mount_view sv) outs (mount_view sv') \<and> all_mounted 0 sv'"
  using assms by (rule mount_runs)

theorem mount_point_refines_local_processes_witness:
  "\<exists>outs sv'. fuse_run (worker_peer one_file_posix False) (\<lambda>b name st. (False, b @ [name])) [] mixed_calls
        (Some fresh_server) = Some (outs, Some sv')
    \<and> mount_run one_file_posix (\<lambda>b name st. (False, b @ [name])) [] mixed_calls (mount_view fresh_server) outs
        (mount_view sv')"
proof -
  have "never_full (\<lambda>b name st. (False, b @ [name]))" by (simp add: never_full_def)
  from mount_point_refines_local_processes [OF one_file_behaves this fresh_all_mounted mixed_ok, of "[]"]
  show ?thesis by blast
qed

end
