(* ===== verification/Lost_Connections.thy ===== *)
theory Lost_Connections
  imports Mounted_Files
begin

text \<open>
  What the kernel sees of a client whose connection breaks while a call is under way. \<open>call_command\<close> is
  the command a callback sends, \<open>cut_peer\<close> the worker behind a connection that breaks at a given point of
  the exchange, at any of the commands of the call. A call that has not been answered in full returns
  \<open>-EIO\<close>; it has filled nothing, unless it is a listing whose earlier batches have arrived.
\<close>

section \<open>The command behind a call\<close>

fun call_command :: "fuse_call \<Rightarrow> commander_message_type \<times> u8 list" where
  "call_command (Do_Getattr path) = (GetAttr, enc_str path)"
| "call_command (Do_Mkdir path mode) = (MakeDir, enc_str path @ be32 mode)"
| "call_command (Do_Unlink path) = (Unlink, enc_str path)"
| "call_command (Do_Rmdir path) = (RemoveDir, enc_str path)"
| "call_command (Do_Rename old_path new_path flags) = (Rename, enc_str old_path @ enc_str new_path @ [ucast flags])"
| "call_command (Do_Chmod path mode) = (ChangeMode, enc_str path @ be32 mode)"
| "call_command (Do_Chown path owner grp) = (ChangeOwner, enc_str path @ be32 owner @ be32 grp)"
| "call_command (Do_Truncate path len) = (Truncate, enc_str path @ be64 len)"
| "call_command (Do_Open path fi) = (Open, enc_str path @ be32 (fi_flags fi) @ be32 DEFFILEMODE)"
| "call_command (Do_Read path buf n offset fi) = (PRead, be32 (id_of_fh (fi_fh fi)) @ be32 (ucast n) @ be64 offset)"
| "call_command (Do_Write path buf n offset fi) =
     (PWrite, be32 (id_of_fh (fi_fh fi)) @ be64 offset @ enc_bytes (take (unat n) buf))"
| "call_command (Do_Statfs path) = (StatFileSystem, enc_str path)"
| "call_command (Do_Release path fi) = (Close, be32 (id_of_fh (fi_fh fi)))"
| "call_command (Do_Opendir path fi) = (OpenDir, enc_str path)"
| "call_command (Do_Readdir path fi) = (ReadDir, be32 (id_of_fh (fi_fh fi)) @ be32 MaxDirsReadPerCall)"
| "call_command (Do_Releasedir path fi) = (CloseDir, be32 (id_of_fh (fi_fh fi)))"
| "call_command (Do_Access path mode) = (Access, enc_str path @ be32 mode)"
| "call_command (Do_Create path mode fi) = (Open, enc_str path @ be32 (fi_flags fi) @ be32 mode)"
| "call_command (Do_Utimens path time0 time1) =
     (SetTimes, enc_str path @ be64 (tv_sec time0) @ be64 (tv_sec time1))"

abbreviation send_call :: "'p peer \<Rightarrow> fuse_call \<Rightarrow> 'p session \<Rightarrow> message result \<times> 'p session" where
  "send_call R call \<equiv> request R (fst (call_command call)) (snd (call_command call))"

text \<open>What a call gives whose first command is not answered: \<open>-EIO\<close>, with what it was to fill as it was.\<close>

definition lost_answer :: "'b \<Rightarrow> fuse_call \<Rightarrow> i32 result \<times> 'b fuse_out" where
  "lost_answer b call = (Inr (- EIO), snd (absent_answer b call))"

lemma enc_lengths:
  "length (enc_str path) = length path + 4" "length (be32 v) = 4" "length (be64 u) = 8"
  by (simp_all add: enc_str_def enc_bytes_def)

lemma found_commander:
  assumes "map_find client (sv_commanders sv) = Some s" "cm_connected (fst s)"
  shows "get_commander R client sv = (Inr (Some s), sv)"
  using assms by (simp add: get_commander_def is_connected_def)

lemmas cmd_defs = cmd_access_def cmd_rename_def cmd_truncate_def cmd_unlink_def cmd_chmod_def cmd_chown_def
  cmd_utimens_def cmd_close_def cmd_closedir_def cmd_mkdir_def cmd_rmdir_def cmd_open_def cmd_opendir_def
  cmd_pwrite_def cmd_pread_def cmd_getattr_def cmd_statvfs_def cmd_readdir_def status_call_def status_request_def
  value_request_def open_return_def

lemma narrow_size: "unat (n :: u64) < 2147483648 \<Longrightarrow> unat (ucast n :: u32) = unat n"
  using size_ok_narrow [of n "replicate (unat n) 0"] by (simp add: size_ok_def)

definition lists_directory :: "fuse_call \<Rightarrow> bool" where
  "lists_directory call \<longleftrightarrow> (\<exists>path fi. call = Do_Readdir path fi)"

lemmas call_steps = callback_defs on_path_def on_commander_def found_commander cmd_defs ser_simps enc_lengths
  path_ok_def size_ok_def returned_def error_handler_def

text \<open>Every callback begins with its command; all but the listing of a directory send only that one.\<close>

lemma call_fails:
  assumes name: "client_name client" and call: "call_ok call"
    and found: "map_find client (sv_commanders sv) = Some s" "cm_connected (fst s)"
    and sent: "send_call R call s = (Inl e, s1)" and e: "\<not> uncaught e"
  shows "zcfs_operations R filler b (on_client client call) (Some sv)
    = Some (lost_answer b call, Some (put_commander client s1 sv))"
proof -
  note path = mounted_path_splits [OF name, unfolded path_ok_def]
  have "readdir_batches R filler i b s = Some ((Inl e, b), s1)"
    if "request R ReadDir (be32 i @ be32 MaxDirsReadPerCall) s = (Inl e, s1)" for i
    by (subst readdir_batches.simps) (simp add: that cmd_readdir_def ser_simps enc_lengths)
  then show ?thesis
    using call sent e by (cases call)
      (simp_all add: call_steps found path narrow_size lost_answer_def)
qed

lemma call_sends_one:
  assumes name: "client_name client" and call: "call_ok call" "\<not> lists_directory call"
    and found: "map_find client (sv_commanders sv) = Some s" "cm_connected (fst s)"
    and sent: "send_call R call s = (r, s1)"
  obtains out where "zcfs_operations R filler b (on_client client call) (Some sv)
    = Some (out, Some (put_commander client s1 sv))"
proof -
  note path = mounted_path_splits [OF name, unfolded path_ok_def]
  have "\<exists>out. zcfs_operations R filler b (on_client client call) (Some sv) = Some (out, Some (put_commander client s1 sv))"
    using call sent by (cases call)
      (simp_all add: call_steps found path narrow_size lists_directory_def split: prod.split)
  then show thesis using that by blast
qed

text \<open>What the callback returns depends on the exchange only.\<close>

lemma call_same:
  assumes name: "client_name client" and call: "call_ok call" "\<not> lists_directory call"
    and found: "map_find client (sv_commanders sv) = Some s" "cm_connected (fst s)"
    and sent: "send_call R call s = (r, s1)" "send_call R' call s = (r, s1)"
  shows "zcfs_operations R filler b (on_client client call) (Some sv)
    = zcfs_operations R' filler b (on_client client call) (Some sv)"
proof -
  note path = mounted_path_splits [OF name, unfolded path_ok_def]
  show ?thesis
    using call sent by (cases call)
      (simp_all add: call_steps found path narrow_size lists_directory_def split: prod.split)
qed

section \<open>A connection that breaks\<close>

text \<open>
  The point of the exchange at which it breaks, with the exception the transport raises: the command cannot
  be written, it is written but does not arrive, or it is carried out and the response does not arrive. The
  connection breaks at the command that has the id \<open>k\<close>; those before it are answered.
\<close>

datatype cut = Cut_Sending exn | Cut_Command exn | Cut_Response exn

fun cut_exn :: "cut \<Rightarrow> exn" where
  "cut_exn (Cut_Sending e) = e"
| "cut_exn (Cut_Command e) = e"
| "cut_exn (Cut_Response e) = e"

fun cut_write :: "'w posix \<Rightarrow> bool \<Rightarrow> cut \<Rightarrow> message \<Rightarrow> 'w remote \<Rightarrow> unit result \<times> 'w remote" where
  "cut_write P android (Cut_Sending e) m p = (Inl e, p)"
| "cut_write P android (Cut_Command e) m p = (Inr (), p)"
| "cut_write P android (Cut_Response e) m p =
     (case worker_write P android m p of (r, p1) \<Rightarrow> (r, p1\<lparr>rm_inbox := rm_inbox p\<rparr>))"

definition cut_read :: "cut \<Rightarrow> 'w remote \<Rightarrow> message result \<times> 'w remote" where
  "cut_read c p = (if rm_inbox p = [] then (Inl (cut_exn c), p) else worker_read p)"

definition cut_peer :: "'w posix \<Rightarrow> bool \<Rightarrow> cut \<Rightarrow> u32 \<Rightarrow> 'w remote peer" where
  "cut_peer P android c k =
     \<lparr>pr_write = (\<lambda>m. if msg_id m = k then cut_write P android c m else worker_write P android m),
      pr_read = cut_read c, pr_close = (\<lambda>p. (Inr (), p))\<rparr>"

lemma cut_peer_simps [simp]:
  "msg_id m = k \<Longrightarrow> pr_write (cut_peer P android c k) m = cut_write P android c m"
  "msg_id m \<noteq> k \<Longrightarrow> pr_write (cut_peer P android c k) m = worker_write P android m"
  "rm_inbox p = [] \<Longrightarrow> pr_read (cut_peer P android c k) p = (Inl (cut_exn c), p)"
  by (simp_all add: cut_peer_def cut_read_def)

text \<open>The state of the machine behind it when the command has been sent.\<close>

abbreviation cut_state :: "'w posix \<Rightarrow> bool \<Rightarrow> cut \<Rightarrow> message \<Rightarrow> 'w remote \<Rightarrow> 'w remote" where
  "cut_state P android c m p \<equiv> snd (cut_write P android c m p)"

lemma cut_state_inbox [simp]: "rm_inbox (cut_state P android c m p) = rm_inbox p"
  by (cases c) (simp_all split: prod.split)

lemma cut_write_cases:
  obtains e where "c = Cut_Sending e" "cut_write P android c m p = (Inl e, p)"
    | "\<And>e. c \<noteq> Cut_Sending e" "fst (cut_write P android c m p) = Inr ()"
proof (cases c)
  case (Cut_Response e)
  then have "fst (cut_write P android c m p) = Inr ()"
    by (auto simp: worker_write_def split: prod.splits sum.splits)
  with that(2) Cut_Response show thesis by blast
qed (use that in simp_all)

section \<open>The commander when it breaks\<close>

text \<open>A round of the reader that fails while the caller waits: the caller gets the exception.\<close>

lemma read_fails:
  assumes ok: "session_ok cm" and c: "cm_connected cm" and e: "\<not> uncaught e"
    and read: "pr_read R p = (Inl e, p)"
  obtains cm' where "read_response R (cm, p) = (Inr (), (cm', p))" "session_ok cm'" "\<not> cm_connected cm'"
    "\<And>k. k < length (cm_futures cm) \<Longrightarrow> cm_futures cm ! k = None \<Longrightarrow> cm_futures cm' ! k = Some (Inl e)"
proof -
  have ok': "promises_ok (hang_up cm)" "entries_unset (hang_up cm)"
    using ok c by (simp_all add: session_ok_def hang_up_def)
  obtain cm' where f: "fail_all e (hang_up cm) = (Inr (), cm')" "session_ok cm'" "\<not> cm_connected cm'"
    by (rule fail_all_session [OF ok c e])
  obtain fs where fs: "fail_all e (hang_up cm) = (Inr (), (hang_up cm)\<lparr>cm_futures := fs\<rparr>)"
      "\<forall>j. fs ! j = (if \<exists>i. map_find i (cm_promises cm) = Some j then Some (Inl e) else cm_futures cm ! j)"
    by (rule fail_all_result [OF ok', of e]) (simp add: hang_up_def)
  have "cm_futures cm' ! k = Some (Inl e)" if "k < length (cm_futures cm)" "cm_futures cm ! k = None" for k
    using ok c that f(1) fs by (auto simp: session_ok_def unset_entered_def)
  with f that show thesis by (simp add: read_response_def read e)
qed

lemma register_first:
  assumes ok: "session_ok cm" and c: "cm_connected cm"
  obtains cm1 where "register_promise (cm_next_command_id cm) (cm\<lparr>cm_next_command_id := cm_next_command_id cm + 1\<rparr>)
      = (Inr (length (cm_futures cm)), cm1)" "session_ok cm1" "cm_connected cm1"
    "cm_futures cm1 ! length (cm_futures cm) = None" "length (cm_futures cm) < length (cm_futures cm1)"
proof -
  let ?cm = "cm\<lparr>cm_next_command_id := cm_next_command_id cm + 1\<rparr>"
  have c1: "cm_connected ?cm" using c by simp
  obtain cm1 where reg: "register_promise (cm_next_command_id cm) ?cm = (Inr (length (cm_futures cm)), cm1)"
    using register_connected [OF c1] by auto
  have "session_ok cm1" by (rule session_ok_register [OF _ reg]) (simp add: session_ok_id ok)
  moreover have "cm_connected cm1" "cm_futures cm1 ! length (cm_futures cm) = None"
    "length (cm_futures cm) < length (cm_futures cm1)"
    using register_result [OF c1 reg] by simp_all
  ultimately show thesis using reg by (intro that [of cm1])
qed

lemma request_unsent:
  assumes ok: "session_ok cm" and c: "cm_connected cm" and sent: "pr_write R (command_of cm type bytes) p = (Inl e, p1)"
  obtains cm' where "request R type bytes (cm, p) = (Inl e, (cm', p1))" "session_ok cm'" "cm_connected cm'"
proof -
  obtain cm1 where reg: "register_promise (cm_next_command_id cm)
      (cm\<lparr>cm_next_command_id := cm_next_command_id cm + 1\<rparr>) = (Inr (length (cm_futures cm)), cm1)"
    "session_ok cm1" "cm_connected cm1"
    by (rule register_first [OF ok c])
  then have "request R type bytes (cm, p) = (Inl e, (cm1, p1))"
    using sent by (simp add: request_def take_command_id_def send_command_def)
  with reg(2,3) show thesis by (intro that [of cm1]) simp_all
qed

lemma request_unanswered:
  assumes ok: "session_ok cm" and c: "cm_connected cm" and e: "\<not> uncaught e"
    and sent: "pr_write R (command_of cm type bytes) p = (Inr u, p1)" and read: "pr_read R p1 = (Inl e, p1)"
  obtains cm' where "request R type bytes (cm, p) = (Inl e, (cm', p1))" "session_ok cm'" "\<not> cm_connected cm'"
proof -
  let ?k = "length (cm_futures cm)"
  obtain cm1 where reg: "register_promise (cm_next_command_id cm)
      (cm\<lparr>cm_next_command_id := cm_next_command_id cm + 1\<rparr>) = (Inr ?k, cm1)"
    and ok1: "session_ok cm1" and c1: "cm_connected cm1"
    and none: "cm_futures cm1 ! ?k = None" "?k < length (cm_futures cm1)"
    by (rule register_first [OF ok c])
  obtain cm' where failed: "read_response R (cm1, p1) = (Inr (), (cm', p1))" "session_ok cm'"
    "\<not> cm_connected cm'" "cm_futures cm' ! ?k = Some (Inl e)"
    using read_fails [OF ok1 c1 e read] none by metis
  have "await R ?k (cm1, p1) = await R ?k (cm', p1)"
    by (subst await.simps) (simp add: c1 none failed(1))
  also have "\<dots> = (Inl e, (cm', p1))"
    by (subst await.simps) (simp add: failed(4))
  finally have "request R type bytes (cm, p) = (Inl e, (cm', p1))"
    using reg sent by (simp add: request_def take_command_id_def send_command_def)
  with failed(2,3) show thesis by (intro that [of cm']) simp_all
qed

lemma request_cut:
  assumes ok: "session_ok cm" and c: "cm_connected cm" and e: "\<not> uncaught (cut_exn c)"
    and k: "k = cm_next_command_id cm" and inbox: "rm_inbox p = []"
  obtains cm' where "request (cut_peer P android c k) type bytes (cm, p)
      = (Inl (cut_exn c), (cm', cut_state P android c (command_of cm type bytes) p))"
    "session_ok cm'" "cm_connected cm' \<longleftrightarrow> (\<exists>e. c = Cut_Sending e)"
proof (cases rule: cut_write_cases [of c P android "command_of cm type bytes" p])
  case (1 e)
  then have "pr_write (cut_peer P android c k) (command_of cm type bytes) p = (Inl e, p)" by (simp add: k)
  from request_unsent [OF ok c this] 1 that show thesis by simp blast
next
  case 2
  let ?p = "cut_state P android c (command_of cm type bytes) p"
  have sent: "pr_write (cut_peer P android c k) (command_of cm type bytes) p = (Inr (), ?p)"
    using 2(2) by (simp add: prod_eq_iff k)
  have "pr_read (cut_peer P android c k) ?p = (Inl (cut_exn c), ?p)" by (simp add: inbox)
  from request_unanswered [OF ok c e sent this] 2(1) that show thesis by blast
qed

text \<open>An earlier command is answered as ever, and the next one has the next id.\<close>

lemma request_before:
  assumes idle: "idle cm" "rm_inbox p = []" and k: "cm_next_command_id cm \<noteq> k"
  shows "request (cut_peer P android c k) type bytes (cm, p) = request (worker_peer P android) type bytes (cm, p)"
    and "cm_next_command_id (fst (snd (request (worker_peer P android) type bytes (cm, p)))) = cm_next_command_id cm + 1"
proof -
  obtain reply wk w where run: "do_command P android (command_of cm type bytes) (rm_worker p, rm_world p) = (Inr reply, (wk, w))"
    and reply: "msg_id reply = cm_next_command_id cm"
    by (rule command_reply)
  note worker = request_remote [OF idle run]
  let ?p = "\<lparr>rm_worker = wk, rm_world = w, rm_inbox = [reply]\<rparr>"
  have sent: "pr_write (cut_peer P android c k) (command_of cm type bytes) p = (Inr (), ?p)"
    using k run idle(2) by (simp add: worker_write_def)
  have "pr_read (cut_peer P android c k) ?p = (Inr reply, p\<lparr>rm_worker := wk, rm_world := w\<rparr>)"
    using idle(2) by (simp add: cut_peer_def cut_read_def worker_read_def)
  from request_answered [OF idle(1) sent this reply] worker
  show "request (cut_peer P android c k) type bytes (cm, p) = request (worker_peer P android) type bytes (cm, p)" by simp
  show "cm_next_command_id (fst (snd (request (worker_peer P android) type bytes (cm, p)))) = cm_next_command_id cm + 1"
    by (simp add: worker after_call_def)
qed

lemma later_id: "n \<noteq> 0 \<Longrightarrow> n < 2 ^ 32 \<Longrightarrow> (i :: u32) \<noteq> i + of_nat n"
  by (auto simp: word_of_nat_eq_0_iff dest: dvd_imp_le)

lemma request_session: "session_ok cm \<Longrightarrow> session_ok (fst (snd (request R type bytes (cm, p))))"
  using send_command_outcome(1) [of "cm\<lparr>cm_next_command_id := cm_next_command_id cm + 1\<rparr>" R "command_of cm type bytes" p]
  by (simp add: session_ok_id request_def take_command_id_def prod_eq_iff)

text \<open>A command whose response is lost leaves the machine as the answered command does.\<close>

lemma request_state:
  assumes idle: "idle cm" "rm_inbox p = []" and ok: "session_ok cm"
  shows "snd (snd (request (worker_peer P android) type bytes (cm, p)))
    = cut_state P android (Cut_Response e) (command_of cm type bytes) p"
proof -
  let ?m = "command_of cm type bytes" and ?R = "worker_peer P android"
  obtain r wk w where run: "do_command P android ?m (rm_worker p, rm_world p) = (r, (wk, w))"
    by (metis prod.exhaust)
  show ?thesis
  proof (cases r)
    case (Inr reply)
    from request_remote [OF idle run [unfolded Inr]] idle(2) show ?thesis
      by (simp add: worker_write_def run Inr)
  next
    case (Inl e')
    let ?p = "p\<lparr>rm_worker := wk, rm_world := w\<rparr>"
    have sent: "pr_write ?R ?m p = (Inr (), ?p)" by (simp add: worker_peer_def worker_write_def run Inl)
    have read: "pr_read ?R ?p = (Inl TransportClosed, ?p)" using idle(2) by (simp add: worker_peer_def worker_read_def)
    have "cm_connected cm" using idle(1) by (simp add: idle_def)
    from request_unanswered [OF ok this _ sent read] obtain cm' where
      "request ?R type bytes (cm, p) = (Inl TransportClosed, (cm', ?p))" by auto
    with idle(2) show ?thesis by (simp add: worker_write_def run Inl)
  qed
qed

section \<open>What has happened on the machine\<close>

text \<open>
  A connection that breaks at command \<open>n\<close> of a call. What the command that is hit does to the machine: nothing
  when it has not arrived, and otherwise its whole effect, of which only the answer is lost.
\<close>

inductive batch_gone :: "'w posix \<Rightarrow> cut \<Rightarrow> dir_ptr \<Rightarrow> 'w world \<Rightarrow> 'w world \<Rightarrow> bool"
  for P :: "'w posix"
where
  not_asked: "batch_gone P (Cut_Sending e) d w w"
| not_heard: "batch_gone P (Cut_Command e) d w w"
| last_read: "listing P d es w w' \<Longrightarrow> length es < 2048 \<Longrightarrow> batch_gone P (Cut_Response e) d w w'"
| full_read: "entries_read P d es w w' \<Longrightarrow> length es = 2048 \<Longrightarrow> batch_gone P (Cut_Response e) d w w'"

text \<open>
  All calls but the listing of a directory have one command. A listing asks for the next 2048 entries until it
  gets fewer; it has filled the entries of the batches before the break. When the call needs no more than
  \<open>n\<close> commands it is answered, and the connection breaks after it.
\<close>

inductive cut_op ::
    "'w posix \<Rightarrow> 'b filler \<Rightarrow> 'b \<Rightarrow> cut \<Rightarrow> nat \<Rightarrow> fuse_call \<Rightarrow> 'w local_fs \<Rightarrow> i32 result \<times> 'b fuse_out \<Rightarrow> 'w local_fs \<Rightarrow> bool"
  for P :: "'w posix" and filler :: "'b filler" and b :: 'b
where
  not_sent: "cut_op P filler b (Cut_Sending e) 0 call l (lost_answer b call) l"
| not_arrived: "cut_op P filler b (Cut_Command e) 0 call l (lost_answer b call) l"
| carried_out: "\<not> lists_directory call \<Longrightarrow> local_op P filler b call l out l' \<Longrightarrow>
    cut_op P filler b (Cut_Response e) 0 call l (lost_answer b call) l'"
| answered: "\<not> lists_directory call \<Longrightarrow> 0 < n \<Longrightarrow> local_op P filler b call l out l' \<Longrightarrow>
    cut_op P filler b c n call l out l'"
| no_directory: "lf_dirs l (id_of_fh (fi_fh fi)) = None \<Longrightarrow>
    cut_op P filler b c n (Do_Readdir path fi) l
      (Inr (if n = 0 then - EIO else - EBADF), Listing_Filled b) l"
| batch_lost: "lf_dirs l (id_of_fh (fi_fh fi)) = Some d \<Longrightarrow> entries_read P d es (lf_world l) w1 \<Longrightarrow>
    length es = n * 2048 \<Longrightarrow> batch_gone P c d w1 w \<Longrightarrow>
    cut_op P filler b c n (Do_Readdir path fi) l
      (Inr (- EIO), Listing_Filled (fill_entries filler (map entry_of es) b)) (l\<lparr>lf_world := w\<rparr>)"
| listed: "lf_dirs l (id_of_fh (fi_fh fi)) = Some d \<Longrightarrow> listing P d es (lf_world l) w \<Longrightarrow> length es < n * 2048 \<Longrightarrow>
    cut_op P filler b c n (Do_Readdir path fi) l
      (Inr 0, Listing_Filled (fill_entries filler (map entry_of es) b)) (l\<lparr>lf_world := w\<rparr>)"

lemma readdir_state:
  assumes "completes (cmd_readdir R i n (cm, p)) x p'"
  shows "snd (snd (request R ReadDir (be32 i @ be32 n) (cm, p))) = p'"
  using assms by (auto simp: completes_def cmd_readdir_def ser_simps split: prod.splits)

lemma readdir_cut_state:
  assumes idle: "idle cm" "rm_inbox p = []" and ok: "session_ok cm"
    and run: "completes (cmd_readdir (worker_peer P android) i n (cm, p)) x p'"
  shows "cut_state P android (Cut_Response e) (command_of cm ReadDir (be32 i @ be32 n)) p = p'"
  using request_state [OF idle ok, of P android ReadDir "be32 i @ be32 n" e] readdir_state [OF run] by simp

lemma cmd_readdir_request:
  "cmd_readdir R i n s = (case request R ReadDir (be32 i @ be32 n) s of (r, s1) \<Rightarrow>
     (fst (cmd_readdir R i n s), s1))"
  by (simp add: cmd_readdir_def ser_simps enc_lengths split: prod.split)

text \<open>A directory the worker knows, its entries and the world when they have been read.\<close>

definition reads_directory ::
    "'w posix \<Rightarrow> i32 \<Rightarrow> worker \<Rightarrow> dir_ptr \<Rightarrow> dirent list \<Rightarrow> 'w world \<Rightarrow> 'w world \<Rightarrow> bool" where
  "reads_directory P i wk d es w w' \<longleftrightarrow> dh_lookup_overridden i (wk_dir_handler wk) = None
     \<and> dh_lookup i (wk_dir_handler wk) = Some d \<and> d \<noteq> nullptr \<and> listing P d es w w' \<and> errno w' = 0
     \<and> (\<forall>e \<in> set es. length (d_name e) \<le> 255)"

lemma next_batch:
  assumes dir: "reads_directory P i (rm_worker p) d es (rm_world p) w" and idle: "idle cm" "rm_inbox p = []"
  obtains (last) "length es < 2048" "completes (cmd_readdir (worker_peer P android) i MaxDirsReadPerCall (cm, p))
      (Inr (map entry_of es, 0)) (p\<lparr>rm_world := w\<rparr>)"
    | (more) w1 where "2048 \<le> length es" "completes (cmd_readdir (worker_peer P android) i MaxDirsReadPerCall (cm, p))
      (Inr (map entry_of (take 2048 es), 0)) (p\<lparr>rm_world := w1\<rparr>)"
      "entries_read P d (take 2048 es) (rm_world p) w1" "reads_directory P i (rm_worker p) d (drop 2048 es) w1 w"
proof -
  have known: "dh_lookup_overridden i (wk_dir_handler (rm_worker p)) = None"
    "dh_lookup i (wk_dir_handler (rm_worker p)) = Some d" "d \<noteq> nullptr"
    and es: "listing P d es (rm_world p) w" "errno w = 0" "\<forall>e \<in> set es. length (d_name e) \<le> 255"
    using dir by (simp_all add: reads_directory_def)
  show thesis
  proof (cases "length es < 2048")
    case True
    then have "length (entries_bytes es) < 2 ^ 31" using entry_bytes_bound [OF es(3)] by simp
    from readdir_remote [OF idle known this, of P w MaxDirsReadPerCall android] es(1,2) True show thesis
      by (intro last) simp_all
  next
    case False
    let ?xs = "take 2048 es" and ?ys = "drop 2048 es"
    obtain w1 where xs: "entries_read P d ?xs (rm_world p) w1" and ys: "listing P d ?ys w1 w"
      using es(1) entries_read_append [of P d ?xs ?ys] by (auto simp: listing_def)
    have n: "length ?xs = 2048" and names: "\<forall>e \<in> set ?xs. length (d_name e) \<le> 255"
      "\<forall>e \<in> set ?ys. length (d_name e) \<le> 255"
      using False es(3) by (auto dest: in_set_takeD in_set_dropD)
    have "length (entries_bytes ?xs) < 2 ^ 31" using entry_bytes_bound [OF names(1)] n by simp
    from readdir_remote [OF idle known this, of P w1 MaxDirsReadPerCall android] xs n
    have "completes (cmd_readdir (worker_peer P android) i MaxDirsReadPerCall (cm, p))
      (Inr (map entry_of ?xs, errno w1)) (p\<lparr>rm_world := w1\<rparr>)" by simp
    moreover have "errno w1 = 0" using entries_read_errno [OF xs] n by force
    ultimately show thesis
      using False xs ys names(2) known es(2) by (intro more [of w1]) (simp_all add: reads_directory_def)
  qed
qed

text \<open>The batch that is lost.\<close>

lemma batch_cut:
  assumes dir: "reads_directory P i (rm_worker p) d es (rm_world p) w" and idle: "idle cm" "rm_inbox p = []"
    and ok: "session_ok cm"
  shows "\<exists>w1. cut_state P android c (command_of cm ReadDir (be32 i @ be32 MaxDirsReadPerCall)) p = p\<lparr>rm_world := w1\<rparr>
    \<and> batch_gone P c d (rm_world p) w1"
proof (cases c)
  case (Cut_Response e)
  from dir idle show ?thesis
  proof (cases rule: next_batch [where android = android])
    case last
    have "batch_gone P c d (rm_world p) w"
      unfolding Cut_Response by (rule last_read [OF _ last(1)]) (use dir in \<open>simp add: reads_directory_def\<close>)
    with readdir_cut_state [OF idle ok last(2), of e] Cut_Response show ?thesis by blast
  next
    case (more w1)
    have "batch_gone P c d (rm_world p) w1"
      unfolding Cut_Response by (rule full_read [OF more(3)]) (use more(1) in simp)
    with readdir_cut_state [OF idle ok more(2), of e] Cut_Response show ?thesis by blast
  qed
qed (auto intro: batch_gone.intros exI [of _ "rm_world p"])

lemma listing_hit:
  assumes dir: "reads_directory P i (rm_worker p) d es (rm_world p) w" and idle: "idle cm" "rm_inbox p = []"
    and ok: "session_ok cm" and e: "\<not> uncaught (cut_exn c)" and k: "k = cm_next_command_id cm"
  shows "\<exists>cm' w1. readdir_batches (cut_peer P android c k) filler i buf (cm, p)
      = Some ((Inl (cut_exn c), buf), (cm', p\<lparr>rm_world := w1\<rparr>)) \<and> session_ok cm' \<and> batch_gone P c d (rm_world p) w1"
proof -
  from batch_cut [OF dir idle ok, where android = android and c = c] obtain w1 where
    state: "cut_state P android c (command_of cm ReadDir (be32 i @ be32 MaxDirsReadPerCall)) p = p\<lparr>rm_world := w1\<rparr>"
    and gone: "batch_gone P c d (rm_world p) w1" by blast
  have "cm_connected cm" using idle by (simp add: idle_def)
  from request_cut [OF ok this e k idle(2), where P = P and android = android and type = ReadDir
    and bytes = "be32 i @ be32 MaxDirsReadPerCall"] obtain cm' where
    sent: "request (cut_peer P android c k) ReadDir (be32 i @ be32 MaxDirsReadPerCall) (cm, p)
      = (Inl (cut_exn c), (cm', p\<lparr>rm_world := w1\<rparr>))" "session_ok cm'" unfolding state by blast
  have "readdir_batches (cut_peer P android c k) filler i buf (cm, p)
      = Some ((Inl (cut_exn c), buf), (cm', p\<lparr>rm_world := w1\<rparr>))"
    by (subst readdir_batches.simps) (simp add: cmd_readdir_def ser_simps enc_lengths sent(1))
  with sent(2) gone show ?thesis by blast
qed

text \<open>A batch before it.\<close>

lemma batch_before:
  assumes idle: "idle cm" "rm_inbox p = []" and ok: "session_ok cm" and k: "cm_next_command_id cm \<noteq> k"
    and run: "completes (cmd_readdir (worker_peer P android) i n (cm, p)) x p'"
  obtains cm' where "cmd_readdir (cut_peer P android c k) i n (cm, p) = (x, (cm', p'))" "idle cm'" "session_ok cm'"
    "cm_next_command_id cm' = cm_next_command_id cm + 1"
proof -
  let ?R = "worker_peer P android" and ?bytes = "be32 i @ be32 n"
  note before = request_before(1) [OF idle k, of P android c ReadDir ?bytes]
    request_before(2) [OF idle k, of P android ReadDir ?bytes]
  obtain cm' where cmd: "cmd_readdir ?R i n (cm, p) = (x, (cm', p'))" "idle cm'" using run by (auto simp: completes_def)
  have req: "snd (request ?R ReadDir ?bytes (cm, p)) = (cm', p')"
    using cmd(1) cmd_readdir_request [of ?R i n "(cm, p)"] by (auto split: prod.splits)
  have "cmd_readdir (cut_peer P android c k) i n (cm, p) = (x, (cm', p'))"
    using cmd(1) before(1) by (simp add: cmd_readdir_def ser_simps enc_lengths)
  moreover have "session_ok cm'" using request_session [OF ok, of ?R ReadDir ?bytes p] by (simp add: req)
  moreover have "cm_next_command_id cm' = cm_next_command_id cm + 1" using before(2) by (simp add: req)
  ultimately show thesis using cmd(2) by (intro that [of cm'])
qed

text \<open>A listing over a connection that breaks at its command \<open>n\<close>.\<close>

lemma listing_cut:
  assumes filler: "never_full filler" and e: "\<not> uncaught (cut_exn c)"
  shows "idle cm \<Longrightarrow> rm_inbox p = [] \<Longrightarrow> session_ok cm \<Longrightarrow> reads_directory P i (rm_worker p) d es (rm_world p) w \<Longrightarrow>
    k = cm_next_command_id cm + of_nat n \<Longrightarrow> n < 2 ^ 32 \<Longrightarrow>
    \<exists>cm' w' r xs. readdir_batches (cut_peer P android c k) filler i buf (cm, p)
        = Some ((r, fill_entries filler (map entry_of xs) buf), (cm', p\<lparr>rm_world := w'\<rparr>)) \<and> session_ok cm'
      \<and> (r = Inr 0 \<and> listing P d xs (rm_world p) w' \<and> length xs < n * 2048
         \<or> r = Inl (cut_exn c) \<and> length xs = n * 2048
           \<and> (\<exists>w1. entries_read P d xs (rm_world p) w1 \<and> batch_gone P c d w1 w'))"
proof (induction n arbitrary: cm p es buf)
  case 0
  then have "k = cm_next_command_id cm" by simp
  from listing_hit [OF 0(4,1,2,3) e this, of android filler buf] obtain cm' w1 where
    "readdir_batches (cut_peer P android c k) filler i buf (cm, p) = Some ((Inl (cut_exn c), buf), (cm', p\<lparr>rm_world := w1\<rparr>))"
    "session_ok cm'" "batch_gone P c d (rm_world p) w1" by blast
  then show ?case by (intro exI [of _ cm'] exI [of _ w1] exI [of _ "Inl (cut_exn c)"] exI [of _ "[]"]) simp
next
  case (Suc n)
  let ?R = "cut_peer P android c k" and ?n = MaxDirsReadPerCall
  have k: "cm_next_command_id cm \<noteq> k" using later_id [of "Suc n"] Suc.prems(5,6) by simp
  from Suc.prems(4,1,2) show ?case
  proof (cases rule: next_batch [where android = android])
    case last
    obtain cm' where cmd: "cmd_readdir ?R i ?n (cm, p) = (Inr (map entry_of es, 0), (cm', p\<lparr>rm_world := w\<rparr>))"
      "session_ok cm'" by (rule batch_before [OF Suc.prems(1-3) k last(2)])
    have "readdir_batches ?R filler i buf (cm, p) = Some ((Inr 0, fill_entries filler (map entry_of es) buf), (cm', p\<lparr>rm_world := w\<rparr>))"
      using last(1) by (subst readdir_batches.simps) (simp add: cmd(1) Let_def)
    with cmd(2) last(1) Suc.prems(4) show ?thesis
      by (intro exI [of _ cm'] exI [of _ w] exI [of _ "Inr 0"] exI [of _ es]) (simp add: reads_directory_def)
  next
    case (more w1)
    let ?xs = "take 2048 es" and ?ys = "drop 2048 es" and ?p = "p\<lparr>rm_world := w1\<rparr>"
    obtain cm1 where cmd: "cmd_readdir ?R i ?n (cm, p) = (Inr (map entry_of ?xs, 0), (cm1, ?p))"
      "idle cm1" "session_ok cm1" and id: "cm_next_command_id cm1 = cm_next_command_id cm + 1"
      by (rule batch_before [OF Suc.prems(1-3) k more(2)])
    have "length ?xs = 2048" using more(1) by simp
    then have batch: "readdir_batches ?R filler i buf (cm, p)
        = readdir_batches ?R filler i (fill_entries filler (map entry_of ?xs) buf) (cm1, ?p)"
      by (subst readdir_batches.simps) (simp add: cmd(1) Let_def)
    have k1: "k = cm_next_command_id cm1 + of_nat n" using Suc.prems(5) by (simp add: id)
    have p1: "rm_inbox ?p = []" "reads_directory P i (rm_worker ?p) d ?ys (rm_world ?p) w" "n < 2 ^ 32"
      using Suc.prems(2,6) more(4) by simp_all
    have p2: "rm_world ?p = w1" "?p\<lparr>rm_world := w'\<rparr> = p\<lparr>rm_world := w'\<rparr>" for w' by simp_all
    obtain cm' w' r zs where rest: "readdir_batches ?R filler i (fill_entries filler (map entry_of ?xs) buf) (cm1, ?p)
          = Some ((r, fill_entries filler (map entry_of zs) (fill_entries filler (map entry_of ?xs) buf)), (cm', p\<lparr>rm_world := w'\<rparr>))"
        "session_ok cm'"
        "r = Inr 0 \<and> listing P d zs w1 w' \<and> length zs < n * 2048
         \<or> r = Inl (cut_exn c) \<and> length zs = n * 2048 \<and> (\<exists>w2. entries_read P d zs w1 w2 \<and> batch_gone P c d w2 w')"
      using Suc.IH [OF cmd(2) p1(1) cmd(3) p1(2) k1 p1(3), of "fill_entries filler (map entry_of ?xs) buf"] unfolding p2
      by blast
    have fill: "fill_entries filler (map entry_of zs) (fill_entries filler (map entry_of ?xs) buf)
        = fill_entries filler (map entry_of (?xs @ zs)) buf"
      by (simp add: fill_entries_all [OF filler] del: append_take_drop_id)
    have "r = Inr 0 \<and> listing P d (?xs @ zs) (rm_world p) w' \<and> length (?xs @ zs) < Suc n * 2048
        \<or> r = Inl (cut_exn c) \<and> length (?xs @ zs) = Suc n * 2048
          \<and> (\<exists>w2. entries_read P d (?xs @ zs) (rm_world p) w2 \<and> batch_gone P c d w2 w')"
      using rest(3) more(1,3) by (auto simp: listing_def entries_read_append)
    with rest(1,2) show ?thesis
      unfolding batch fill by blast
  qed
qed

lemma response_cut:
  assumes kernel: "kernel_behaves P" and filler: "never_full filler" and name: "client_name client"
    and m: "mounted client cm p sv" and tables: "tables_ok p" "room 1 p" and call: "call_ok call" "\<not> lists_directory call"
    and sent: "send_call (worker_peer P False) call (cm, p) = (r, (cm1, p1))"
  obtains out where "zcfs_operations (worker_peer P False) filler b (on_client client call) (Some sv)
      = Some (out, Some (put_commander client (cm1, p1) sv))" "rm_inbox p1 = []"
    "local_op P filler b call (local_view p) out (local_view p1)"
proof -
  have found: "map_find client (sv_commanders sv) = Some (cm, p)" "cm_connected (fst (cm, p))"
    using m by (simp_all add: mounted_def idle_def)
  obtain out where one: "zcfs_operations (worker_peer P False) filler b (on_client client call) (Some sv)
      = Some (out, Some (put_commander client (cm1, p1) sv))"
    by (rule call_sends_one [OF name call found sent])
  from operations_simulate [OF kernel filler name m tables call(1), of b] one
  obtain cm' p' where after: "mounted client cm' p' (put_commander client (cm1, p1) sv)"
    and op: "local_op P filler b call (local_view p) out (local_view p')"
    unfolding simulates_def by auto
  then have "cm' = cm1" "p' = p1" by (simp_all add: mounted_def put_commander_def map_find_assign)
  with one op mounted_idle(2) [OF after] show thesis by (intro that [of out]) simp_all
qed

text \<open>One call whose connection breaks, at the commander's next command but \<open>n\<close>.\<close>

definition cut_result ::
    "'w posix \<Rightarrow> 'b filler \<Rightarrow> 'b \<Rightarrow> string \<Rightarrow> cut \<Rightarrow> nat \<Rightarrow> fuse_call \<Rightarrow> commander \<Rightarrow> 'w remote \<Rightarrow> 'w remote server \<Rightarrow> bool" where
  "cut_result P filler b client c n call cm p sv \<longleftrightarrow>
     (\<exists>out cm' p'. zcfs_operations (cut_peer P False c (cm_next_command_id cm + of_nat n)) filler b
          (on_client client call) (Some sv) = Some (out, Some (put_commander client (cm', p') sv))
        \<and> session_ok cm' \<and> rm_inbox p' = [] \<and> cut_op P filler b c n call (local_view p) out (local_view p'))"

lemma cut_resultI:
  assumes "zcfs_operations (cut_peer P False c (cm_next_command_id cm + of_nat n)) filler b (on_client client call)
      (Some sv) = Some (out, Some (put_commander client (cm', p') sv))"
    and "session_ok cm'" "rm_inbox p' = []" "cut_op P filler b c n call (local_view p) out (local_view p')"
  shows "cut_result P filler b client c n call cm p sv"
  using assms unfolding cut_result_def by blast

lemma cut_listing:
  assumes kernel: "kernel_behaves P" and filler: "never_full filler" and name: "client_name client"
    and m: "mounted client cm p sv" and ok: "session_ok cm" and tables: "tables_ok p" "room 1 p"
    and call: "call_ok (Do_Readdir path fi)" and e: "\<not> uncaught (cut_exn c)" and n: "n < 2 ^ 32"
    and known: "lf_dirs (local_view p) (id_of_fh (fi_fh fi)) = Some d"
  shows "cut_result P filler b client c n (Do_Readdir path fi) cm p sv"
proof -
  let ?i = "id_of_fh (fi_fh fi)" and ?k = "cm_next_command_id cm + of_nat n"
  have dir: "dh_lookup ?i (wk_dir_handler (rm_worker p)) = Some d" using known by (simp add: local_view_def)
  then have d: "d \<noteq> nullptr" using tables by (auto simp: tables_ok_def)
  obtain es w where es: "listing P d es (rm_world p) w" "errno w = 0" "\<forall>e \<in> set es. length (d_name e) \<le> 255"
    using kernel d unfolding kernel_behaves_def by blast
  have "dh_lookup_overridden ?i (wk_dir_handler (rm_worker p)) = None"
    using tables by (simp add: tables_ok_def dh_lookup_overridden_def map_empty_def)
  with dir d es have reads: "reads_directory P ?i (rm_worker p) d es (rm_world p) w" by (simp add: reads_directory_def)
  have found: "map_find client (sv_commanders sv) = Some (cm, p)" "cm_connected cm"
    using m by (simp_all add: mounted_def idle_def)
  from listing_cut [OF filler e mounted_idle [OF m] ok reads refl n, where buf = b and android = False] obtain cm' w' r xs where
    run: "readdir_batches (cut_peer P False c ?k) filler ?i b (cm, p)
        = Some ((r, fill_entries filler (map entry_of xs) b), (cm', p\<lparr>rm_world := w'\<rparr>))" "session_ok cm'"
    and r: "r = Inr 0 \<and> listing P d xs (rm_world p) w' \<and> length xs < n * 2048
      \<or> r = Inl (cut_exn c) \<and> length xs = n * 2048
        \<and> (\<exists>w1. entries_read P d xs (rm_world p) w1 \<and> batch_gone P c d w1 w')" by blast
  note path = mounted_path_splits [OF name, unfolded path_ok_def]
  have run_all: "zcfs_operations (cut_peer P False c ?k) filler b (on_client client (Do_Readdir path fi)) (Some sv)
      = Some ((error_handler r, Listing_Filled (fill_entries filler (map entry_of xs) b)),
          Some (put_commander client (cm', p\<lparr>rm_world := w'\<rparr>) sv))"
    using call found run(1) by (simp add: call_steps path)
  have op: "cut_op P filler b c n (Do_Readdir path fi) (local_view p)
      (error_handler r, Listing_Filled (fill_entries filler (map entry_of xs) b)) (local_view (p\<lparr>rm_world := w'\<rparr>))"
    using r
  proof (elim disjE conjE exE)
    assume *: "r = Inr 0" "listing P d xs (rm_world p) w'" "length xs < n * 2048"
    show ?thesis
      unfolding *(1) world_only(3) using cut_op.listed [OF known *(2) [folded world_only(4)] *(3), of filler b c path]
      by (simp add: error_handler_def)
  next
    fix w1 assume *: "r = Inl (cut_exn c)" "length xs = n * 2048" "entries_read P d xs (rm_world p) w1" "batch_gone P c d w1 w'"
    show ?thesis
      unfolding *(1) world_only(3)
      using cut_op.batch_lost [OF known *(3) [folded world_only(4)] *(2,4), of filler b path] e
      by (simp add: error_handler_def)
  qed
  have "rm_inbox (p\<lparr>rm_world := w'\<rparr>) = []" using mounted_idle(2) [OF m] by simp
  then show ?thesis by (rule cut_resultI [OF run_all run(2) _ op])
qed

lemma cut_unlisted:
  assumes name: "client_name client" and m: "mounted client cm p sv" and ok: "session_ok cm" and tables: "tables_ok p"
    and call: "call_ok (Do_Readdir path fi)" and e: "\<not> uncaught (cut_exn c)" and n: "n < 2 ^ 32"
    and unknown: "lf_dirs (local_view p) (id_of_fh (fi_fh fi)) = None"
  shows "cut_result P filler b client c n (Do_Readdir path fi) cm p sv"
proof -
  let ?i = "id_of_fh (fi_fh fi)" and ?k = "cm_next_command_id cm + of_nat n" and ?call = "Do_Readdir path fi"
  note idle = mounted_idle [OF m]
  have found: "map_find client (sv_commanders sv) = Some (cm, p)" "cm_connected cm"
    using m by (simp_all add: mounted_def idle_def)
  have "dh_lookup_overridden ?i (wk_dir_handler (rm_worker p)) = None" "dh_lookup ?i (wk_dir_handler (rm_worker p)) = None"
    using tables unknown by (simp_all add: tables_ok_def dh_lookup_overridden_def map_empty_def local_view_def)
  note readdir = readdir_unknown_remote [OF idle this, of P False MaxDirsReadPerCall]
  have op: "cut_op P filler b c n ?call (local_view p) (Inr (if n = 0 then - EIO else - EBADF), Listing_Filled b) (local_view p)"
    by (rule cut_op.no_directory [OF unknown])
  show ?thesis
  proof (cases "n = 0")
    case True
    have state: "cut_state P False c (command_of cm ReadDir (be32 ?i @ be32 MaxDirsReadPerCall)) p = p"
      using readdir_cut_state [OF idle ok readdir] by (cases c) simp_all
    have "?k = cm_next_command_id cm" using True by simp
    from request_cut [OF ok found(2) e this idle(2), of P False ReadDir "be32 ?i @ be32 MaxDirsReadPerCall"]
    obtain cm' where sent: "send_call (cut_peer P False c ?k) ?call (cm, p) = (Inl (cut_exn c), (cm', p))" "session_ok cm'"
      unfolding state by auto
    have "zcfs_operations (cut_peer P False c ?k) filler b (on_client client ?call) (Some sv)
        = Some (lost_answer b ?call, Some (put_commander client (cm', p) sv))"
      by (rule call_fails [OF name call found(1) _ sent(1) e]) (simp add: found(2))
    with sent(2) idle(2) op True show ?thesis unfolding cut_result_def by (auto simp: lost_answer_def)
  next
    case False
    have k: "cm_next_command_id cm \<noteq> ?k" by (rule later_id [OF False n])
    obtain cm' where "cmd_readdir (cut_peer P False c ?k) ?i MaxDirsReadPerCall (cm, p) = (Inr ([], EBADF), (cm', p))"
      and ok': "session_ok cm'" by (rule batch_before [OF idle ok k readdir])
    then have "readdir_batches (cut_peer P False c ?k) filler ?i b (cm, p) = Some ((Inr (- EBADF), b), (cm', p))"
      by (subst readdir_batches.simps) (simp add: negated_def)
    then have "zcfs_operations (cut_peer P False c ?k) filler b (on_client client ?call) (Some sv)
        = Some ((Inr (- EBADF), Listing_Filled b), Some (put_commander client (cm', p) sv))"
      using call found by (simp add: call_steps mounted_path_splits [OF name, unfolded path_ok_def])
    with ok' idle(2) op False show ?thesis unfolding cut_result_def by auto
  qed
qed

text \<open>A call of one command, which is hit or comes before the break.\<close>

lemma cut_command:
  assumes name: "client_name client" and m: "mounted client cm p sv" and ok: "session_ok cm"
    and call: "call_ok call" "\<not> lists_directory call" and e: "\<not> uncaught (cut_exn c)"
    and sent: "send_call (worker_peer P False) call (cm, p) = (r, (cm1, p1))"
    and op: "local_op P filler b call (local_view p) out (local_view p1)"
  shows "cut_result P filler b client c 0 call cm p sv"
proof -
  let ?k = "cm_next_command_id cm + of_nat 0"
  let ?p = "cut_state P False c (command_of cm (fst (call_command call)) (snd (call_command call))) p"
  note idle = mounted_idle [OF m]
  have found: "map_find client (sv_commanders sv) = Some (cm, p)" "cm_connected cm"
    using m by (simp_all add: mounted_def idle_def)
  have k: "?k = cm_next_command_id cm" by simp
  obtain cm' where lost: "send_call (cut_peer P False c ?k) call (cm, p) = (Inl (cut_exn c), (cm', ?p))" "session_ok cm'"
    using request_cut [OF ok found(2) e k idle(2)] by blast
  have fails: "zcfs_operations (cut_peer P False c ?k) filler b (on_client client call) (Some sv)
      = Some (lost_answer b call, Some (put_commander client (cm', ?p) sv))"
    by (rule call_fails [OF name call(1) found(1) _ lost(1) e]) (simp add: found(2))
  have gone: "cut_op P filler b c 0 call (local_view p) (lost_answer b call) (local_view ?p)"
  proof (cases c)
    case (Cut_Response e)
    have "?p = p1" using request_state [OF idle ok, of P False "fst (call_command call)" "snd (call_command call)" e] sent
      by (simp add: Cut_Response)
    with cut_op.carried_out [OF call(2) op] Cut_Response show ?thesis by simp
  qed (simp_all add: cut_op.not_sent cut_op.not_arrived)
  have "rm_inbox ?p = []" by (simp add: idle(2))
  then show ?thesis by (rule cut_resultI [OF fails lost(2) _ gone])
qed

lemma cut_call:
  assumes kernel: "kernel_behaves P" and filler: "never_full filler" and name: "client_name client"
    and m: "mounted client cm p sv" and ok: "session_ok cm" and tables: "tables_ok p" "room 1 p"
    and call: "call_ok call" and e: "\<not> uncaught (cut_exn c)" and n: "n < 2 ^ 32"
  shows "cut_result P filler b client c n call cm p sv"
proof (cases "lists_directory call")
  case True
  then obtain path fi where "call = Do_Readdir path fi" by (auto simp: lists_directory_def)
  with cut_listing [OF kernel filler name m ok tables _ e n] cut_unlisted [OF name m ok tables(1) _ e n, of _ _ P filler b] call show ?thesis
    by (cases "lf_dirs (local_view p) (id_of_fh (fi_fh fi))") auto
next
  case False
  let ?k = "cm_next_command_id cm + of_nat n"
  have found: "map_find client (sv_commanders sv) = Some (cm, p)" "cm_connected cm"
    using m by (simp_all add: mounted_def idle_def)
  obtain r cm1 p1 where sent: "send_call (worker_peer P False) call (cm, p) = (r, (cm1, p1))" by (metis prod.exhaust)
  obtain out where run: "zcfs_operations (worker_peer P False) filler b (on_client client call) (Some sv)
      = Some (out, Some (put_commander client (cm1, p1) sv))" "rm_inbox p1 = []"
    and op: "local_op P filler b call (local_view p) out (local_view p1)"
    by (rule response_cut [OF kernel filler name m tables call False sent])
  show ?thesis
  proof (cases "n = 0")
    case True
    with cut_command [OF name m ok call False e sent op] show ?thesis by simp
  next
    case n0: False
    have "send_call (cut_peer P False c ?k) call (cm, p) = (r, (cm1, p1))"
      using request_before(1) [OF mounted_idle [OF m] later_id [OF n0 n]] sent by simp
    from call_same [OF name call False found(1) _ this sent, of filler b] found(2) run(1)
    have "zcfs_operations (cut_peer P False c ?k) filler b (on_client client call) (Some sv)
        = Some (out, Some (put_commander client (cm1, p1) sv))" by simp
    moreover have "session_ok cm1" using request_session [OF ok] sent by (metis fst_conv snd_conv)
    ultimately show ?thesis
      using run(2) cut_op.answered [OF False _ op, of n c] n0 unfolding cut_result_def by blast
  qed
qed

section \<open>The mount point afterwards\<close>

text \<open>
  The reader of the client's commander, if it still runs, is the next to use the connection; \<open>machine_of\<close> is the
  machine at its other end.
\<close>

definition reader_round :: "'p peer \<Rightarrow> string \<Rightarrow> 'p server \<Rightarrow> 'p server" where
  "reader_round R client sv =
     (case map_find client (sv_commanders sv) of
        None \<Rightarrow> sv
      | Some s \<Rightarrow> (if cm_connected (fst s) then put_commander client (snd (read_response R s)) sv else sv))"

definition machine_of :: "string \<Rightarrow> 'w remote server \<Rightarrow> 'w local_fs option" where
  "machine_of client sv = map_option (\<lambda>s. local_view (snd s)) (map_find client (sv_commanders sv))"

text \<open>The id of the command that is \<open>n\<close> commands after the client's next.\<close>

definition cut_at :: "string \<Rightarrow> nat \<Rightarrow> 'p server \<Rightarrow> u32" where
  "cut_at client n sv = (case map_find client (sv_commanders sv) of
     None \<Rightarrow> 0 | Some s \<Rightarrow> cm_next_command_id (fst s) + of_nat n)"

text \<open>
  The events of a run: a call that is served, a call on a client whose connection breaks at the command number
  \<open>n\<close> of the call, from zero on, or after the call when it has no more than \<open>n\<close> commands, and a worker
  that connects. A break also tells the state of the machine it leaves behind, a new worker the name of its
  host; the kernel of the server gives the connections (\<open>N\<close>), \<open>accepted\<close> the machines at their other ends.
\<close>

datatype fuse_event = Served fuse_call | Broken cut nat string fuse_call | Joined

datatype ('w, 'b) event_result =
    Answer "i32 result \<times> 'b fuse_out"
  | Answer_Lost "i32 result \<times> 'b fuse_out" "'w local_fs option"
  | Joined_As string

type_synonym ('w, 'v) server_side = "'w remote server \<times> 'v world"

definition joining_name :: "'v net \<Rightarrow> 'w remote server \<Rightarrow> 'v world \<Rightarrow> string" where
  "joining_name N sv w =
     (case tcp_accept N (sv_socket sv) w of
        (Inl e, _) \<Rightarrow> []
      | (Inr (connection, ip, port), _) \<Rightarrow> format_connection N ip port)"

fun event_step ::
    "'w posix \<Rightarrow> 'v net \<Rightarrow> (i32 \<Rightarrow> ('w remote result, 'v) call) \<Rightarrow> 'b filler \<Rightarrow> 'b \<Rightarrow> fuse_event
       \<Rightarrow> ('w, 'v) server_side \<Rightarrow> (('w, 'b) event_result \<times> ('w, 'v) server_side) option" where
  "event_step P N accepted filler b (Served call) (sv, w) =
     (case zcfs_operations (worker_peer P False) filler b call (Some sv) of
        Some (out, Some sv1) \<Rightarrow> Some (Answer out, (sv1, w))
      | _ \<Rightarrow> None)"
| "event_step P N accepted filler b (Broken c n client call) (sv, w) =
     (let R = cut_peer P False c (cut_at client n sv)
      in case zcfs_operations R filler b (on_client client call) (Some sv) of
           Some (out, Some sv1) \<Rightarrow>
             let sv2 = reader_round R client sv1
             in Some (Answer_Lost out (machine_of client sv2), (sv2, w))
         | _ \<Rightarrow> None)"
| "event_step P N accepted filler b Joined (sv, w) =
     (case accept_one N (worker_peer P False) accepted sv w of
        (Inl e, _) \<Rightarrow> None
      | (Inr _, s1) \<Rightarrow> Some (Joined_As (joining_name N sv w), s1))"

fun event_run ::
    "'w posix \<Rightarrow> 'v net \<Rightarrow> (i32 \<Rightarrow> ('w remote result, 'v) call) \<Rightarrow> 'b filler \<Rightarrow> 'b \<Rightarrow> fuse_event list
       \<Rightarrow> ('w, 'v) server_side \<Rightarrow> (('w, 'b) event_result list \<times> ('w, 'v) server_side) option" where
  "event_run P N accepted filler b [] s = Some ([], s)"
| "event_run P N accepted filler b (event # events) s =
     (case event_step P N accepted filler b event s of
        None \<Rightarrow> None
      | Some (result, s1) \<Rightarrow>
          map_option (\<lambda>(results, s2). (result # results, s2)) (event_run P N accepted filler b events s1))"

text \<open>
  In the specification a break is a crash of the local process, and a process that joins has no handles; it
  takes the place of one of the same name.
\<close>

definition no_handles :: "'w local_fs \<Rightarrow> bool" where
  "no_handles l \<longleftrightarrow> lf_files l = (\<lambda>_. None) \<and> lf_dirs l = (\<lambda>_. None)"

inductive crash_op ::
    "'w posix \<Rightarrow> 'b filler \<Rightarrow> 'b \<Rightarrow> fuse_event \<Rightarrow> 'w mount \<Rightarrow> ('w, 'b) event_result \<Rightarrow> 'w mount \<Rightarrow> bool"
  for P :: "'w posix" and filler :: "'b filler" and b :: 'b
where
  served: "mount_op P filler b call ns out ns' \<Longrightarrow> crash_op P filler b (Served call) ns (Answer out) ns'"
| crashed: "ns client = Some l \<Longrightarrow> cut_op P filler b c n call l out l' \<Longrightarrow>
    crash_op P filler b (Broken c n client call) ns (Answer_Lost out (Some l')) (ns(client := None))"
| already_gone: "ns client = None \<Longrightarrow>
    crash_op P filler b (Broken c n client call) ns (Answer_Lost (absent_answer b call) None) ns"
| joined: "client_name name \<Longrightarrow> no_handles l \<Longrightarrow> crash_op P filler b Joined ns (Joined_As name) (ns(name \<mapsto> l))"

inductive crash_run ::
    "'w posix \<Rightarrow> 'b filler \<Rightarrow> 'b \<Rightarrow> fuse_event list \<Rightarrow> 'w mount \<Rightarrow> ('w, 'b) event_result list \<Rightarrow> 'w mount \<Rightarrow> bool"
  for P :: "'w posix" and filler :: "'b filler" and b :: 'b
where
  no_events: "crash_run P filler b [] ns [] ns"
| next_event: "crash_op P filler b event ns result ns1 \<Longrightarrow> crash_run P filler b events ns1 results ns2 \<Longrightarrow>
    crash_run P filler b (event # events) ns (result # results) ns2"

text \<open>A kernel that goes on giving connections, from hosts whose workers have just started.\<close>

definition new_client :: "'w remote \<Rightarrow> bool" where
  "new_client p \<longleftrightarrow> rm_worker p = new_worker \<and> rm_inbox p = []"

definition workers_join :: "'v net \<Rightarrow> (i32 \<Rightarrow> ('w remote result, 'v) call) \<Rightarrow> bool" where
  "workers_join N accepted \<longleftrightarrow>
     (\<forall>sock w. \<exists>fd ip port w1. tcp_accept N sock w = (Inr (fd, ip, port), w1) \<and> client_name (format_connection N ip port))
     \<and> (\<forall>fd w. \<exists>p w1. accepted fd w = (Inr p, w1) \<and> new_client p)"

fun event_ok :: "fuse_event \<Rightarrow> bool" where
  "event_ok (Served call) \<longleftrightarrow> mount_call_ok call"
| "event_ok (Broken c n client call) \<longleftrightarrow> client_name client \<and> call_ok call \<and> \<not> uncaught (cut_exn c) \<and> n < 2 ^ 32"
| "event_ok Joined \<longleftrightarrow> True"

definition event_simulates ::
    "'w posix \<Rightarrow> 'v net \<Rightarrow> (i32 \<Rightarrow> ('w remote result, 'v) call) \<Rightarrow> 'b filler \<Rightarrow> 'b \<Rightarrow> nat \<Rightarrow> fuse_event
       \<Rightarrow> ('w, 'v) server_side \<Rightarrow> bool" where
  "event_simulates P N accepted filler b n event s \<longleftrightarrow>
     (\<exists>result s1. event_step P N accepted filler b event s = Some (result, s1)
        \<and> crash_op P filler b event (mount_view (fst s)) result (mount_view (fst s1)) \<and> all_mounted n (fst s1))"

lemma served_events:
  assumes "kernel_behaves P" "never_full filler" "all_mounted (Suc n) sv" "mount_call_ok call"
  shows "event_simulates P N accepted filler b n (Served call) (sv, w)"
proof -
  obtain out sv' where "zcfs_operations (worker_peer P False) filler b call (Some sv) = Some (out, Some sv')"
    "mount_op P filler b call (mount_view sv) out (mount_view sv')" "all_mounted n sv'"
    using mount_calls [OF assms, of b] unfolding mount_simulates_def by blast
  then show ?thesis by (auto simp: event_simulates_def intro: crash_op.served)
qed

text \<open>Whatever the call has left of the connection, the reader finds it broken.\<close>

lemma reader_finds:
  assumes found: "map_find client (sv_commanders sv) = Some (cm, p)" and ok: "session_ok cm"
    and e: "\<not> uncaught (cut_exn c)" and inbox: "rm_inbox p = []"
  obtains cm' where "map_find client (sv_commanders (reader_round (cut_peer P False c k) client sv)) = Some (cm', p)"
    "\<not> cm_connected cm'"
    "\<And>other. other \<noteq> client \<Longrightarrow> map_find other (sv_commanders (reader_round (cut_peer P False c k) client sv))
        = map_find other (sv_commanders sv)"
    "fs_ok sv \<Longrightarrow> fs_ok (reader_round (cut_peer P False c k) client sv)"
proof (cases "cm_connected cm")
  case True
  have read: "pr_read (cut_peer P False c k) p = (Inl (cut_exn c), p)" by (simp add: inbox)
  obtain cm' where cm': "read_response (cut_peer P False c k) (cm, p) = (Inr (), (cm', p))" "session_ok cm'"
    "\<not> cm_connected cm'"
    by (rule read_fails [OF ok True e read])
  have round: "reader_round (cut_peer P False c k) client sv = put_commander client (cm', p) sv"
    by (simp add: reader_round_def found True cm'(1))
  show thesis
    by (rule that [of cm']) (simp_all add: round cm' fs_ok_put, simp_all add: put_commander_def map_find_assign)
next
  case False
  with found that [of cm] show thesis by (simp add: reader_round_def)
qed

lemma event_simulatesI:
  assumes "k = cut_at client i sv" and "zcfs_operations (cut_peer P False c k) filler b (on_client client call) (Some sv) = Some (out, Some sv1)"
    and "crash_op P filler b (Broken c i client call) (mount_view sv)
      (Answer_Lost out (machine_of client (reader_round (cut_peer P False c k) client sv1)))
      (mount_view (reader_round (cut_peer P False c k) client sv1))"
    and "all_mounted n (reader_round (cut_peer P False c k) client sv1)"
  shows "event_simulates P N accepted filler b n (Broken c i client call) (sv, w)"
  using assms unfolding event_simulates_def by (simp add: Let_def)

lemma broken_events:
  assumes kernel: "kernel_behaves P" and filler: "never_full filler" and all: "all_mounted (Suc n) sv"
    and name: "client_name client" and call: "call_ok call" and e: "\<not> uncaught (cut_exn c)" and i: "i < 2 ^ 32"
  shows "event_simulates P N accepted filler b n (Broken c i client call) (sv, w)"
proof (cases "map_find client (sv_commanders sv)")
  case None
  let ?R = "cut_peer P False c (cut_at client i sv)"
  from None have "reader_round ?R client sv = sv" "mount_view sv client = None" "machine_of client sv = None"
    by (simp_all add: reader_round_def mount_view_def machine_of_def)
  with None show ?thesis
    by (intro event_simulatesI [OF refl absent_call [OF name call None]])
      (simp_all add: crash_op.already_gone all_mounted_less [OF all])
next
  case (Some s)
  obtain cm p where s: "s = (cm, p)" by (rule prod.exhaust)
  let ?R = "cut_peer P False c (cut_at client i sv)"
  have fs: "fs_ok sv" and srv: "server_ok sv" using all by (simp_all add: all_mounted_def fs_ok_def)
  show ?thesis
  proof (cases "cm_connected cm")
    case False
    note dead = Some [unfolded s] False
    let ?sv = "forgotten ?R client sv"
    have gone: "reader_round ?R client ?sv = ?sv" "machine_of client ?sv = None"
      by (simp_all add: reader_round_def machine_of_def forgotten_find [OF srv dead])
    have "mount_view sv client = None" by (simp add: mount_view_def dead)
    then show ?thesis
      using forgotten_mounted [OF all_mounted_less [OF all] dead, of ?R]
      by (intro event_simulatesI [OF refl dead_call [OF name call dead]]) (simp_all add: gone crash_op.already_gone)
  next
    case True
    note live = Some [unfolded s]
    have m: "mounted client cm p sv" and tables: "tables_ok p" and room: "room (Suc n) p"
      using all live True by (auto simp: all_mounted_def)
    have "room 1 p" using room by (simp add: room_def counter_room_def)
    moreover have "session_ok cm" using fs_ok_session [OF fs live] by simp
    ultimately have "cut_result P filler b client c i call cm p sv"
      by (intro cut_call [OF kernel filler name m _ tables _ call e i])
    moreover have "cut_at client i sv = cm_next_command_id cm + of_nat i" by (simp add: cut_at_def live)
    ultimately obtain out cm1 p1 where
      run: "zcfs_operations ?R filler b (on_client client call) (Some sv) = Some (out, Some (put_commander client (cm1, p1) sv))"
      and ok1: "session_ok cm1" and inbox: "rm_inbox p1 = []"
      and cut: "cut_op P filler b c i call (local_view p) out (local_view p1)"
      unfolding cut_result_def by auto
    let ?sv1 = "put_commander client (cm1, p1) sv"
    let ?sv2 = "reader_round ?R client ?sv1"
    have find1: "map_find other (sv_commanders ?sv1) = (if other = client then Some (cm1, p1)
        else map_find other (sv_commanders sv))" for other
      by (simp add: put_commander_def map_find_assign)
    have "map_find client (sv_commanders ?sv1) = Some (cm1, p1)" by (simp add: find1)
    from reader_finds [OF this ok1 e inbox, of P "cut_at client i sv"] obtain cm2 where
      found: "map_find client (sv_commanders ?sv2) = Some (cm2, p1)" "\<not> cm_connected cm2"
      and others: "\<And>other. other \<noteq> client \<Longrightarrow> map_find other (sv_commanders ?sv2) = map_find other (sv_commanders sv)"
      and fs2: "fs_ok ?sv2"
      using fs_ok_put [OF fs, of "(cm1, p1)" client] ok1 find1 by (metis fst_conv)
    have machine: "machine_of client ?sv2 = Some (local_view p1)" by (simp add: machine_of_def found)
    have view: "mount_view ?sv2 = (mount_view sv)(client := None)"
      using found others by (auto simp: mount_view_def fun_eq_iff)
    have "mount_view sv client = Some (local_view p)" using live True by (simp add: mount_view_def)
    from crash_op.crashed [where ns = "mount_view sv", OF this cut]
    have step: "crash_op P filler b (Broken c i client call) (mount_view sv)
        (Answer_Lost out (machine_of client ?sv2)) (mount_view ?sv2)" by (simp only: machine view)
    have "mounted other cm3 p3 ?sv2 \<and> tables_ok p3 \<and> room n p3"
      if "map_find other (sv_commanders ?sv2) = Some (cm3, p3)" "cm_connected cm3" for other cm3 p3
    proof -
      have "other \<noteq> client" using that found by auto
      with that others all_mounted_less [OF all] show ?thesis by (auto simp: all_mounted_def mounted_def)
    qed
    moreover have "map_find [] (sv_commanders ?sv2) = None"
      using all others [of "[]"] name by (auto simp: all_mounted_def client_name_def)
    ultimately have "all_mounted n ?sv2" using fs2 unfolding all_mounted_def by blast
    with run step show ?thesis by (intro event_simulatesI [OF refl])
  qed
qed

text \<open>A worker that connects.\<close>

lemma disconnect_returns:
  assumes "peer_returns R" "session_ok (fst s)" shows "fst (disconnect R s) = Inr ()"
proof -
  obtain cm p where s: "s = (cm, p)" by (rule prod.exhaust)
  have ok: "session_ok (cm\<lparr>cm_next_command_id := cm_next_command_id cm + 1\<rparr>)" using assms(2) s by (simp add: session_ok_id)
  have "\<not> uncaught e" if "request R Disconnect [] s = (Inl e, s')" for e s'
    using send_command_returns [OF assms(1) ok] that by (auto simp: s request_def take_command_id_def)
  then show ?thesis by (auto simp: s disconnect_def split: prod.split sum.split)
qed

lemma erase_returns:
  assumes "peer_returns R" "fs_ok sv" shows "fst (erase_commander R name sv) = Inr ()"
proof (cases "map_find name (sv_commanders sv)")
  case (Some s)
  from disconnect_returns [OF assms(1) fs_ok_session [OF assms(2) Some]] Some show ?thesis
    by (auto simp: erase_commander_def delete_commander_def split: prod.split sum.split)
qed (simp add: erase_commander_def)

lemma new_client_mounted:
  assumes "new_client p" "map_find name (sv_commanders sv) = Some (new_commander, p)" "n < 2 ^ 31"
  shows "mounted name new_commander p sv" "tables_ok p" "room n p" "no_handles (local_view p)"
proof -
  show "mounted name new_commander p sv"
    using assms by (simp add: mounted_def new_client_def idle_def new_commander_def map_empty_def)
  show "tables_ok p"
    using assms(1) by (simp add: new_client_def tables_ok_def new_worker_def new_file_handler_def new_dir_handler_def
        fh_ok_def dh_ok_def keys_issued_def dh_lookup_def map_empty_def)
  show "room n p"
    using assms(1,3) by (simp add: new_client_def room_def counter_room_def new_worker_def new_file_handler_def
        new_dir_handler_def)
  show "no_handles (local_view p)"
    using assms(1) by (simp add: new_client_def no_handles_def local_view_def new_worker_def new_file_handler_def
        new_dir_handler_def fh_lookup_def dh_lookup_def map_empty_def)
qed

lemma joined_events:
  assumes join: "workers_join N accepted" and all: "all_mounted (Suc n) sv" and n: "n < 2 ^ 31"
  shows "event_simulates P N accepted filler b n Joined (sv, w)"
proof -
  let ?R = "worker_peer P False"
  have fs: "fs_ok sv" using all by (simp add: all_mounted_def)
  then have ok: "server_ok sv" by (simp add: fs_ok_def)
  obtain fd ip port w1 where accept: "tcp_accept N (sv_socket sv) w = (Inr (fd, ip, port), w1)"
    and name: "client_name (format_connection N ip port)"
    using join unfolding workers_join_def by blast
  obtain p w2 where p: "accepted fd w1 = (Inr p, w2)" "new_client p"
    using join unfolding workers_join_def by blast
  let ?name = "format_connection N ip port"
  obtain sv1 where erase: "erase_commander ?R ?name sv = (Inr (), sv1)"
    using erase_returns [OF worker_peer_returns fs] by (metis prod.collapse)
  obtain sv2 where sv2: "sv2 = sv1\<lparr>sv_commanders := map_emplace ?name (new_commander, p) (sv_commanders sv1)\<rparr>" by simp
  have run: "accept_one N ?R accepted sv w = (Inr (), sv2, w2)"
    by (subst accept_one_def) (simp add: accept erase p Let_def sv2)
  have fs2: "fs_ok sv2" by (rule accept_one_sound [OF worker_peer_returns fs run])
  have ok1: "server_ok sv1" using erase_commander_ok [OF ok, of ?R ?name] erase by simp
  have find: "map_find other (sv_commanders sv2)
      = (if other = ?name then Some (new_commander, p) else map_find other (sv_commanders sv))" for other
    using ok1 erase_commander_find [OF ok, of other ?R ?name] erase_commander_find [OF ok, of ?name ?R ?name]
    by (simp add: erase map_find_emplace server_ok_def sv2)
  have "map_find ?name (sv_commanders sv2) = Some (new_commander, p)" by (simp add: find)
  note new = new_client_mounted [OF p(2) this n]
  have view: "mount_view sv2 = (mount_view sv)(?name \<mapsto> local_view p)"
    by (auto simp: mount_view_def fun_eq_iff find new_commander_def)
  have "map_find [] (sv_commanders sv2) = None"
    using all name by (auto simp: find all_mounted_def client_name_def)
  moreover have "mounted other cm q sv2 \<and> tables_ok q \<and> room n q"
    if "map_find other (sv_commanders sv2) = Some (cm, q)" "cm_connected cm" for other cm q
  proof (cases "other = ?name")
    case True
    with that new show ?thesis by (simp add: find)
  next
    case False
    with that all_mounted_less [OF all] show ?thesis by (auto simp: find all_mounted_def mounted_def)
  qed
  ultimately have "all_mounted n sv2" using fs2 unfolding all_mounted_def by blast
  moreover have "crash_op P filler b Joined (mount_view sv) (Joined_As ?name) (mount_view sv2)"
    unfolding view by (rule crash_op.joined [OF name new(4)])
  moreover have "joining_name N sv w = ?name" by (simp add: joining_name_def accept)
  ultimately show ?thesis unfolding event_simulates_def by (simp add: run)
qed

lemma events_simulate:
  assumes "kernel_behaves P" "never_full filler" "workers_join N accepted" "all_mounted (Suc n) (fst s)" "n < 2 ^ 31"
    and "event_ok event"
  shows "event_simulates P N accepted filler b n event s"
proof -
  obtain sv w where s: "s = (sv, w)" by (rule prod.exhaust)
  have all: "all_mounted (Suc n) sv" using assms(4) by (simp add: s)
  show ?thesis
    unfolding s using assms(6)
    by (cases event) (auto intro: served_events [OF assms(1,2) all] broken_events [OF assms(1,2) all]
        joined_events [OF assms(3) all assms(5)])
qed

lemma event_runs:
  assumes "kernel_behaves P" "never_full filler" "workers_join N accepted"
  shows "all_mounted (length events) (fst s) \<Longrightarrow> length events < 2 ^ 31 \<Longrightarrow> \<forall>event \<in> set events. event_ok event \<Longrightarrow>
    \<exists>results s'. event_run P N accepted filler b events s = Some (results, s')
      \<and> crash_run P filler b events (mount_view (fst s)) results (mount_view (fst s')) \<and> all_mounted 0 (fst s')"
proof (induction events arbitrary: s)
  case Nil
  then show ?case by (auto intro: crash_run.no_events)
next
  case (Cons event events)
  have "all_mounted (Suc (length events)) (fst s)" "length events < 2 ^ 31" using Cons.prems(1,2) by simp_all
  from events_simulate [OF assms this, of event b] Cons.prems(3) obtain result s1 where
    step: "event_step P N accepted filler b event s = Some (result, s1)"
      "crash_op P filler b event (mount_view (fst s)) result (mount_view (fst s1))" "all_mounted (length events) (fst s1)"
    by (auto simp: event_simulates_def)
  from Cons.IH [OF step(3)] Cons.prems(2,3) obtain results s' where
    rest: "event_run P N accepted filler b events s1 = Some (results, s')"
      "crash_run P filler b events (mount_view (fst s1)) results (mount_view (fst s'))" "all_mounted 0 (fst s')"
    by auto
  have "event_run P N accepted filler b (event # events) s = Some (result # results, s')"
    by (simp add: step(1) rest(1))
  with crash_run.next_event [OF step(2) rest(2)] rest(3) show ?case by blast
qed

section \<open>Handles after a worker has come back\<close>

text \<open>
  A worker that has just connected numbers its handles from the beginning: the first file gets the handle
  the first file of the session before had.
\<close>

lemma first_handle:
  assumes m: "mounted client cm p sv" and new: "new_client p" and path: "split_path path = Inr (client, remote_path)"
      "path \<noteq> ''/''" "path_fits remote_path"
    and run: "px_open P (c_str remote_path) (fi_flags fi) DEFFILEMODE (rm_world p) = (fd, w)" "0 \<le> sint fd"
  obtains cm' where "zcfs_open (worker_peer P android) path fi (Some sv)
      = ((Inr 0, fi\<lparr>fi_fh := 0\<rparr>), Some (put_commander client
          (cm', p\<lparr>rm_worker := new_worker\<lparr>wk_file_handler := snd (fh_register fd new_file_handler)\<rparr>, rm_world := w\<rparr>) sv))"
    "idle cm'"
proof -
  have worker: "rm_worker p = new_worker" using new by (simp add: new_client_def)
  have id: "(if 0 \<le> sint fd then fh_register fd (wk_file_handler (rm_worker p)) else (-1, wk_file_handler (rm_worker p)))
      = (0, snd (fh_register fd new_file_handler))"
    using run(2) by (simp add: worker new_worker_def fh_register_def Let_def new_file_handler_def)
  from open_callbacks(2) [OF m path run(1) id refl, of android] that show thesis
    by (auto simp: returns_def worker fh_of_id_def)
qed

lemma registered_descriptor: "fh_get_fd 0 (snd (fh_register fd new_file_handler)) = fd"
proof -
  have "fh_next_fd_id new_file_handler = 0" by (simp add: new_file_handler_def)
  with fh.alloc_lookup [OF fh_ok_new, of 0 fd] show ?thesis by (simp add: fh_get_fd_lookup)
qed

lemma stale_handle:
  assumes m1: "mounted client cm1 p1 sv1" "new_client p1" and m2: "mounted client cm2 p2 sv2" "new_client p2"
    and path1: "split_path path1 = Inr (client, remote1)" "path1 \<noteq> ''/''" "path_fits remote1"
    and path2: "split_path path2 = Inr (client, remote2)" "path2 \<noteq> ''/''" "path_fits remote2"
    and open1: "px_open P (c_str remote1) (fi_flags fi1) DEFFILEMODE (rm_world p1) = (fd1, w1)" "0 \<le> sint fd1"
    and open2: "px_open P (c_str remote2) (fi_flags fi2) DEFFILEMODE (rm_world p2) = (fd2, w2)" "0 \<le> sint fd2"
    and len: "size_ok n buf" and run: "px_pwrite P fd2 (take (unat n) buf) offset w2 = (result, w3)"
  shows "\<exists>fi server1 sv3 p3. zcfs_open (worker_peer P android) path1 fi1 (Some sv1) = ((Inr 0, fi), server1)
    \<and> zcfs_open (worker_peer P android) path2 fi2 (Some sv2) = ((Inr 0, fi2\<lparr>fi_fh := fi_fh fi\<rparr>), Some sv3)
    \<and> returns (zcfs_write (worker_peer P android) path1 buf n offset fi (Some sv3))
        (value_return (ucast result, errno w3)) () client sv3 (p3\<lparr>rm_world := w3\<rparr>)"
proof -
  obtain cm1' where first: "zcfs_open (worker_peer P android) path1 fi1 (Some sv1) = ((Inr 0, fi1\<lparr>fi_fh := 0\<rparr>),
      Some (put_commander client (cm1', p1\<lparr>rm_worker := new_worker\<lparr>wk_file_handler := snd (fh_register fd1 new_file_handler)\<rparr>,
        rm_world := w1\<rparr>) sv1))"
    by (rule first_handle [OF m1 path1 open1])
  let ?p3 = "p2\<lparr>rm_worker := new_worker\<lparr>wk_file_handler := snd (fh_register fd2 new_file_handler)\<rparr>, rm_world := w2\<rparr>"
  obtain cm2' where second: "zcfs_open (worker_peer P android) path2 fi2 (Some sv2) = ((Inr 0, fi2\<lparr>fi_fh := 0\<rparr>),
      Some (put_commander client (cm2', ?p3) sv2))" "idle cm2'"
    by (rule first_handle [OF m2 path2 open2])
  let ?sv3 = "put_commander client (cm2', ?p3) sv2"
  have m3: "mounted client cm2' ?p3 ?sv3"
    by (rule mounted_put [OF second(2)]) (use m2 in \<open>simp add: new_client_def\<close>)
  have n: "unat (ucast n :: u32) = unat n" using len by (rule size_ok_narrow)
  have "px_pwrite P (fh_get_fd (id_of_fh (fi_fh (fi1\<lparr>fi_fh := 0\<rparr>))) (wk_file_handler (rm_worker ?p3)))
      (take (unat (ucast n :: u32)) buf) offset (rm_world ?p3) = (result, w3)"
    using run by (simp add: n registered_descriptor id_of_fh_def)
  from zcfs_write_remote [OF m3 path1(1) _ _ this, of android] len
  have "returns (zcfs_write (worker_peer P android) path1 buf n offset (fi1\<lparr>fi_fh := 0\<rparr>) (Some ?sv3))
      (value_return (ucast result, errno w3)) () client ?sv3 (?p3\<lparr>rm_world := w3\<rparr>)"
    by (simp add: n size_ok_def)
  with first second(1) show ?thesis
    by (intro exI [of _ "fi1\<lparr>fi_fh := 0\<rparr>"] exI [of _ ?sv3] exI [of _ ?p3] exI conjI) (assumption | simp)+
qed

section \<open>An example\<close>

text \<open>
  A file is created, the connection breaks after it has been written, it is read again; a worker connects from
  another host, and the file is created there.
\<close>

definition broken_calls :: "fuse_event list" where
  "broken_calls = [Served (on_client ''h'' (Do_Create ''/a'' 420 \<lparr>fi_flags = 66, fi_fh = 0\<rparr>)),
     Broken (Cut_Response TransportClosed) 0 ''h'' (Do_Write ''/a'' [1, 2, 3] 2 0 \<lparr>fi_flags = 66, fi_fh = 0\<rparr>),
     Served (on_client ''h'' (Do_Read ''/a'' [0, 0, 0, 0] 4 0 \<lparr>fi_flags = 66, fi_fh = 0\<rparr>)), Joined,
     Served (on_client ''10.0.0.1'' (Do_Create ''/a'' 420 \<lparr>fi_flags = 66, fi_fh = 0\<rparr>))]"

lemma broken_calls_ok:
  "\<forall>event \<in> set broken_calls. event_ok event" "all_mounted (length broken_calls) fresh_server"
  "length broken_calls < 2 ^ 31"
proof -
  have "call_ok (Do_Create ''/a'' 420 \<lparr>fi_flags = 66, fi_fh = 0\<rparr>)"
    "call_ok (Do_Write ''/a'' [1, 2, 3] 2 0 \<lparr>fi_flags = 66, fi_fh = 0\<rparr>)"
    "call_ok (Do_Read ''/a'' [0, 0, 0, 0] 4 0 \<lparr>fi_flags = 66, fi_fh = 0\<rparr>)"
    by (simp_all add: path_ok_def size_ok_def)
  moreover have "client_name ''10.0.0.1''" by (simp add: client_name_def)
  ultimately show "\<forall>event \<in> set broken_calls. event_ok event"
    using fresh_client(5)
    unfolding broken_calls_def by (auto simp del: on_client.simps call_ok.simps simp: mount_call_ok_def)
  have "all_mounted n fresh_server" if "n \<le> length mixed_calls" for n
    using that fresh_all_mounted by (induction rule: inc_induct) (auto intro: all_mounted_less)
  then show "all_mounted (length broken_calls) fresh_server"
    by (simp add: broken_calls_def mixed_calls_def first_calls_def)
  show "length broken_calls < 2 ^ 31" by (simp add: broken_calls_def)
qed

lemma fresh_workers_join: "workers_join serving_net (\<lambda>fd w. (Inr fresh_remote, w))"
  by (simp add: workers_join_def tcp_accept_def serving_net_def failing_net_def format_connection_def client_name_def
      new_client_def fresh_remote_def)

text \<open>A machine with the files \<open>/a\<close> (descriptor 7) and \<open>/b\<close> (descriptor 8), whose worker has just connected.\<close>

definition two_files_posix :: "(u8 list \<times> u8 list) posix" where
  "two_files_posix = (failing_posix ENOENT)
     \<lparr>px_open := (\<lambda>path flags mode w.
        if path = ''/a'' then (7, w) else if path = ''/b'' then (8, w) else (-1, w\<lparr>errno := ENOENT\<rparr>)),
      px_pwrite := (\<lambda>fd bytes offset w.
        if fd = 7 then (word_of_nat (length bytes), w\<lparr>os := (bytes, snd (os w))\<rparr>)
        else if fd = 8 then (word_of_nat (length bytes), w\<lparr>os := (fst (os w), bytes)\<rparr>)
        else (-1, w\<lparr>errno := EBADF\<rparr>))\<rparr>"

definition two_files_remote :: "(u8 list \<times> u8 list) remote" where
  "two_files_remote = \<lparr>rm_worker = new_worker, rm_world = \<lparr>errno = 0, os = ([], [])\<rparr>, rm_inbox = []\<rparr>"

definition two_files_server :: "(u8 list \<times> u8 list) remote server" where
  "two_files_server = \<lparr>sv_should_stop = False, sv_socket = 3,
     sv_commanders = [(''h'', (new_commander, two_files_remote))], sv_dropped = []\<rparr>"

lemma two_files_mounted: "mounted ''h'' new_commander two_files_remote two_files_server" "new_client two_files_remote"
  by (simp_all add: mounted_def two_files_server_def idle_def new_commander_def map_empty_def two_files_remote_def
      new_client_def)

lemma two_files_calls:
  "rm_world two_files_remote = \<lparr>errno = 0, os = ([], [])\<rparr>"
  "px_open two_files_posix (c_str ''/a'') flags mode w = (7, w)"
  "px_open two_files_posix (c_str ''/b'') flags mode w = (8, w)"
  "px_pwrite two_files_posix 8 bytes offset w = (word_of_nat (length bytes), w\<lparr>os := (fst (os w), bytes)\<rparr>)"
  by (simp_all add: two_files_remote_def two_files_posix_def c_str_def)

section \<open>Properties\<close>

text \<open>
  C2. A broken connection is a crash of one local process and nothing else. In any sequence of calls, of calls
  whose connection breaks and of workers that connect, every call returns. The connection breaks at any
  command of the call, when it is sent, before it arrives or before its response arrives, or after the
  last one. A call that is hit gives \<open>-EIO\<close>; the command that is hit has done nothing when it has
  not arrived, and otherwise has had its effect once. A call of one command has filled nothing; a listing
  has filled the 2048 entries of each batch before the one that is hit, whose own entries are lost
  although the directory has moved past them (\<open>cut_op\<close>). The client is gone from then on, from
  the listing of the root too. A worker that connects is there with no open files under the name of its
  host. All other calls are those of \<open>mount_op\<close>, as in C1.
\<close>

theorem broken_connections_are_crashes:
  assumes "kernel_behaves P" "never_full filler" "workers_join N accepted"
    and "all_mounted (length events) sv" "length events < 2 ^ 31" "\<forall>event \<in> set events. event_ok event"
  shows "\<exists>results sv' w'. event_run P N accepted filler b events (sv, w) = Some (results, (sv', w'))
    \<and> crash_run P filler b events (mount_view sv) results (mount_view sv') \<and> all_mounted 0 sv'"
  using event_runs [OF assms(1-3), of events "(sv, w)" b] assms(4-6) by auto

theorem broken_connections_are_crashes_witness:
  "\<exists>results sv' w'. event_run one_file_posix serving_net (\<lambda>fd w. (Inr fresh_remote, w)) (\<lambda>b name st. (False, b @ [name]))
        [] broken_calls (fresh_server, \<lparr>errno = 0, os = ()\<rparr>) = Some (results, (sv', w'))
    \<and> crash_run one_file_posix (\<lambda>b name st. (False, b @ [name])) [] broken_calls (mount_view fresh_server) results
        (mount_view sv')"
proof -
  have "never_full (\<lambda>b name st. (False, b @ [name]))" by (simp add: never_full_def)
  from broken_connections_are_crashes [OF one_file_behaves this fresh_workers_join broken_calls_ok(2,3,1), of "[]"]
  show ?thesis by blast
qed

text \<open>
  C3. What the mounted file system does not promise. A file that was opened first on a worker and the file that
  is opened first after the worker has connected again get the same handle, and a write to the old file
  then puts its bytes into the new one.
\<close>

theorem stale_handle_writes_another_file:
  assumes "mounted client cm1 p1 sv1" "new_client p1" "mounted client cm2 p2 sv2" "new_client p2"
    and "split_path path1 = Inr (client, remote1)" "path1 \<noteq> ''/''" "path_fits remote1"
    and "split_path path2 = Inr (client, remote2)" "path2 \<noteq> ''/''" "path_fits remote2"
    and "px_open P (c_str remote1) (fi_flags fi1) DEFFILEMODE (rm_world p1) = (fd1, w1)" "0 \<le> sint fd1"
    and "px_open P (c_str remote2) (fi_flags fi2) DEFFILEMODE (rm_world p2) = (fd2, w2)" "0 \<le> sint fd2"
    and "size_ok n buf" "px_pwrite P fd2 (take (unat n) buf) offset w2 = (result, w3)"
  shows "\<exists>fi server1 sv3 p3. zcfs_open (worker_peer P android) path1 fi1 (Some sv1) = ((Inr 0, fi), server1)
    \<and> zcfs_open (worker_peer P android) path2 fi2 (Some sv2) = ((Inr 0, fi2\<lparr>fi_fh := fi_fh fi\<rparr>), Some sv3)
    \<and> returns (zcfs_write (worker_peer P android) path1 buf n offset fi (Some sv3))
        (value_return (ucast result, errno w3)) () client sv3 (p3\<lparr>rm_world := w3\<rparr>)"
  using assms by (rule stale_handle)

theorem stale_handle_writes_another_file_witness:
  "\<exists>fi server1 sv3 p3.
     zcfs_open (worker_peer two_files_posix False) ''/h/a'' \<lparr>fi_flags = 1, fi_fh = 0\<rparr> (Some two_files_server) = ((Inr 0, fi), server1)
     \<and> zcfs_open (worker_peer two_files_posix False) ''/h/b'' \<lparr>fi_flags = 1, fi_fh = 0\<rparr> (Some two_files_server)
         = ((Inr 0, \<lparr>fi_flags = 1, fi_fh = fi_fh fi\<rparr>), Some sv3)
     \<and> returns (zcfs_write (worker_peer two_files_posix False) ''/h/a'' [1, 2] 2 0 fi (Some sv3))
         (value_return (ucast (2 :: i64), 0)) () ''h'' sv3 (p3\<lparr>rm_world := \<lparr>errno = 0, os = ([], [1, 2])\<rparr>\<rparr>)"
  using stale_handle_writes_another_file [of "''h''" new_commander two_files_remote two_files_server new_commander
      two_files_remote two_files_server "''/h/a''" "''/a''" "''/h/b''" "''/b''" two_files_posix
      "\<lparr>fi_flags = 1, fi_fh = 0\<rparr>" 7 "\<lparr>errno = 0, os = ([], [])\<rparr>" "\<lparr>fi_flags = 1, fi_fh = 0\<rparr>" 8
      "\<lparr>errno = 0, os = ([], [])\<rparr>" 2 "[1, 2]" 0 2 "\<lparr>errno = 0, os = ([], [1, 2])\<rparr>" False]
  by (simp add: two_files_mounted two_files_calls size_ok_def split_path_def)

end
