(* ===== verification/Test_Programs.thy ===== *)
theory Test_Programs
  imports Lost_Connections
begin

text \<open>
  The test programs \<open>tests/*.cpp\<close>, each section as a function of the commander it works on that gives
  whether all of its checks hold, and the set-up they share. The sections pass on every worker whose
  machine answers the system calls as the test expects.
\<close>

section \<open>The set-up\<close>

text \<open>
  \<open>SETUP_COMMANDER_WORKER\<close> after the server and the worker have been made: one look for a commander, and up to
  \<open>MaxRetries\<close> more as long as it is null. A look takes the lock of the server twice, for the list of clients
  and for the commander of the first; \<open>between n\<close> is what the other threads of the server do from the one to the
  other when \<open>n\<close> retries are left, and \<open>sleep n\<close> what they do while the test sleeps.
\<close>

definition first_commander ::
    "'p peer \<Rightarrow> ('p server \<Rightarrow> 'p server) \<Rightarrow> 'p server \<Rightarrow> 'p session option result \<times> 'p server" where
  "first_commander R between sv =
     (case get_clients sv of
        [] \<Rightarrow> (Inl (Undefined ''vector index out of range''), sv)
      | client # _ \<Rightarrow> get_commander R client (between sv))"

fun retry_commander ::
    "'p peer \<Rightarrow> (nat \<Rightarrow> 'p server \<Rightarrow> 'p server) \<Rightarrow> (nat \<Rightarrow> 'p server \<Rightarrow> 'p server) \<Rightarrow> nat \<Rightarrow> 'p server
       \<Rightarrow> 'p session option result \<times> 'p server" where
  "retry_commander R between sleep 0 sv = first_commander R (between 0) sv"
| "retry_commander R between sleep (Suc n) sv =
     (case first_commander R (between (Suc n)) sv of
        (Inr None, sv1) \<Rightarrow> retry_commander R between sleep n (sleep n sv1)
      | found \<Rightarrow> found)"

abbreviation MaxRetries :: nat where "MaxRetries \<equiv> 5"

definition setup_commander ::
    "'p peer \<Rightarrow> (nat \<Rightarrow> 'p server \<Rightarrow> 'p server) \<Rightarrow> (nat \<Rightarrow> 'p server \<Rightarrow> 'p server) \<Rightarrow> 'p server
       \<Rightarrow> 'p session option result \<times> 'p server" where
  "setup_commander R between sleep = retry_commander R between sleep MaxRetries"

text \<open>\<open>REQUIRE_THROWS_AS\<close> with \<open>std::runtime_error\<close>.\<close>

fun runtime_error :: "exn \<Rightarrow> bool" where
  "runtime_error (InvalidArgument m) \<longleftrightarrow> False"
| "runtime_error (OutOfRange m) \<longleftrightarrow> False"
| "runtime_error BrokenPromise \<longleftrightarrow> False"
| "runtime_error Blocked \<longleftrightarrow> False"
| "runtime_error (Undefined m) \<longleftrightarrow> False"
| "runtime_error _ \<longleftrightarrow> True"

definition throws_runtime_error :: "'a result \<Rightarrow> bool" where
  "throws_runtime_error r = (case r of Inl e \<Rightarrow> runtime_error e | Inr _ \<Rightarrow> False)"

section \<open>Connection\<close>

text \<open>The two sections of \<open>connection.cpp\<close>; \<open>closed\<close> is the connection once the worker has been closed.\<close>

definition connection_section :: "'p peer \<Rightarrow> 'p session \<Rightarrow> bool" where
  "connection_section R s =
     (case cmd_getattr R ''/'' zero_stat s of
        ((Inl e, _), _) \<Rightarrow> False
      | ((Inr _, info), s1) \<Rightarrow>
          (case disconnect R s1 of
             (Inl e, _) \<Rightarrow> False
           | (Inr _, s2) \<Rightarrow>
               (case cmd_getattr R ''/'' info s2 of ((r1, info1), s3) \<Rightarrow>
                throws_runtime_error r1
                  \<and> throws_runtime_error (fst (fst (cmd_getattr R ''/tmp'' info1 s3))))))"

definition disconnection_section :: "'p peer \<Rightarrow> 'p session \<Rightarrow> bool" where
  "disconnection_section closed s =
     (case cmd_getattr closed ''/tmp'' zero_stat s of ((r1, info1), s1) \<Rightarrow>
        throws_runtime_error r1
          \<and> throws_runtime_error (fst (fst (cmd_getattr closed ''/DoesNotExist'' info1 s1))))"

section \<open>Attributes\<close>

text \<open>\<open>S_ISDIR\<close> and \<open>S_ISREG\<close>.\<close>

definition S_ISDIR :: "u32 \<Rightarrow> bool" where "S_ISDIR mode \<longleftrightarrow> mode AND 61440 = 16384"
definition S_ISREG :: "u32 \<Rightarrow> bool" where "S_ISREG mode \<longleftrightarrow> mode AND 61440 = 32768"

definition valid_path_section :: "'p peer \<Rightarrow> 'p session \<Rightarrow> bool" where
  "valid_path_section R s =
     (case cmd_getattr R ''/tmp'' zero_stat s of
        ((Inr (True, _), info), s1) \<Rightarrow>
          S_ISDIR (st_mode info)
            \<and> (case cmd_getattr R ''/usr/bin/bash'' info s1 of
                 ((Inr (True, _), info1), _) \<Rightarrow> S_ISREG (st_mode info1)
               | _ \<Rightarrow> False)
      | _ \<Rightarrow> False)"

definition invalid_path_section :: "'p peer \<Rightarrow> 'p session \<Rightarrow> bool" where
  "invalid_path_section R s =
     (case cmd_getattr R ''/DoesNotExist'' zero_stat s of
        ((Inr (result, worker_errno), info), s1) \<Rightarrow>
          \<not> result \<and> worker_errno = ENOENT
            \<and> (case cmd_getattr R ''/usr'' info s1 of
                 ((Inr (True, _), _), _) \<Rightarrow> True
               | _ \<Rightarrow> False)
      | _ \<Rightarrow> False)"

section \<open>Writing and reading\<close>

abbreviation O_RDONLY :: i32 where "O_RDONLY \<equiv> 0"
abbreviation O_WRONLY :: i32 where "O_WRONLY \<equiv> 1"
abbreviation O_CREAT :: i32 where "O_CREAT \<equiv> 64"

definition test_text :: "u8 list" where
  "test_text = map byte_of_char ''Contents of files''"

abbreviation test_size :: u32 where "test_size \<equiv> word_of_nat (length test_text)"

abbreviation test_path :: string where
  "test_path \<equiv> ''/tmp/zcontrol-test/zcontrol-readwrite-test''"

abbreviation missing_path :: string where
  "missing_path \<equiv> ''/tmp/zcontrol-test/non-existing-dir/non-existing-file''"

text \<open>The second half of the section: the file is opened again and read.\<close>

definition read_back :: "'p peer \<Rightarrow> 'p session \<Rightarrow> bool" where
  "read_back R s =
     (case cmd_open R test_path O_RDONLY DEFFILEMODE s of
        (Inl e, _) \<Rightarrow> False
      | (Inr (fd, _), s1) \<Rightarrow>
          fd \<noteq> -1
            \<and> (case cmd_read R fd (replicate (length test_text) 0) test_size s1 of
                 ((Inl e, _), _) \<Rightarrow> False
               | ((Inr (bytes_read, _), data_read), s2) \<Rightarrow>
                   sint bytes_read = int (length test_text) \<and> data_read = test_text
                     \<and> (case cmd_close R fd s2 of (Inl e, _) \<Rightarrow> False | (Inr (close_result, _), _) \<Rightarrow> close_result)))"

definition write_and_read_section :: "'p peer \<Rightarrow> 'p session \<Rightarrow> bool" where
  "write_and_read_section R s =
     (case cmd_open R test_path (O_CREAT OR O_WRONLY) DEFFILEMODE s of
        (Inl e, _) \<Rightarrow> False
      | (Inr (fd, _), s1) \<Rightarrow>
          fd \<noteq> -1
            \<and> (case cmd_write R fd test_text test_size s1 of
                 (Inl e, _) \<Rightarrow> False
               | (Inr (bytes_written, _), s2) \<Rightarrow>
                   sint bytes_written = int (length test_text)
                     \<and> (case cmd_close R fd s2 of
                          (Inl e, _) \<Rightarrow> False
                        | (Inr (close_result, _), s3) \<Rightarrow> close_result \<and> read_back R s3)))"

definition invalid_file_section :: "'p peer \<Rightarrow> 'p session \<Rightarrow> bool" where
  "invalid_file_section R s =
     (case cmd_open R missing_path (O_CREAT OR O_WRONLY) DEFFILEMODE s of
        (Inl e, _) \<Rightarrow> False
      | (Inr (fd, worker_errno), s1) \<Rightarrow>
          fd = -1 \<and> worker_errno = ENOENT
            \<and> (case cmd_write R fd test_text test_size s1 of
                 (Inl e, _) \<Rightarrow> False
               | (Inr (bytes_written, worker_errno'), _) \<Rightarrow> bytes_written = -1 \<and> worker_errno' = EBADF))"

section \<open>The looks of the set-up\<close>

definition gone :: "string \<Rightarrow> 'p server \<Rightarrow> bool" where
  "gone client sv \<longleftrightarrow> (\<forall>s. map_find client (sv_commanders sv) = Some s \<longrightarrow> \<not> cm_connected (fst s))"

text \<open>
  Looks that have found a client in the list and no commander for it any more, the server before them with \<open>n\<close>
  retries left and after them with \<open>m\<close>.
\<close>

inductive lost_looks ::
    "'p peer \<Rightarrow> (nat \<Rightarrow> 'p server \<Rightarrow> 'p server) \<Rightarrow> (nat \<Rightarrow> 'p server \<Rightarrow> 'p server) \<Rightarrow> nat \<Rightarrow> 'p server \<Rightarrow> nat \<Rightarrow> 'p server \<Rightarrow> bool"
  for R :: "'p peer" and between sleep
where
  no_look: "lost_looks R between sleep n sv n sv"
| lost_look: "get_clients sv = client # rest \<Longrightarrow> gone client (between (Suc n) sv) \<Longrightarrow>
    lost_looks R between sleep n (sleep n (snd (get_commander R client (between (Suc n) sv)))) m sv' \<Longrightarrow>
    lost_looks R between sleep (Suc n) sv m sv'"

lemma get_commander_gone: "gone client sv \<Longrightarrow> fst (get_commander R client sv) = Inr None"
  by (cases rule: get_commander_cases [of client sv R]) (simp_all add: gone_def)

lemma get_commander_there:
  assumes "\<not> gone client sv"
  shows "\<exists>s. get_commander R client sv = (Inr (Some s), sv) \<and> map_find client (sv_commanders sv) = Some s
    \<and> cm_connected (fst s)"
  using assms by (cases rule: get_commander_cases [of client sv R]) (auto simp: gone_def)

lemma retry_outcome:
  "\<exists>m sv'. lost_looks R between sleep n sv m sv' \<and>
     (case get_clients sv' of
        [] \<Rightarrow> retry_commander R between sleep n sv = (Inl (Undefined ''vector index out of range''), sv')
      | client # _ \<Rightarrow>
          (if gone client (between m sv')
           then m = 0 \<and> retry_commander R between sleep n sv = (Inr None, snd (get_commander R client (between m sv')))
           else \<exists>s. retry_commander R between sleep n sv = (Inr (Some s), between m sv')
             \<and> map_find client (sv_commanders (between m sv')) = Some s \<and> cm_connected (fst s)))"
proof (induction n arbitrary: sv)
  case 0
  show ?case
  proof (rule exI [of _ 0], rule exI [of _ sv], rule conjI [OF lost_looks.no_look], cases "get_clients sv")
    case (Cons client rest)
    show "case get_clients sv of
        [] \<Rightarrow> retry_commander R between sleep 0 sv = (Inl (Undefined ''vector index out of range''), sv)
      | client # _ \<Rightarrow>
          (if gone client (between 0 sv)
           then 0 = 0 \<and> retry_commander R between sleep 0 sv = (Inr None, snd (get_commander R client (between 0 sv)))
           else \<exists>s. retry_commander R between sleep 0 sv = (Inr (Some s), between 0 sv)
             \<and> map_find client (sv_commanders (between 0 sv)) = Some s \<and> cm_connected (fst s))"
      using get_commander_gone [of client "between 0 sv" R] get_commander_there [of client "between 0 sv" R]
      by (simp add: Cons first_commander_def prod_eq_iff)
  qed (simp add: first_commander_def)
next
  case (Suc n)
  let ?sv = "between (Suc n) sv"
  show ?case
  proof (cases "\<exists>client rest. get_clients sv = client # rest \<and> gone client ?sv")
    case True
    then obtain client rest where look: "get_clients sv = client # rest" "gone client ?sv" by blast
    let ?next = "sleep n (snd (get_commander R client ?sv))"
    have again: "retry_commander R between sleep (Suc n) sv = retry_commander R between sleep n ?next"
      using get_commander_gone [OF look(2), of R] look(1)
      by (cases "get_commander R client ?sv") (simp add: first_commander_def)
    from Suc.IH [of ?next] show ?thesis
      unfolding again using lost_looks.lost_look [of sv client rest between n R sleep, OF look] by blast
  next
    case False
    have ends: "retry_commander R between sleep (Suc n) sv = first_commander R (between (Suc n)) sv"
      if "get_clients sv = client # rest" "\<not> gone client ?sv" for client rest
      using that(1) get_commander_there [OF that(2), of R] by (auto simp: first_commander_def)
    show ?thesis
    proof (rule exI [of _ "Suc n"], rule exI [of _ sv], rule conjI [OF lost_looks.no_look], cases "get_clients sv")
      case (Cons client rest)
      then have there: "\<not> gone client ?sv" using False by blast
      then show "case get_clients sv of
          [] \<Rightarrow> retry_commander R between sleep (Suc n) sv = (Inl (Undefined ''vector index out of range''), sv)
        | client # _ \<Rightarrow>
            (if gone client ?sv
             then Suc n = 0 \<and> retry_commander R between sleep (Suc n) sv = (Inr None, snd (get_commander R client ?sv))
             else \<exists>s. retry_commander R between sleep (Suc n) sv = (Inr (Some s), ?sv)
               \<and> map_find client (sv_commanders ?sv) = Some s \<and> cm_connected (fst s))"
        using get_commander_there [OF there, of R] unfolding ends [OF Cons there]
        by (auto simp: Cons first_commander_def)
    qed (simp add: first_commander_def)
  qed
qed

text \<open>The retry loop at work: the worker is lost between the two locks and has connected again after the sleep.\<close>

lemma setup_retries:
  "setup_commander lost_peer (\<lambda>n sv. if n = 5 then sv\<lparr>sv_commanders := []\<rparr> else sv) (\<lambda>_ _. one_worker) one_worker
     = (Inr (Some (new_commander, ())), one_worker)"
proof -
  have "get_clients one_worker = [''10.0.0.1'']"
    by (simp add: one_worker_def get_clients_def is_connected_def new_commander_def)
  moreover have "get_commander lost_peer ''10.0.0.1'' one_worker = (Inr (Some (new_commander, ())), one_worker)"
    by (simp add: one_worker_def get_commander_def is_connected_def new_commander_def)
  ultimately show ?thesis
    by (simp add: setup_commander_def eval_nat_numeral first_commander_def get_commander_def)
qed

section \<open>The sections pass\<close>

lemma getattr_idle:
  assumes "idle cm" "rm_inbox p = []" "path_fits path"
    and "px_stat P (c_str path) (px_stack_stat P (rm_world p)) (rm_world p) = ((r, st), w)"
  obtains cm' where "cmd_getattr (worker_peer P android) path buf (cm, p)
      = ((Inr (r = 0, errno w), if r = 0 then copy_stat st buf else buf), (cm', p\<lparr>rm_world := w\<rparr>))" "idle cm'"
  using completes_bind [OF getattr_remote [OF assms]] that by blast

lemma stat_type: "st_mode (copy_stat st buf) = st_mode st"
  by (simp add: copy_stat_def)

lemma valid_path_passes:
  assumes idle: "idle cm" "rm_inbox p = []"
    and dir: "px_stat P ''/tmp'' (px_stack_stat P (rm_world p)) (rm_world p) = ((0, st1), w1)" "S_ISDIR (st_mode st1)"
    and reg: "px_stat P ''/usr/bin/bash'' (px_stack_stat P w1) w1 = ((0, st2), w2)" "S_ISREG (st_mode st2)"
  shows "valid_path_section (worker_peer P android) (cm, p)"
proof -
  have "px_stat P (c_str ''/tmp'') (px_stack_stat P (rm_world p)) (rm_world p) = ((0, st1), w1)"
    using dir(1) by (simp add: c_str_def)
  then obtain cm1 where one: "cmd_getattr (worker_peer P android) ''/tmp'' zero_stat (cm, p)
      = ((Inr (True, errno w1), copy_stat st1 zero_stat), (cm1, p\<lparr>rm_world := w1\<rparr>))" "idle cm1"
    using getattr_idle [OF idle, of "''/tmp''" P 0 st1 w1 android zero_stat] by auto
  have "px_stat P (c_str ''/usr/bin/bash'') (px_stack_stat P (rm_world (p\<lparr>rm_world := w1\<rparr>))) (rm_world (p\<lparr>rm_world := w1\<rparr>))
      = ((0, st2), w2)"
    using reg(1) by (simp add: c_str_def)
  then obtain cm2 where two: "cmd_getattr (worker_peer P android) ''/usr/bin/bash'' (copy_stat st1 zero_stat) (cm1, p\<lparr>rm_world := w1\<rparr>)
      = ((Inr (True, errno w2), copy_stat st2 (copy_stat st1 zero_stat)), (cm2, p\<lparr>rm_world := w2\<rparr>))"
    using getattr_idle [OF one(2), of "p\<lparr>rm_world := w1\<rparr>" "''/usr/bin/bash''" P 0 st2 w2 android "copy_stat st1 zero_stat"]
      idle(2) by auto
  show ?thesis
    using dir(2) reg(2) by (simp add: valid_path_section_def one(1) two stat_type)
qed

lemma invalid_path_passes:
  assumes idle: "idle cm" "rm_inbox p = []"
    and missing: "px_stat P ''/DoesNotExist'' (px_stack_stat P (rm_world p)) (rm_world p) = ((-1, st1), w1)" "errno w1 = ENOENT"
    and dir: "px_stat P ''/usr'' (px_stack_stat P w1) w1 = ((0, st2), w2)"
  shows "invalid_path_section (worker_peer P android) (cm, p)"
proof -
  have "px_stat P (c_str ''/DoesNotExist'') (px_stack_stat P (rm_world p)) (rm_world p) = ((-1, st1), w1)"
    using missing(1) by (simp add: c_str_def)
  then obtain cm1 where one: "cmd_getattr (worker_peer P android) ''/DoesNotExist'' zero_stat (cm, p)
      = ((Inr (False, ENOENT), zero_stat), (cm1, p\<lparr>rm_world := w1\<rparr>))" "idle cm1"
    using getattr_idle [OF idle, of "''/DoesNotExist''" P "-1" st1 w1 android zero_stat] missing(2) by auto
  have "px_stat P (c_str ''/usr'') (px_stack_stat P (rm_world (p\<lparr>rm_world := w1\<rparr>))) (rm_world (p\<lparr>rm_world := w1\<rparr>))
      = ((0, st2), w2)"
    using dir by (simp add: c_str_def)
  then obtain cm2 where two: "cmd_getattr (worker_peer P android) ''/usr'' zero_stat (cm1, p\<lparr>rm_world := w1\<rparr>)
      = ((Inr (True, errno w2), copy_stat st2 zero_stat), (cm2, p\<lparr>rm_world := w2\<rparr>))"
    using getattr_idle [OF one(2), of "p\<lparr>rm_world := w1\<rparr>" "''/usr''" P 0 st2 w2 android zero_stat] idle(2) by auto
  show ?thesis by (simp add: invalid_path_section_def one(1) two)
qed

text \<open>Opening and closing between two requests.\<close>

definition ready :: "nat \<Rightarrow> 'w world \<Rightarrow> 'w remote session \<Rightarrow> bool" where
  "ready n w s \<longleftrightarrow> idle (fst s) \<and> rm_inbox (snd s) = [] \<and> tables_ok (snd s) \<and> room n (snd s) \<and> rm_world (snd s) = w"

lemma open_ready:
  assumes ready: "ready (Suc n) w s" and path: "path_fits path"
    and run: "px_open P (c_str path) flags mode w = (fd, w')" "0 \<le> sint fd"
  obtains i s' where "cmd_open (worker_peer P android) path flags mode s = (Inr (i, errno w'), s')" "i \<noteq> -1"
    "ready n w' s'" "fh_get_fd i (wk_file_handler (rm_worker (snd s'))) = fd"
proof -
  obtain cm p where s: "s = (cm, p)" by (rule prod.exhaust)
  let ?i = "fh_next_fd_id (wk_file_handler (rm_worker p))"
    and ?p = "with_files (snd (fh_register fd (wk_file_handler (rm_worker p)))) w' p"
  have idle: "idle cm" "rm_inbox p = []" and tables: "tables_ok p" "room (Suc n) p" "rm_world p = w"
    using ready by (simp_all add: ready_def s)
  have "room 1 p" using tables(2) by (simp add: room_def counter_room_def)
  note new = files_registered [OF tables(1) this]
  have "(if 0 \<le> sint fd then fh_register fd (wk_file_handler (rm_worker p)) else (-1, wk_file_handler (rm_worker p)))
      = (?i, snd (fh_register fd (wk_file_handler (rm_worker p))))"
    using run(2) by (simp add: fh_register_def Let_def)
  from completes_bind [OF open_remote [OF idle path run(1) [folded tables(3)] this]] obtain cm' where
    "cmd_open (worker_peer P android) path flags mode s = (Inr (?i, errno w'), (cm', ?p))" "idle cm'"
    by (auto simp: s)
  moreover from this(2) have "ready n w' (cm', ?p)"
    using idle(2) new(1) new(2) [OF tables(2)] by (simp add: ready_def)
  moreover have "fh_get_fd ?i (wk_file_handler (rm_worker (snd (cm', ?p)))) = fd"
    using fh.alloc_lookup [of "wk_file_handler (rm_worker p)" ?i fd] tables(1)
    by (simp add: fh_get_fd_lookup tables_ok_def)
  ultimately show thesis using new(5) by (intro that)
qed

lemma close_ready:
  assumes ready: "ready n w s" and run: "px_close P (fh_get_fd i (wk_file_handler (rm_worker (snd s)))) w = (value, w')"
  obtains s' where "cmd_close (worker_peer P android) i s = (Inr (value = 0, errno w'), s')" "ready n w' s'"
proof -
  obtain cm p where s: "s = (cm, p)" by (rule prod.exhaust)
  have idle: "idle cm" "rm_inbox p = []" and tables: "tables_ok p" "room n p" "rm_world p = w"
    using ready by (simp_all add: ready_def s)
  have "px_close P (fh_get_fd i (wk_file_handler (rm_worker p))) (rm_world p) = (value, w')"
    using run by (simp add: s tables(3))
  from completes_bind [OF close_remote [OF idle this]] obtain cm' where
    run': "cmd_close (worker_peer P android) i s = (Inr (value = 0, errno w'),
      (cm', with_files (fh_forget i (wk_file_handler (rm_worker p))) w' p))" "idle cm'"
    by (auto simp: s)
  then have "ready n w' (cm', with_files (fh_forget i (wk_file_handler (rm_worker p))) w' p)"
    using idle(2) tables files_forgotten(1,2) [OF tables(1)] by (simp add: ready_def)
  with run'(1) show thesis by (rule that)
qed

lemma write_ready:
  assumes ready: "ready n w s" and len: "unat len < 2 ^ 31" "unat len \<le> length bytes"
    and run: "px_write P (fh_get_fd i (wk_file_handler (rm_worker (snd s)))) (take (unat len) bytes) w = (result, w')"
  obtains s' where "cmd_write (worker_peer P android) i bytes len s = (Inr (ucast result, errno w'), s')"
    "ready n w' s'" "rm_worker (snd s') = rm_worker (snd s)"
proof -
  obtain cm p where s: "s = (cm, p)" by (rule prod.exhaust)
  have idle: "idle cm" "rm_inbox p = []" and w: "rm_world p = w" using ready by (simp_all add: ready_def s)
  have "px_write P (fh_get_fd i (wk_file_handler (rm_worker p))) (take (unat len) bytes) (rm_world p) = (result, w')"
    using run by (simp add: s w)
  from completes_bind [OF write_remote(1) [OF idle len this]] obtain cm' where
    run': "cmd_write (worker_peer P android) i bytes len s = (Inr (ucast result, errno w'), (cm', p\<lparr>rm_world := w'\<rparr>))" "idle cm'"
    by (auto simp: s)
  from run'(2) ready have "ready n w' (cm', p\<lparr>rm_world := w'\<rparr>)" by (simp add: ready_def s world_only)
  moreover have "rm_worker (snd (cm', p\<lparr>rm_world := w'\<rparr>)) = rm_worker (snd s)" by (simp add: s)
  ultimately show thesis by (rule that [OF run'(1)])
qed

lemma read_ready:
  assumes ready: "ready n w s" and len: "unat len < 2 ^ 31" "unat len \<le> length bytes"
    and behaves: "read_behaves len result buffer"
    and run: "px_read P (fh_get_fd i (wk_file_handler (rm_worker (snd s)))) (replicate (unat len) 0) w = ((result, buffer), w')"
  obtains s' where "cmd_read (worker_peer P android) i bytes len s
      = ((Inr (ucast result, errno w'), fill result buffer bytes), s')"
    "ready n w' s'" "rm_worker (snd s') = rm_worker (snd s)"
proof -
  obtain cm p where s: "s = (cm, p)" by (rule prod.exhaust)
  have idle: "idle cm" "rm_inbox p = []" and w: "rm_world p = w" using ready by (simp_all add: ready_def s)
  have "px_read P (fh_get_fd i (wk_file_handler (rm_worker p))) (replicate (unat len) 0) (rm_world p) = ((result, buffer), w')"
    using run by (simp add: s w)
  from completes_bind [OF read_remote(1) [OF idle behaves len this]] obtain cm' where
    run': "cmd_read (worker_peer P android) i bytes len s
      = ((Inr (ucast result, errno w'), fill result buffer bytes), (cm', p\<lparr>rm_world := w'\<rparr>))" "idle cm'"
    by (auto simp: s)
  from run'(2) ready have "ready n w' (cm', p\<lparr>rm_world := w'\<rparr>)" by (simp add: ready_def s world_only)
  moreover have "rm_worker (snd (cm', p\<lparr>rm_world := w'\<rparr>)) = rm_worker (snd s)" by (simp add: s)
  ultimately show thesis by (rule that [OF run'(1)])
qed

text \<open>The machine keeps the bytes of a file: what is written through one descriptor is read through the next.\<close>

definition keeps_test_file :: "'w posix \<Rightarrow> 'w world \<Rightarrow> bool" where
  "keeps_test_file P w \<longleftrightarrow>
     (\<exists>fd1 w1 w2 w3 fd2 w4 w5 w6. px_open P test_path (O_CREAT OR O_WRONLY) DEFFILEMODE w = (fd1, w1) \<and> 0 \<le> sint fd1
       \<and> px_write P fd1 test_text w1 = (17, w2) \<and> px_close P fd1 w2 = (0, w3)
       \<and> px_open P test_path O_RDONLY DEFFILEMODE w3 = (fd2, w4) \<and> 0 \<le> sint fd2
       \<and> px_read P fd2 (replicate 17 0) w4 = ((17, test_text), w5) \<and> px_close P fd2 w5 = (0, w6))"

lemma test_text_size: "length test_text = 17" "unat (17 :: u32) = 17"
  by (simp_all add: test_text_def)

lemma whole_text: "read_behaves 17 17 test_text" "fill 17 test_text (replicate 17 0) = test_text"
  "ucast (17 :: i64) = (17 :: i32)" "sint (17 :: i32) = 17"
  by (simp_all add: read_behaves_def fill_def test_text_size)

lemma write_and_read_passes:
  assumes ready: "ready 2 w s" and machine: "keeps_test_file P w"
  shows "write_and_read_section (worker_peer P android) s"
proof -
  obtain fd1 w1 w2 w3 fd2 w4 w5 w6 where
    creates: "px_open P (c_str test_path) (O_CREAT OR O_WRONLY) DEFFILEMODE w = (fd1, w1)" "0 \<le> sint fd1"
    and writes: "px_write P fd1 test_text w1 = (17, w2)" "px_close P fd1 w2 = (0, w3)"
    and opens: "px_open P (c_str test_path) O_RDONLY DEFFILEMODE w3 = (fd2, w4)" "0 \<le> sint fd2"
    and reads: "px_read P fd2 (replicate 17 0) w4 = ((17, test_text), w5)" "px_close P fd2 w5 = (0, w6)"
    using machine by (auto simp: keeps_test_file_def c_str_def)
  have ready2: "ready (Suc 1) w s" using ready by (simp only: numeral_2_eq_2 One_nat_def)
  have fits: "path_fits test_path" by simp
  obtain i1 s1 where one: "cmd_open (worker_peer P android) test_path (O_CREAT OR O_WRONLY) DEFFILEMODE s = (Inr (i1, errno w1), s1)"
    "i1 \<noteq> -1" "ready 1 w1 s1" "fh_get_fd i1 (wk_file_handler (rm_worker (snd s1))) = fd1"
    by (rule open_ready [OF ready2 fits creates])
  obtain s2 where two: "cmd_write (worker_peer P android) i1 test_text 17 s1 = (Inr (17, errno w2), s2)" "ready 1 w2 s2"
    "rm_worker (snd s2) = rm_worker (snd s1)"
    by (rule write_ready [OF one(3), of 17 test_text P i1 17 w2 android])
      (simp_all add: test_text_size one(4) writes(1) whole_text(3))
  obtain s3 where three: "cmd_close (worker_peer P android) i1 s2 = (Inr (True, errno w3), s3)" "ready 1 w3 s3"
    by (rule close_ready [OF two(2), of P i1 0 w3 android]) (simp_all add: two(3) one(4) writes(2))
  obtain i2 s4 where four: "cmd_open (worker_peer P android) test_path O_RDONLY DEFFILEMODE s3 = (Inr (i2, errno w4), s4)"
    "i2 \<noteq> -1" "ready 0 w4 s4" "fh_get_fd i2 (wk_file_handler (rm_worker (snd s4))) = fd2"
    by (rule open_ready [OF three(2) [unfolded One_nat_def] fits opens])
  obtain s5 where five: "cmd_read (worker_peer P android) i2 (replicate 17 0) 17 s4 = ((Inr (17, errno w5), test_text), s5)"
    "ready 0 w5 s5" "rm_worker (snd s5) = rm_worker (snd s4)"
    by (rule read_ready [OF four(3), of 17 "replicate 17 0" 17 test_text P i2 w5 android])
      (simp_all add: four(4) reads(1) whole_text)
  obtain s6 where six: "cmd_close (worker_peer P android) i2 s5 = (Inr (True, errno w6), s6)"
    by (rule close_ready [OF five(2), of P i2 0 w6 android]) (simp_all add: five(3) four(4) reads(2))
  have "read_back (worker_peer P android) s3"
    by (simp add: read_back_def test_text_size four(1,2) five(1) six whole_text(4))
  then show ?thesis
    using one(1) by (simp add: write_and_read_section_def test_text_size one(2) two(1) three(1) whole_text(4))
qed

lemma invalid_file_passes:
  assumes ready: "ready n w s"
    and fails: "px_open P missing_path (O_CREAT OR O_WRONLY) DEFFILEMODE w = (fd, w1)" "sint fd < 0" "errno w1 = ENOENT"
    and bad: "px_write P (-1) test_text w1 = (-1, w2)" "errno w2 = EBADF"
  shows "invalid_file_section (worker_peer P android) s"
proof -
  obtain cm p where s: "s = (cm, p)" by (rule prod.exhaust)
  have idle: "idle cm" "rm_inbox p = []" and tables: "tables_ok p" "rm_world p = w"
    using ready by (simp_all add: ready_def s)
  have run: "px_open P (c_str missing_path) (O_CREAT OR O_WRONLY) DEFFILEMODE (rm_world p) = (fd, w1)"
    using fails(1) by (simp add: c_str_def tables(2))
  have fits: "path_fits missing_path" by simp
  have "(if 0 \<le> sint fd then fh_register fd (wk_file_handler (rm_worker p)) else (-1, wk_file_handler (rm_worker p)))
      = (-1, wk_file_handler (rm_worker p))" using fails(2) by simp
  from completes_bind [OF open_remote [OF idle fits run this]] obtain cm1 where
    one: "cmd_open (worker_peer P android) missing_path (O_CREAT OR O_WRONLY) DEFFILEMODE s
      = (Inr (-1, ENOENT), (cm1, p\<lparr>rm_world := w1\<rparr>))" "idle cm1"
    by (auto simp: s fails(3))
  have ready1: "ready n w1 (cm1, p\<lparr>rm_world := w1\<rparr>)" using one(2) ready by (simp add: ready_def s world_only)
  have "fh_ok (wk_file_handler (rm_worker p))" using tables(1) by (simp add: tables_ok_def)
  then have "fh_lookup (-1) (wk_file_handler (rm_worker p)) = None" by (rule fh.lookup_negative) simp
  then have none: "fh_get_fd (-1) (wk_file_handler (rm_worker p)) = -1" by (simp add: fh_get_fd_lookup)
  obtain s2 where two: "cmd_write (worker_peer P android) (-1) test_text 17 (cm1, p\<lparr>rm_world := w1\<rparr>)
      = (Inr (ucast (-1 :: i64), errno w2), s2)"
    by (rule write_ready [OF ready1, of 17 test_text P "-1" "-1" w2 android])
      (simp_all add: test_text_size none bad(1))
  have "ucast (-1 :: i64) = (-1 :: i32)" by code_simp
  with two show ?thesis using one(1) by (simp add: invalid_file_section_def test_text_size bad(2))
qed

text \<open>Every request on a commander that is not connected throws.\<close>

lemma disconnected_getattr:
  assumes "\<not> cm_connected (fst s)"
  obtains s' where "cmd_getattr R path buf s = ((Inl (RemoteWorkerException ''Disconnected''), buf), s')"
    "\<not> cm_connected (fst s')"
  using assms that
  by (cases s) (auto simp: cmd_getattr_def request_def take_command_id_def send_command_def register_promise_def)

lemma disconnect_disconnects:
  assumes "fst (disconnect R s) = Inr ()" shows "\<not> cm_connected (fst (snd (disconnect R s)))"
  using assms by (auto simp: disconnect_def hang_up_def split: prod.splits sum.splits if_splits)

lemma connection_passes:
  assumes idle: "idle cm" "rm_inbox p = []" and ok: "session_ok cm"
  shows "connection_section (worker_peer P android) (cm, p)"
proof -
  let ?R = "worker_peer P android"
  obtain r st w where "px_stat P (c_str ''/'') (px_stack_stat P (rm_world p)) (rm_world p) = ((r, st), w)"
    by (metis prod.exhaust)
  from completes_bind [OF getattr_remote [OF idle _ this]] obtain info cm1 p1 x where
    one: "cmd_getattr ?R ''/'' zero_stat (cm, p) = ((Inr x, info), (cm1, p1))" by fastforce
  have "session_ok cm1"
    using sound_callD [OF getattr_sound [OF worker_peer_returns, of P android "''/''" zero_stat], of "(cm, p)"] ok one by simp
  then have two: "fst (disconnect ?R (cm1, p1)) = Inr ()"
    by (intro disconnect_returns [OF worker_peer_returns]) simp
  obtain s2 where s2: "disconnect ?R (cm1, p1) = (Inr (), s2)" using two by (metis prod.collapse)
  then have "\<not> cm_connected (fst s2)" using disconnect_disconnects [OF two] by simp
  then obtain s3 where three: "cmd_getattr ?R ''/'' info s2 = ((Inl (RemoteWorkerException ''Disconnected''), info), s3)"
    "\<not> cm_connected (fst s3)" by (rule disconnected_getattr)
  from three(2) obtain s4 where "cmd_getattr ?R ''/tmp'' info s3 = ((Inl (RemoteWorkerException ''Disconnected''), info), s4)"
    by (rule disconnected_getattr)
  then show ?thesis by (simp add: connection_section_def one s2 three(1) throws_runtime_error_def)
qed

text \<open>A connection whose other end has been closed: a command may still be written, a response never comes.\<close>

definition dead_connection :: "'p peer \<Rightarrow> bool" where
  "dead_connection R \<longleftrightarrow>
     (\<forall>m p. pr_write R m p = (Inr (), p) \<or> (\<exists>e. runtime_error e \<and> pr_write R m p = (Inl e, p)))
     \<and> (\<forall>p. \<exists>e. runtime_error e \<and> pr_read R p = (Inl e, p))"

lemma dead_getattr:
  assumes ok: "session_ok cm" and R: "dead_connection R"
  obtains e s' where "cmd_getattr R path buf (cm, p) = ((Inl e, buf), s')" "runtime_error e" "session_ok (fst s')"
proof (cases "cm_connected cm")
  case True
  let ?bytes = "fst (data (serialize_str path new_serializer))"
  obtain e where read: "runtime_error e" "pr_read R p = (Inl e, p)" using R unfolding dead_connection_def by blast
  have e: "\<not> uncaught e" using read(1) by (cases e) simp_all
  obtain e' cm' p' where "request R GetAttr ?bytes (cm, p) = (Inl e', (cm', p'))" "runtime_error e'" "session_ok cm'"
  proof (cases "pr_write R (command_of cm GetAttr ?bytes) p = (Inr (), p)")
    case written: True
    obtain cm' where "request R GetAttr ?bytes (cm, p) = (Inl e, (cm', p))" "session_ok cm'"
      by (rule request_unanswered [OF ok True e written read(2)])
    with read(1) show thesis by (intro that [of e cm' p])
  next
    case False
    then obtain e1 where e1: "runtime_error e1" "pr_write R (command_of cm GetAttr ?bytes) p = (Inl e1, p)"
      using R unfolding dead_connection_def by metis
    obtain cm' where "request R GetAttr ?bytes (cm, p) = (Inl e1, (cm', p))" "session_ok cm'"
      by (rule request_unsent [OF ok True e1(2)])
    with e1(1) show thesis by (intro that [of e1 cm' p])
  qed
  then show thesis by (intro that [of e' "(cm', p')"]) (simp_all add: cmd_getattr_def)
next
  case False
  then have "cmd_getattr R path buf (cm, p)
      = ((Inl (RemoteWorkerException ''Disconnected''), buf), (cm\<lparr>cm_next_command_id := cm_next_command_id cm + 1\<rparr>, p))"
    by (simp add: cmd_getattr_def request_def take_command_id_def send_command_def register_promise_def)
  moreover have "runtime_error (RemoteWorkerException ''Disconnected'')"
    "session_ok (fst (cm\<lparr>cm_next_command_id := cm_next_command_id cm + 1\<rparr>, p))"
    by (simp_all add: session_ok_id ok)
  ultimately show thesis by (rule that)
qed

lemma disconnection_passes:
  assumes ok: "session_ok cm" and R: "dead_connection R"
  shows "disconnection_section R (cm, p)"
proof -
  obtain e1 cm1 p1 where one: "cmd_getattr R ''/tmp'' zero_stat (cm, p) = ((Inl e1, zero_stat), (cm1, p1))"
    "runtime_error e1" "session_ok cm1"
    using dead_getattr [OF ok R, of "''/tmp''" zero_stat p] by (metis prod.collapse)
  obtain e2 s2 where "cmd_getattr R ''/DoesNotExist'' zero_stat (cm1, p1) = ((Inl e2, zero_stat), s2)"
    "runtime_error e2"
    using dead_getattr [OF one(3) R, of "''/DoesNotExist''" zero_stat p1] by blast
  with one show ?thesis by (simp add: disconnection_section_def throws_runtime_error_def)
qed

section \<open>An example\<close>

text \<open>A machine with one file, the file of the test.\<close>

definition notebook_posix :: "u8 list posix" where
  "notebook_posix = (failing_posix ENOENT)
     \<lparr>px_open := (\<lambda>path flags mode w. if path = test_path then (7, w) else (-1, w\<lparr>errno := ENOENT\<rparr>)),
      px_close := (\<lambda>fd w. if fd = 7 then (0, w) else (-1, w\<lparr>errno := EBADF\<rparr>)),
      px_write := (\<lambda>fd bytes w.
        if fd = 7 then (word_of_nat (length bytes), w\<lparr>os := bytes\<rparr>) else (-1, w\<lparr>errno := EBADF\<rparr>)),
      px_read := (\<lambda>fd buf w.
        if fd = 7 then ((word_of_nat (length (os w)), os w), w) else ((-1, buf), w\<lparr>errno := EBADF\<rparr>))\<rparr>"

lemma notebook_keeps: "keeps_test_file notebook_posix \<lparr>errno = 0, os = []\<rparr>"
proof -
  let ?w = "\<lparr>errno = 0, os = []\<rparr>" and ?w' = "\<lparr>errno = 0, os = test_text\<rparr>"
  have "px_open notebook_posix test_path flags mode w = (7, w)"
    "px_close notebook_posix 7 w = (0, w)"
    "px_write notebook_posix 7 test_text ?w = (17, ?w')"
    "px_read notebook_posix 7 (replicate 17 0) ?w' = ((17, test_text), ?w')" for flags mode w
    by (simp_all add: notebook_posix_def test_text_size)
  then show ?thesis unfolding keeps_test_file_def by (intro exI conjI) simp_all
qed

lemma fresh_ready: "ready 2 \<lparr>errno = 0, os = []\<rparr> (new_commander, fresh_remote)"
  using fresh_client(2) by (simp add: ready_def idle_def new_commander_def map_empty_def fresh_remote_def room_def
      counter_room_def new_worker_def new_file_handler_def new_dir_handler_def)

section \<open>Properties\<close>

text \<open>
  C39. The test of the repository that writes a file, reads it back and compares passes on every worker whose
  machine keeps the bytes of the file.
\<close>

theorem write_and_read_test_passes:
  assumes "ready 2 w s" "keeps_test_file P w"
  shows "write_and_read_section (worker_peer P android) s"
  using assms by (rule write_and_read_passes)

theorem write_and_read_test_passes_witness:
  "write_and_read_section (worker_peer notebook_posix False) (new_commander, fresh_remote)"
  by (rule write_and_read_test_passes [OF fresh_ready notebook_keeps])

text \<open>
  C40. The set-up of the tests does not wait for a worker. Whatever happens to the server between the two locks of
  a look and while the test sleeps, there is a first look that does not find a client in the list and lose it
  before \<open>get_commander\<close>, or else the last one, with no retries left. When its list is empty the set-up
  reads past the end of it; when its client is still connected the set-up has that commander; when
  not, it was the last look and the set-up fails. The looks before it have all lost their client.
\<close>

theorem test_setup_retries_only_after_a_loss:
  "\<exists>m sv'. lost_looks R between sleep MaxRetries sv m sv' \<and>
     (case get_clients sv' of
        [] \<Rightarrow> setup_commander R between sleep sv = (Inl (Undefined ''vector index out of range''), sv')
      | client # _ \<Rightarrow>
          (if gone client (between m sv')
           then m = 0 \<and> setup_commander R between sleep sv = (Inr None, snd (get_commander R client (between m sv')))
           else \<exists>s. setup_commander R between sleep sv = (Inr (Some s), between m sv')
             \<and> map_find client (sv_commanders (between m sv')) = Some s \<and> cm_connected (fst s)))"
  unfolding setup_commander_def by (rule retry_outcome)

end
