(* ===== verification/Logger.thy ===== *)
theory Logger
  imports Prelude
begin

text \<open>
  \<open>base/Logger\<close>: what a call of \<open>log\<close> hands to \<open>syslog\<close> and to the standard log stream. The other
  theories leave the calls out: no result depends on them.
\<close>

datatype log_level = Error | Warning | Notice | Info | Debug

text \<open>The values of \<open>syslog.h\<close>.\<close>

fun level_code :: "log_level \<Rightarrow> i32" where
  "level_code Error = 3"
| "level_code Warning = 4"
| "level_code Notice = 5"
| "level_code Info = 6"
| "level_code Debug = 7"

text \<open>The \<open>switch\<close> is on the number, which may be none of the enumerators.\<close>

definition level_letter :: "i32 \<Rightarrow> char" where
  "level_letter level =
     (if level = level_code Error then CHR ''E''
      else if level = level_code Warning then CHR ''W''
      else if level = level_code Notice then CHR ''N''
      else if level = level_code Info then CHR ''I''
      else if level = level_code Debug then CHR ''D''
      else CHR ''?'')"

text \<open>\<open>__FILE_NAME__\<close> is expanded in \<open>Logger.cpp\<close>.\<close>

definition log_line :: "i32 \<Rightarrow> string \<Rightarrow> string \<Rightarrow> u32 \<Rightarrow> string" where
  "log_line level message function_name line =
     ''['' @ [level_letter level] @ '':'' @ ''Logger.cpp'' @ '':'' @ function_name @ '':'' @
     to_string (unat line) @ '']: '' @ c_str message"

record log_output =
  lo_syslog :: "(i32 \<times> string) list"
  lo_clog :: string

definition log_message :: "i32 \<Rightarrow> string \<Rightarrow> string \<Rightarrow> u32 \<Rightarrow> log_output \<Rightarrow> log_output" where
  "log_message level message function_name line out =
     (let text = log_line level message function_name line
      in \<lparr>lo_syslog = lo_syslog out @ [(level, c_str text)], lo_clog = lo_clog out @ text @ [CHR 0x0A]\<rparr>)"

section \<open>The macros\<close>

text \<open>\<open>LOG_D\<close> expands to nothing in a build with \<open>NDEBUG\<close>.\<close>

definition log_d :: "bool \<Rightarrow> string \<Rightarrow> string \<Rightarrow> u32 \<Rightarrow> log_output \<Rightarrow> log_output" where
  "log_d ndebug message function_name line out =
     (if ndebug then out else log_message (level_code Debug) message function_name line out)"

definition log_w :: "string \<Rightarrow> string \<Rightarrow> u32 \<Rightarrow> log_output \<Rightarrow> log_output" where
  "log_w message = log_message (level_code Warning) message"

definition log_e :: "string \<Rightarrow> string \<Rightarrow> u32 \<Rightarrow> log_output \<Rightarrow> log_output" where
  "log_e message = log_message (level_code Error) message"

text \<open>
  \<open>DTOR_TRY\<close> and \<open>DTOR_CATCH\<close> around the body of a destructor, which has ended with \<open>r\<close>. All exceptions of
  the program are derived from \<open>std::exception\<close>, so that the second handler has nothing to catch.
\<close>

definition dtor_catch ::
    "(i32 \<Rightarrow> string) \<Rightarrow> string \<Rightarrow> u32 \<Rightarrow> unit result \<Rightarrow> log_output \<Rightarrow> unit result \<times> log_output" where
  "dtor_catch strerror function_name line r out =
     (case r of
        Inr _ \<Rightarrow> (Inr (), out)
      | Inl e \<Rightarrow> if uncaught e then (Inl e, out) else (Inr (), log_e (exn_what strerror e) function_name line out))"

text \<open>A destructor throws nothing, and logs at most one line.\<close>

lemma dtor_catch_silent:
  "dtor_catch strerror f line r out = (Inl e, out') \<Longrightarrow> r = Inl e \<and> uncaught e"
  "length (lo_syslog (snd (dtor_catch strerror f line r out))) \<le> length (lo_syslog out) + 1"
  by (auto simp: dtor_catch_def log_e_def log_message_def Let_def split: sum.splits if_splits)

text \<open>The letter tells the level.\<close>

lemma level_letter_inj: "level_letter (level_code l) = level_letter (level_code l') \<longleftrightarrow> l = l'"
  by (cases l; cases l') (simp_all add: level_letter_def)

text \<open>The name of the file is the same wherever \<open>log\<close> is called.\<close>

lemma log_line_file: "take 12 (drop 2 (log_line level message function_name line)) = '':Logger.cpp:''"
  by (simp add: log_line_def)

end
