(* ===== verification/Pool_System.thy ===== *)
theory Pool_System
  imports Thread_Pool
begin

text \<open>
  \<open>base/ThreadPool\<close> with all its threads. A task is only named here: it starts when a thread pops it and
  ends when its function comes back or throws. \<open>QueueShutdown\<close>, thrown by \<open>pop\<close> or by a task, ends the
  thread; any other exception of a task ends the program. The queue works one operation at a time
  (\<open>Concurrent_Queue\<close> shows that it may). The last fields are the history.
\<close>

datatype 't pool_thread = Polling | Runs_Task 't | Returned

record 't psys =
  ps_queue :: "'t cqueue"
  ps_threads :: "'t pool_thread list"
  ps_crashed :: bool
  ps_submitted :: "'t list"
  ps_started :: "'t list"
  ps_ended :: "'t multiset"

definition psys_init :: "u16 \<Rightarrow> 't psys" where
  "psys_init threads = \<lparr>ps_queue = new_queue, ps_threads = replicate (unat threads) Polling, ps_crashed = False,
     ps_submitted = [], ps_started = [], ps_ended = {#}\<rparr>"

definition thread_at :: "nat \<Rightarrow> 't pool_thread \<Rightarrow> 't psys \<Rightarrow> bool" where
  "thread_at i t s \<longleftrightarrow> \<not> ps_crashed s \<and> i < length (ps_threads s) \<and> ps_threads s ! i = t"

definition thread_to :: "nat \<Rightarrow> 't pool_thread \<Rightarrow> 't psys \<Rightarrow> 't psys" where
  "thread_to i t s = s\<lparr>ps_threads := (ps_threads s)[i := t]\<rparr>"

inductive pstep :: "'t psys \<Rightarrow> 't psys \<Rightarrow> bool" where
  task_submitted: "\<not> ps_crashed s \<Longrightarrow> queue_push t (ps_queue s) = (Inr (), q) \<Longrightarrow>
    pstep s (s\<lparr>ps_queue := q, ps_submitted := ps_submitted s @ [t]\<rparr>)"
| pool_destroyed: "\<not> ps_crashed s \<Longrightarrow> \<not> q_shutdown (ps_queue s) \<Longrightarrow>
    pstep s (s\<lparr>ps_queue := queue_shutdown (ps_queue s)\<rparr>)"
| task_popped: "thread_at i Polling s \<Longrightarrow> queue_pop (ps_queue s) = (Pops (Inr t), q) \<Longrightarrow>
    pstep s ((thread_to i (Runs_Task t) s)\<lparr>ps_queue := q, ps_started := ps_started s @ [t]\<rparr>)"
| pop_throws: "thread_at i Polling s \<Longrightarrow> queue_pop (ps_queue s) = (Pops (Inl QueueShutdown), q) \<Longrightarrow>
    pstep s ((thread_to i Returned s)\<lparr>ps_queue := q\<rparr>)"
| task_returns: "thread_at i (Runs_Task t) s \<Longrightarrow>
    pstep s ((thread_to i Polling s)\<lparr>ps_ended := add_mset t (ps_ended s)\<rparr>)"
| task_throws_shutdown: "thread_at i (Runs_Task t) s \<Longrightarrow>
    pstep s ((thread_to i Returned s)\<lparr>ps_ended := add_mset t (ps_ended s)\<rparr>)"
| task_throws: "thread_at i (Runs_Task t) s \<Longrightarrow> e \<noteq> QueueShutdown \<Longrightarrow> pstep s (s\<lparr>ps_crashed := True\<rparr>)"

inductive preach :: "u16 \<Rightarrow> 't psys \<Rightarrow> bool" for threads :: u16 where
  start: "preach threads (psys_init threads)"
| step: "preach threads s \<Longrightarrow> pstep s s' \<Longrightarrow> preach threads s'"

section \<open>Every task starts once, in order\<close>

definition running :: "'t psys \<Rightarrow> 't multiset" where
  "running s = mset (concat (map (\<lambda>t. case t of Runs_Task x \<Rightarrow> [x] | _ \<Rightarrow> []) (ps_threads s)))"

definition pool_inv :: "u16 \<Rightarrow> 't psys \<Rightarrow> bool" where
  "pool_inv threads s \<longleftrightarrow> ps_submitted s = ps_started s @ q_items (ps_queue s)
     \<and> mset (ps_started s) = ps_ended s + running s \<and> length (ps_threads s) = unat threads"

lemma running_to:
  "thread_at i t s \<Longrightarrow> running (thread_to i t' s) + (case t of Runs_Task x \<Rightarrow> {#x#} | _ \<Rightarrow> {#})
     = running s + (case t' of Runs_Task x \<Rightarrow> {#x#} | _ \<Rightarrow> {#})"
  using mset_concat_update [of i "ps_threads s" "\<lambda>t. case t of Runs_Task x \<Rightarrow> [x] | _ \<Rightarrow> []" t']
  by (auto simp: running_def thread_at_def thread_to_def split: pool_thread.split)

lemma running_fields [simp]:
  "running (s\<lparr>ps_queue := q\<rparr>) = running s" "running (s\<lparr>ps_submitted := ts\<rparr>) = running s"
  "running (s\<lparr>ps_started := ts\<rparr>) = running s" "running (s\<lparr>ps_ended := m\<rparr>) = running s"
  "running (s\<lparr>ps_crashed := b\<rparr>) = running s"
  by (simp_all add: running_def)

lemma thread_to_fields [simp]:
  "ps_queue (thread_to i t s) = ps_queue s" "ps_submitted (thread_to i t s) = ps_submitted s"
  "ps_started (thread_to i t s) = ps_started s" "ps_ended (thread_to i t s) = ps_ended s"
  "length (ps_threads (thread_to i t s)) = length (ps_threads s)"
  by (simp_all add: thread_to_def)

lemma pop_takes: "queue_pop q = (Pops (Inr t), q') \<Longrightarrow> q_items q = t # q_items q' \<and> q_shutdown q' = q_shutdown q"
  by (cases "q_items q") (auto simp: queue_pop_def split: if_splits)

lemma pop_shut: "queue_pop q = (Pops (Inl e), q') \<Longrightarrow> q' = q \<and> q_shutdown q"
  by (auto simp: queue_pop_def split: if_splits)

lemma pstep_inv: "pstep s s' \<Longrightarrow> pool_inv threads s \<Longrightarrow> pool_inv threads s'"
proof (induction rule: pstep.induct)
  case (task_submitted s t q)
  then show ?case by (auto simp: pool_inv_def queue_push_def split: if_splits)
next
  case (pool_destroyed s)
  then show ?case by (simp add: pool_inv_def queue_shutdown_def)
next
  case (task_popped i s t q)
  with running_to [OF task_popped(1), of "Runs_Task t"] show ?case
    by (auto simp: pool_inv_def dest!: pop_takes)
next
  case (pop_throws i s q)
  with running_to [OF pop_throws(1), of Returned] show ?case by (auto simp: pool_inv_def dest!: pop_shut)
next
  case (task_returns i t s)
  with running_to [OF task_returns(1), of Polling] show ?case by (auto simp: pool_inv_def)
next
  case (task_throws_shutdown i t s)
  with running_to [OF task_throws_shutdown(1), of Returned] show ?case by (auto simp: pool_inv_def)
next
  case (task_throws i t s e)
  then show ?case by (simp add: pool_inv_def)
qed

lemma pool_inv_init: "pool_inv threads (psys_init threads)"
  by (simp add: pool_inv_def psys_init_def running_def new_queue_def)

lemma preach_inv: "preach threads s \<Longrightarrow> pool_inv threads s"
  by (induction rule: preach.induct) (auto intro: pool_inv_init pstep_inv)

section \<open>No task waits while there are threads for all\<close>

lemma running_few:
  assumes "Polling \<notin> set ts" "Returned \<notin> set ts"
  shows "length (concat (map (\<lambda>t. case t of Runs_Task x \<Rightarrow> [x] | _ \<Rightarrow> []) ts)) = length ts"
  using assms by (induction ts) (auto split: pool_thread.split)

lemma waiting_task_has_thread:
  assumes "preach threads s" "q_items (ps_queue s) \<noteq> []" "Returned \<notin> set (ps_threads s)"
    and "length (ps_submitted s) \<le> unat threads"
  shows "Polling \<in> set (ps_threads s)"
proof (rule ccontr)
  assume "Polling \<notin> set (ps_threads s)"
  from running_few [OF this assms(3)] preach_inv [OF assms(1)]
  have "size (running s) = unat threads" by (simp add: running_def pool_inv_def size_mset)
  moreover have "size (running s) \<le> length (ps_started s)"
    using preach_inv [OF assms(1)] by (metis le_add2 pool_inv_def size_mset size_union)
  moreover have "length (ps_started s) < length (ps_submitted s)"
    using preach_inv [OF assms(1)] assms(2) by (simp add: pool_inv_def)
  ultimately show False using assms(4) by simp
qed

lemma waiting_task_starts:
  assumes "Polling \<in> set (ps_threads s)" "q_items (ps_queue s) \<noteq> []" "\<not> ps_crashed s" "\<not> q_shutdown (ps_queue s)"
  shows "\<exists>i s'. thread_at i Polling s \<and> pstep s s' \<and> thread_at i (Runs_Task (hd (q_items (ps_queue s)))) s'"
proof -
  obtain i where "i < length (ps_threads s)" "ps_threads s ! i = Polling"
    using assms(1) by (auto simp: in_set_conv_nth)
  then have i: "thread_at i Polling s" using assms(3) by (simp add: thread_at_def)
  let ?t = "hd (q_items (ps_queue s))" and ?q = "(ps_queue s)\<lparr>q_items := tl (q_items (ps_queue s))\<rparr>"
  let ?s = "(thread_to i (Runs_Task ?t) s)\<lparr>ps_queue := ?q, ps_started := ps_started s @ [?t]\<rparr>"
  have "queue_pop (ps_queue s) = (Pops (Inr ?t), ?q)" using assms(2,4) by (simp add: queue_pop_def)
  then have "pstep s ?s" by (rule task_popped [OF i])
  moreover have "thread_at i (Runs_Task ?t) ?s" using i by (simp add: thread_at_def thread_to_def)
  ultimately show ?thesis using i by blast
qed

section \<open>A destroyed pool joins its threads\<close>

fun thread_work :: "'t pool_thread \<Rightarrow> nat" where
  "thread_work Polling = 1"
| "thread_work (Runs_Task t) = 2"
| "thread_work Returned = 0"

definition pool_work :: "'t psys \<Rightarrow> nat" where
  "pool_work s = sum_list (map thread_work (ps_threads s))"

lemma work_to:
  assumes "thread_at i t s" shows "pool_work (thread_to i t' s) + thread_work t = pool_work s + thread_work t'"
proof -
  have "sum_list (map thread_work (ts[i := t'])) + thread_work (ts ! i) = sum_list (map thread_work ts) + thread_work t'"
    if "i < length ts" for ts using that
  proof (induction ts arbitrary: i)
    case (Cons u ts)
    then show ?case by (cases i) simp_all
  qed simp
  with assms show ?thesis by (auto simp: pool_work_def thread_at_def thread_to_def)
qed

lemma shut_step_works:
  assumes "pstep s s'" "q_shutdown (ps_queue s)"
  shows "q_shutdown (ps_queue s') \<and> (ps_crashed s' \<or> pool_work s' < pool_work s)"
  using assms
proof (induction rule: pstep.induct)
  case (task_returns i t s)
  with work_to [OF task_returns(1), of Polling] show ?case by (simp add: pool_work_def)
next
  case (task_throws_shutdown i t s)
  with work_to [OF task_throws_shutdown(1), of Returned] show ?case by (simp add: pool_work_def)
next
  case (pop_throws i s q)
  with work_to [OF pop_throws(1), of Returned] show ?case by (auto simp: pool_work_def dest!: pop_shut)
next
  case (task_popped i s t q)
  then show ?case by (simp add: queue_pop_def)
qed (auto simp: queue_push_def)

lemma shut_pool_steps:
  assumes "q_shutdown (ps_queue s)" "\<not> ps_crashed s" "\<exists>t \<in> set (ps_threads s). t \<noteq> Returned"
  shows "\<exists>s'. pstep s s'"
proof -
  obtain i where i: "i < length (ps_threads s)" "ps_threads s ! i \<noteq> Returned"
    using assms(3) by (auto simp: in_set_conv_nth)
  show ?thesis
  proof (cases "ps_threads s ! i")
    case Polling
    with i assms have "thread_at i Polling s" by (simp add: thread_at_def)
    moreover have "queue_pop (ps_queue s) = (Pops (Inl QueueShutdown), ps_queue s)"
      using assms(1) by (simp add: queue_pop_def)
    ultimately show ?thesis by (blast intro: pop_throws)
  next
    case (Runs_Task t)
    with i assms have "thread_at i (Runs_Task t) s" by (simp add: thread_at_def)
    then show ?thesis by (blast intro: task_returns)
  qed (use i in simp)
qed

section \<open>An example\<close>

definition pool_state :: "'t pool_thread list \<Rightarrow> 't list \<Rightarrow> 't list \<Rightarrow> 't psys" where
  "pool_state ts waiting started = \<lparr>ps_queue = \<lparr>q_shutdown = False, q_items = waiting\<rparr>, ps_threads = ts,
     ps_crashed = False, ps_submitted = started @ waiting, ps_started = started, ps_ended = {#}\<rparr>"

lemma pool_submitted: "preach n (pool_state ts waiting started) \<Longrightarrow> preach n (pool_state ts (waiting @ [t]) started)"
  by (drule preach.step [OF _ task_submitted [where t = t]]) (simp_all add: pool_state_def queue_push_def)

lemma idle_threads:
  "replicate 4 Polling = [Polling, Polling, Polling, Polling]" "replicate 2 Polling = [Polling, Polling]"
  by (simp_all add: numeral_eq_Suc)

lemma pool_example_4: "preach 4 (pool_state [Polling, Polling, Polling, Polling] [5 :: nat] [])"
proof -
  have "preach 4 (pool_state [Polling, Polling, Polling, Polling] ([] :: nat list) [])"
    using preach.start [of 4] by (simp add: idle_threads psys_init_def pool_state_def new_queue_def)
  from pool_submitted [OF this, of 5] show ?thesis by simp
qed

lemma pool_example: "preach 2 (pool_state [Runs_Task 5, Polling] [6 :: nat] [5])"
proof -
  have "preach 2 (pool_state [Polling, Polling] ([] :: nat list) [])"
    using preach.start [of 2] by (simp add: idle_threads psys_init_def pool_state_def new_queue_def)
  then have "preach 2 (pool_state [Polling, Polling] [5, 6 :: nat] [])"
    using pool_submitted [OF pool_submitted, of 2 "[Polling, Polling]" "[]" "[]" "5 :: nat" 6] by simp
  from preach.step [OF this task_popped [where i = 0 and t = 5 and q = "\<lparr>q_shutdown = False, q_items = [6]\<rparr>"]]
  show ?thesis by (simp add: pool_state_def thread_at_def thread_to_def queue_pop_cases)
qed

section \<open>Properties\<close>

text \<open>
  C37. However the threads of the pool interleave: the tasks submitted are those that were started, in this
  order, followed by those still queued; and every task started has ended or is running on exactly one
  thread.
\<close>

theorem pool_starts_tasks_in_order:
  assumes "preach threads s"
  shows "ps_submitted s = ps_started s @ q_items (ps_queue s) \<and> mset (ps_started s) = ps_ended s + running s
    \<and> length (ps_threads s) = unat threads"
  using preach_inv [OF assms] by (simp add: pool_inv_def)

theorem pool_starts_tasks_in_order_witness:
  "mset (ps_started (pool_state [Runs_Task (5 :: nat), Polling] [6] [5])) = running (pool_state [Runs_Task 5, Polling] [6] [5])"
  using pool_starts_tasks_in_order [OF pool_example] by (simp add: pool_state_def)

text \<open>
  C38. The worker submits no more handler loops than its pool has threads: while no thread has returned, a
  loop that is still queued has an idle thread to start it, however long the other loops run.
\<close>

theorem no_handler_loop_waits:
  assumes "preach (worker_pool_size concurrency) s" "unat concurrency < 2 ^ 16"
    and "length (ps_submitted s) \<le> handler_loops (worker_pool_size concurrency)"
    and "Returned \<notin> set (ps_threads s)" "q_items (ps_queue s) \<noteq> []" "\<not> ps_crashed s" "\<not> q_shutdown (ps_queue s)"
  shows "\<exists>i s'. thread_at i Polling s \<and> pstep s s' \<and> thread_at i (Runs_Task (hd (q_items (ps_queue s)))) s'"
proof -
  have "length (ps_submitted s) \<le> unat (worker_pool_size concurrency)"
    using assms(3) worker_pool_size_bounds(2) [OF assms(2)] by simp
  from waiting_task_has_thread [OF assms(1,5,4) this] assms(5,6,7) show ?thesis by (rule waiting_task_starts)
qed

theorem no_handler_loop_waits_witness:
  "\<exists>i s'. thread_at i Polling (pool_state [Polling, Polling, Polling, Polling] [5 :: nat] [])
     \<and> pstep (pool_state [Polling, Polling, Polling, Polling] [5 :: nat] []) s' \<and> thread_at i (Runs_Task (5 :: nat)) s'"
proof -
  let ?s = "pool_state [Polling, Polling, Polling, Polling] [5 :: nat] []"
  have "worker_pool_size 4 = 4" "handler_loops 4 = 3" by code_simp+
  then have "\<exists>i s'. thread_at i Polling ?s \<and> pstep ?s s' \<and> thread_at i (Runs_Task (hd (q_items (ps_queue ?s)))) s'"
    by (intro no_handler_loop_waits [of 4]) (use pool_example_4 in \<open>simp_all add: pool_state_def\<close>)
  moreover have "hd (q_items (ps_queue ?s)) = 5" by (simp add: pool_state_def)
  ultimately show ?thesis by simp
qed

end
