(* ===== verification/Server_System.thy ===== *)
theory Server_System
  imports Std_Map
begin

text \<open>
  \<open>commander/Server\<close> with all its threads: the acceptor, the callbacks that hold a commander they were
  given, and the main thread that closes and destroys the server. A commander is reached through shared
  pointers only, from the table and from the callbacks; whoever gives up the last one runs its
  destructor, which asks a connected worker to disconnect and waits for the reply or for the failure of the
  connection (\<open>disconnected\<close>); there is no limit to that. A step is one critical section of \<open>_commanders_mx\<close> up to the destructor it runs, one
  change of a use count outside of it, or one access to an atomic variable. A name in a connection is
  what \<open>format_connection\<close> made of its address. The server is closed by \<open>zcfs_destroy\<close>, which libfuse calls
  when none of its threads is in a callback any more; closing the socket it listens on ends a blocked
  \<open>accept\<close>. What a step waits for is its \<open>cause\<close>. \<open>ss_destroyed\<close> is the history; no step reads it.
\<close>

datatype life = Alive | Dying | Dead

record shared_commander =
  sc_uses :: nat
  sc_connected :: bool
  sc_life :: life

datatype acceptor =
    Accept_Test
  | Accept_Wait
  | Accept_Lock string
  | Accept_Erase string
  | Accept_Destroy string nat
  | Accept_Emplace string
  | Accept_Done

datatype fuse_thread =
    No_Call
  | Get_Lock string
  | Get_Find string
  | Get_Destroy nat
  | Holds nat
  | Release_Destroy nat
  | List_Lock
  | List_Clients

datatype main_thread = Serving | Closing | Joining | Clearing | Clear_Destroy nat | Gone

datatype lock_owner = Acceptor_Thread | Fuse_Thread nat

record ssys =
  ss_stop :: bool
  ss_listening :: bool
  ss_table :: "(string, nat) std_map"
  ss_objects :: "shared_commander list"
  ss_owner :: "lock_owner option"
  ss_acceptor :: acceptor
  ss_threads :: "fuse_thread list"
  ss_main :: main_thread
  ss_destroyed :: "nat list"

definition ssys_init :: "nat \<Rightarrow> ssys" where
  "ssys_init n = \<lparr>ss_stop = False, ss_listening = True, ss_table = map_empty, ss_objects = [], ss_owner = None,
     ss_acceptor = Accept_Test, ss_threads = replicate n No_Call, ss_main = Serving, ss_destroyed = []\<rparr>"

definition at_fuse :: "nat \<Rightarrow> fuse_thread \<Rightarrow> ssys \<Rightarrow> bool" where
  "at_fuse i t s \<longleftrightarrow> i < length (ss_threads s) \<and> ss_threads s ! i = t"

definition fuse_to :: "nat \<Rightarrow> fuse_thread \<Rightarrow> ssys \<Rightarrow> ssys" where
  "fuse_to i t s = s\<lparr>ss_threads := (ss_threads s)[i := t]\<rparr>"

definition unlock :: "ssys \<Rightarrow> ssys" where
  "unlock s = s\<lparr>ss_owner := None\<rparr>"

section \<open>Shared pointers\<close>

definition change :: "nat \<Rightarrow> (shared_commander \<Rightarrow> shared_commander) \<Rightarrow> ssys \<Rightarrow> ssys" where
  "change c f s = s\<lparr>ss_objects := (ss_objects s)[c := f (ss_objects s ! c)]\<rparr>"

definition copy_ptr :: "nat \<Rightarrow> ssys \<Rightarrow> ssys" where
  "copy_ptr c = change c (\<lambda>x. x\<lparr>sc_uses := sc_uses x + 1\<rparr>)"

definition last_ptr :: "nat \<Rightarrow> ssys \<Rightarrow> bool" where
  "last_ptr c s \<longleftrightarrow> sc_uses (ss_objects s ! c) = 1"

text \<open>A pointer that goes away; with the last one the destructor begins.\<close>

definition drop_ptr :: "nat \<Rightarrow> ssys \<Rightarrow> ssys" where
  "drop_ptr c s = change c (\<lambda>x. x\<lparr>sc_uses := sc_uses x - 1,
     sc_life := (if last_ptr c s then Dying else sc_life x)\<rparr>) s"

definition destroyed :: "nat \<Rightarrow> ssys \<Rightarrow> ssys" where
  "destroyed c s = (change c (\<lambda>x. x\<lparr>sc_connected := False, sc_life := Dead\<rparr>) s)
     \<lparr>ss_destroyed := ss_destroyed s @ [c]\<rparr>"

text \<open>\<open>erase\<close> with the destructor of the pointer, and \<open>emplace\<close> with \<open>make_unique\<close>.\<close>

definition erase_entry :: "string \<Rightarrow> nat \<Rightarrow> ssys \<Rightarrow> ssys" where
  "erase_entry name c s = drop_ptr c (s\<lparr>ss_table := map_erase name (ss_table s)\<rparr>)"

definition emplace_new :: "string \<Rightarrow> ssys \<Rightarrow> ssys" where
  "emplace_new name s = s\<lparr>ss_table := map_emplace name (length (ss_objects s)) (ss_table s),
     ss_objects := ss_objects s @ [\<lparr>sc_uses = 1, sc_connected = True, sc_life = Alive\<rparr>]\<rparr>"

section \<open>Steps\<close>

inductive sstep :: "cause \<Rightarrow> ssys \<Rightarrow> ssys \<Rightarrow> bool" where
  accept_test: "ss_acceptor s = Accept_Test \<Longrightarrow>
    sstep By_Itself s (s\<lparr>ss_acceptor := (if ss_stop s then Accept_Done else Accept_Wait)\<rparr>)"
| accepts: "ss_acceptor s = Accept_Wait \<Longrightarrow> ss_listening s \<Longrightarrow>
    sstep From_Outside s (s\<lparr>ss_acceptor := Accept_Lock name\<rparr>)"
| accept_throws: "ss_acceptor s = Accept_Wait \<Longrightarrow> sstep From_Outside s (s\<lparr>ss_acceptor := Accept_Done\<rparr>)"
| accept_closed: "ss_acceptor s = Accept_Wait \<Longrightarrow> \<not> ss_listening s \<Longrightarrow>
    sstep By_Itself s (s\<lparr>ss_acceptor := Accept_Done\<rparr>)"
| accept_lock: "ss_acceptor s = Accept_Lock name \<Longrightarrow> ss_owner s = None \<Longrightarrow>
    sstep By_Itself s (s\<lparr>ss_owner := Some Acceptor_Thread, ss_acceptor := Accept_Erase name\<rparr>)"
| erase_none: "ss_acceptor s = Accept_Erase name \<Longrightarrow> map_find name (ss_table s) = None \<Longrightarrow>
    sstep By_Itself s (s\<lparr>ss_acceptor := Accept_Emplace name\<rparr>)"
| erase_old: "ss_acceptor s = Accept_Erase name \<Longrightarrow> map_find name (ss_table s) = Some c \<Longrightarrow>
    sstep By_Itself s ((erase_entry name c s)
      \<lparr>ss_acceptor := (if last_ptr c s then Accept_Destroy name c else Accept_Emplace name)\<rparr>)"
| erase_destroyed: "ss_acceptor s = Accept_Destroy name c \<Longrightarrow> \<not> sc_connected (ss_objects s ! c) \<Longrightarrow>
    sstep By_Itself s ((destroyed c s)\<lparr>ss_acceptor := Accept_Emplace name\<rparr>)"
| emplace: "ss_acceptor s = Accept_Emplace name \<Longrightarrow>
    sstep By_Itself s (unlock (emplace_new name s)\<lparr>ss_acceptor := Accept_Test\<rparr>)"
| emplace_throws: "ss_acceptor s = Accept_Emplace name \<Longrightarrow>
    sstep From_Outside s (unlock s\<lparr>ss_acceptor := Accept_Done\<rparr>)"
| get_call: "at_fuse i No_Call s \<Longrightarrow> ss_main s = Serving \<Longrightarrow> sstep Is_Called s (fuse_to i (Get_Lock client) s)"
| get_lock: "at_fuse i (Get_Lock client) s \<Longrightarrow> ss_owner s = None \<Longrightarrow>
    sstep By_Itself s (fuse_to i (Get_Find client) (s\<lparr>ss_owner := Some (Fuse_Thread i)\<rparr>))"
| get_absent: "at_fuse i (Get_Find client) s \<Longrightarrow> map_find client (ss_table s) = None \<Longrightarrow>
    sstep By_Itself s (fuse_to i No_Call (unlock s))"
| get_found: "at_fuse i (Get_Find client) s \<Longrightarrow> map_find client (ss_table s) = Some c \<Longrightarrow>
    sc_connected (ss_objects s ! c) \<Longrightarrow> sstep By_Itself s (fuse_to i (Holds c) (copy_ptr c (unlock s)))"
| get_lost: "at_fuse i (Get_Find client) s \<Longrightarrow> map_find client (ss_table s) = Some c \<Longrightarrow>
    \<not> sc_connected (ss_objects s ! c) \<Longrightarrow>
    sstep By_Itself s (if last_ptr c s then fuse_to i (Get_Destroy c) (erase_entry client c s)
             else fuse_to i No_Call (unlock (erase_entry client c s)))"
| get_destroyed: "at_fuse i (Get_Destroy c) s \<Longrightarrow> \<not> sc_connected (ss_objects s ! c) \<Longrightarrow>
    sstep By_Itself s (fuse_to i No_Call (unlock (destroyed c s)))"
| release: "at_fuse i (Holds c) s \<Longrightarrow>
    sstep By_Itself s (fuse_to i (if last_ptr c s then Release_Destroy c else No_Call) (drop_ptr c s))"
| release_destroyed: "at_fuse i (Release_Destroy c) s \<Longrightarrow> \<not> sc_connected (ss_objects s ! c) \<Longrightarrow>
    sstep By_Itself s (fuse_to i No_Call (destroyed c s))"
| list_call: "at_fuse i No_Call s \<Longrightarrow> ss_main s = Serving \<Longrightarrow> sstep Is_Called s (fuse_to i List_Lock s)"
| list_lock: "at_fuse i List_Lock s \<Longrightarrow> ss_owner s = None \<Longrightarrow>
    sstep By_Itself s (fuse_to i List_Clients (s\<lparr>ss_owner := Some (Fuse_Thread i)\<rparr>))"
| list_done: "at_fuse i List_Clients s \<Longrightarrow> sstep By_Itself s (fuse_to i No_Call (unlock s))"
| loses_worker: "c < length (ss_objects s) \<Longrightarrow> sc_life (ss_objects s ! c) = Alive \<Longrightarrow>
    sstep From_Outside s (change c (\<lambda>x. x\<lparr>sc_connected := False\<rparr>) s)"
| disconnected: "c < length (ss_objects s) \<Longrightarrow> sc_life (ss_objects s ! c) = Dying \<Longrightarrow>
    sstep From_Outside s (change c (\<lambda>x. x\<lparr>sc_connected := False\<rparr>) s)"
| close: "ss_main s = Serving \<Longrightarrow> \<forall>i < length (ss_threads s). ss_threads s ! i = No_Call \<Longrightarrow>
    sstep Is_Called s (s\<lparr>ss_stop := True, ss_main := Closing\<rparr>)"
| close_socket: "ss_main s = Closing \<Longrightarrow> sstep By_Itself s (s\<lparr>ss_listening := False, ss_main := Joining\<rparr>)"
| joined: "ss_main s = Joining \<Longrightarrow> ss_acceptor s = Accept_Done \<Longrightarrow> sstep By_Itself s (s\<lparr>ss_main := Clearing\<rparr>)"
| clear_one: "ss_main s = Clearing \<Longrightarrow> ss_table s = (name, c) # rest \<Longrightarrow>
    sstep By_Itself s ((drop_ptr c (s\<lparr>ss_table := rest\<rparr>))\<lparr>ss_main := (if last_ptr c s then Clear_Destroy c else Clearing)\<rparr>)"
| clear_destroyed: "ss_main s = Clear_Destroy c \<Longrightarrow> \<not> sc_connected (ss_objects s ! c) \<Longrightarrow>
    sstep By_Itself s ((destroyed c s)\<lparr>ss_main := Clearing\<rparr>)"
| cleared: "ss_main s = Clearing \<Longrightarrow> ss_table s = [] \<Longrightarrow> sstep By_Itself s (s\<lparr>ss_main := Gone\<rparr>)"

inductive sreach :: "nat \<Rightarrow> ssys \<Rightarrow> bool" for n :: nat where
  start: "sreach n (ssys_init n)"
| step: "sreach n s \<Longrightarrow> sstep a s s' \<Longrightarrow> sreach n s'"

section \<open>Who holds a commander\<close>

fun fuse_holds :: "fuse_thread \<Rightarrow> nat list" where
  "fuse_holds (Holds c) = [c]"
| "fuse_holds _ = []"

fun fuse_destroys :: "fuse_thread \<Rightarrow> nat list" where
  "fuse_destroys (Get_Destroy c) = [c]"
| "fuse_destroys (Release_Destroy c) = [c]"
| "fuse_destroys _ = []"

fun acceptor_destroys :: "acceptor \<Rightarrow> nat list" where
  "acceptor_destroys (Accept_Destroy name c) = [c]"
| "acceptor_destroys _ = []"

fun main_destroys :: "main_thread \<Rightarrow> nat list" where
  "main_destroys (Clear_Destroy c) = [c]"
| "main_destroys _ = []"

definition pointers :: "ssys \<Rightarrow> nat multiset" where
  "pointers s = mset (map snd (ss_table s)) + mset (concat (map fuse_holds (ss_threads s)))"

definition destructors :: "ssys \<Rightarrow> nat multiset" where
  "destructors s = mset (concat (map fuse_destroys (ss_threads s))) + mset (acceptor_destroys (ss_acceptor s))
     + mset (main_destroys (ss_main s))"

text \<open>
  The use count is the number of pointers, and a commander is destroyed once, when there is none left:
  \<open>ps\<close> are the pointers to the commanders \<open>os\<close>, \<open>ds\<close> the destructors that are running, \<open>xs\<close> those that
  have returned.
\<close>

fun life_ok :: "life \<Rightarrow> nat \<Rightarrow> nat \<Rightarrow> nat \<Rightarrow> bool" where
  "life_ok Alive p d x \<longleftrightarrow> 0 < p \<and> d = 0 \<and> x = 0"
| "life_ok Dying p d x \<longleftrightarrow> p = 0 \<and> d = 1 \<and> x = 0"
| "life_ok Dead p d x \<longleftrightarrow> p = 0 \<and> d = 0 \<and> x = 1"

definition counts_ok ::
    "shared_commander list \<Rightarrow> nat multiset \<Rightarrow> nat multiset \<Rightarrow> nat multiset \<Rightarrow> bool" where
  "counts_ok os ps ds xs \<longleftrightarrow>
     (\<forall>c. if c < length os then sc_uses (os ! c) = count ps c
          \<and> life_ok (sc_life (os ! c)) (count ps c) (count ds c) (count xs c)
        else count ps c = 0 \<and> count ds c = 0 \<and> count xs c = 0)"

definition objects_inv :: "ssys \<Rightarrow> bool" where
  "objects_inv s \<longleftrightarrow> map_ok (ss_table s)
     \<and> counts_ok (ss_objects s) (pointers s) (destructors s) (mset (ss_destroyed s))"

text \<open>The critical section.\<close>

fun acceptor_locks :: "acceptor \<Rightarrow> bool" where
  "acceptor_locks (Accept_Erase name) = True"
| "acceptor_locks (Accept_Destroy name c) = True"
| "acceptor_locks (Accept_Emplace name) = True"
| "acceptor_locks _ = False"

fun fuse_locks :: "fuse_thread \<Rightarrow> bool" where
  "fuse_locks (Get_Find client) = True"
| "fuse_locks (Get_Destroy c) = True"
| "fuse_locks List_Clients = True"
| "fuse_locks _ = False"

definition lock_inv :: "ssys \<Rightarrow> bool" where
  "lock_inv s \<longleftrightarrow> (acceptor_locks (ss_acceptor s) \<longleftrightarrow> ss_owner s = Some Acceptor_Thread)
     \<and> (\<forall>i < length (ss_threads s). fuse_locks (ss_threads s ! i) \<longleftrightarrow> ss_owner s = Some (Fuse_Thread i))
     \<and> (\<forall>i. ss_owner s = Some (Fuse_Thread i) \<longrightarrow> i < length (ss_threads s))"

text \<open>
  Once the server closes no callback runs; main joins the acceptor only when the socket is closed, and the
  table is not taken apart before the acceptor has ended.
\<close>

definition close_inv :: "ssys \<Rightarrow> bool" where
  "close_inv s \<longleftrightarrow> (ss_main s \<noteq> Serving \<longrightarrow> ss_stop s \<and> (\<forall>i < length (ss_threads s). ss_threads s ! i = No_Call))
     \<and> (ss_main s \<notin> {Serving, Closing} \<longrightarrow> \<not> ss_listening s)
     \<and> (ss_main s \<notin> {Serving, Closing, Joining} \<longrightarrow> ss_acceptor s = Accept_Done)
     \<and> (ss_main s = Gone \<longrightarrow> ss_table s = [])"

section \<open>The counts\<close>

lemma counts_at:
  "counts_ok os ps ds xs \<Longrightarrow> c < length os \<Longrightarrow>
   sc_uses (os ! c) = count ps c \<and> life_ok (sc_life (os ! c)) (count ps c) (count ds c) (count xs c)"
  "counts_ok os ps ds xs \<Longrightarrow> \<not> c < length os \<Longrightarrow> count ps c = 0 \<and> count ds c = 0 \<and> count xs c = 0"
  unfolding counts_ok_def by metis+

lemma life_ok_alive: "life_ok l p d x \<Longrightarrow> 0 < p \<Longrightarrow> l = Alive \<and> d = 0 \<and> x = 0"
  and life_ok_dying: "life_ok l p d x \<Longrightarrow> 0 < d \<Longrightarrow> l = Dying \<and> p = 0 \<and> d = 1 \<and> x = 0"
  by (cases l; simp)+

lemma counts_alive:
  assumes "counts_ok os ps ds xs" "c \<in># ps"
  shows "c < length os" "sc_life (os ! c) = Alive" "sc_uses (os ! c) = count ps c" "count ds c = 0" "count xs c = 0"
proof -
  have pos: "0 < count ps c" using assms(2) by simp
  then show less: "c < length os" using counts_at(2) [OF assms(1)] by fastforce
  from counts_at(1) [OF assms(1) less] pos
  show "sc_life (os ! c) = Alive" "sc_uses (os ! c) = count ps c" "count ds c = 0" "count xs c = 0"
    by (auto dest: life_ok_alive)
qed

lemma counts_dying:
  assumes "counts_ok os ps ds xs" "c \<in># ds"
  shows "c < length os" "count ps c = 0" "count ds c = 1" "count xs c = 0" "sc_life (os ! c) = Dying"
proof -
  have pos: "0 < count ds c" using assms(2) by simp
  then show less: "c < length os" using counts_at(2) [OF assms(1)] by fastforce
  from life_ok_dying [OF conjunct2 [OF counts_at(1) [OF assms(1) less]] pos]
  show "count ps c = 0" "count ds c = 1" "count xs c = 0" "sc_life (os ! c) = Dying" by simp_all
qed

lemma counts_update:
  assumes "counts_ok os ps ds xs" "c < length os"
    and "\<And>j. j \<noteq> c \<Longrightarrow> count ps' j = count ps j \<and> count ds' j = count ds j \<and> count xs' j = count xs j"
    and "sc_uses x = count ps' c" "life_ok (sc_life x) (count ps' c) (count ds' c) (count xs' c)"
  shows "counts_ok (os[c := x]) ps' ds' xs'"
  unfolding counts_ok_def
proof
  fix j
  show "if j < length (os[c := x]) then sc_uses (os[c := x] ! j) = count ps' j
      \<and> life_ok (sc_life (os[c := x] ! j)) (count ps' j) (count ds' j) (count xs' j)
    else count ps' j = 0 \<and> count ds' j = 0 \<and> count xs' j = 0"
    using counts_at [OF assms(1), of j] assms(2-5) by (cases "j = c") simp_all
qed

lemma counts_copy:
  assumes "counts_ok os ps ds xs" "c \<in># ps"
  shows "counts_ok (os[c := (os ! c)\<lparr>sc_uses := sc_uses (os ! c) + 1\<rparr>]) (add_mset c ps) ds xs"
  by (rule counts_update [OF assms(1)]) (use counts_alive [OF assms] in simp_all)

lemma counts_drop:
  assumes "counts_ok os (add_mset c ps) ds xs"
  shows "counts_ok (os[c := (os ! c)\<lparr>sc_uses := sc_uses (os ! c) - 1,
      sc_life := (if sc_uses (os ! c) = 1 then Dying else sc_life (os ! c))\<rparr>]) ps
    (if sc_uses (os ! c) = 1 then add_mset c ds else ds) xs"
  by (rule counts_update [OF assms]) (use counts_alive [OF assms, of c] in \<open>simp_all add: count_eq_zero_iff\<close>)

lemma counts_destroyed:
  assumes "counts_ok os ps (add_mset c ds) xs"
  shows "counts_ok (os[c := (os ! c)\<lparr>sc_connected := False, sc_life := Dead\<rparr>]) ps ds (add_mset c xs)"
  by (rule counts_update [OF assms])
    (use counts_dying [OF assms, of c] counts_at(1) [OF assms, of c] in simp_all)

lemma counts_disconnected:
  assumes "counts_ok os ps ds xs" "c < length os"
  shows "counts_ok (os[c := (os ! c)\<lparr>sc_connected := False\<rparr>]) ps ds xs"
  by (rule counts_update [OF assms]) (use counts_at(1) [OF assms] in simp_all)

lemma counts_new:
  assumes "counts_ok os ps ds xs"
  shows "counts_ok (os @ [\<lparr>sc_uses = 1, sc_connected = True, sc_life = Alive\<rparr>]) (add_mset (length os) ps) ds xs"
  unfolding counts_ok_def
proof
  fix j
  let ?os = "os @ [\<lparr>sc_uses = 1, sc_connected = True, sc_life = Alive\<rparr>]" and ?ps = "add_mset (length os) ps"
  consider "j < length os" | "j = length os" | "length os < j" by linarith
  then show "if j < length ?os then sc_uses (?os ! j) = count ?ps j
      \<and> life_ok (sc_life (?os ! j)) (count ?ps j) (count ds j) (count xs j)
    else count ?ps j = 0 \<and> count ds j = 0 \<and> count xs j = 0"
    by cases (use counts_at [OF assms, of j] in \<open>simp_all add: nth_append\<close>)
qed

section \<open>How a step changes them\<close>

lemma fuse_to_fields [simp]:
  "ss_table (fuse_to i t s) = ss_table s" "ss_objects (fuse_to i t s) = ss_objects s"
  "ss_owner (fuse_to i t s) = ss_owner s" "ss_acceptor (fuse_to i t s) = ss_acceptor s"
  "ss_main (fuse_to i t s) = ss_main s" "ss_stop (fuse_to i t s) = ss_stop s" "ss_listening (fuse_to i t s) = ss_listening s"
  "ss_destroyed (fuse_to i t s) = ss_destroyed s" "ss_threads (fuse_to i t s) = (ss_threads s)[i := t]"
  by (simp_all add: fuse_to_def)

lemma unlock_fields [simp]:
  "ss_table (unlock s) = ss_table s" "ss_objects (unlock s) = ss_objects s"
  "ss_owner (unlock s) = None" "ss_acceptor (unlock s) = ss_acceptor s"
  "ss_main (unlock s) = ss_main s" "ss_stop (unlock s) = ss_stop s" "ss_listening (unlock s) = ss_listening s"
  "ss_destroyed (unlock s) = ss_destroyed s" "ss_threads (unlock s) = ss_threads s"
  by (simp_all add: unlock_def)

lemma change_fields [simp]:
  "ss_table (change c f s) = ss_table s"
  "ss_objects (change c f s) = (ss_objects s)[c := f (ss_objects s ! c)]"
  "ss_owner (change c f s) = ss_owner s" "ss_acceptor (change c f s) = ss_acceptor s"
  "ss_main (change c f s) = ss_main s" "ss_stop (change c f s) = ss_stop s" "ss_listening (change c f s) = ss_listening s"
  "ss_destroyed (change c f s) = ss_destroyed s" "ss_threads (change c f s) = ss_threads s"
  by (simp_all add: change_def)

lemmas ptr_defs = copy_ptr_def drop_ptr_def destroyed_def erase_entry_def emplace_new_def last_ptr_def

lemma erase_pointers:
  "map_ok m \<Longrightarrow> map_find k m = Some v \<Longrightarrow> mset (map snd m) = add_mset v (mset (map snd (map_erase k m)))"
proof (induction m)
  case (Cons e m)
  obtain k' v' where e: "e = (k', v')" by (rule prod.exhaust)
  show ?case
  proof (cases "k = k'")
    case True
    have "map_erase k m = m"
      using Cons.prems(1) True unfolding e map_erase_def by (force simp: map_ok_Cons intro: filter_True)
    with True Cons.prems(2) show ?thesis by (simp add: e map_erase_def)
  next
    case False
    with Cons.prems Cons.IH show ?thesis by (simp add: e map_erase_def map_ok_Cons)
  qed
qed simp

lemma emplace_pointers:
  "map_find k m = None \<Longrightarrow> mset (map snd (map_emplace k v m)) = add_mset v (mset (map snd m))"
  by (induction k v m rule: map_emplace.induct) (auto split: if_splits)

lemma fuse_moves:
  "at_fuse i t s \<Longrightarrow> mset (concat (map f ((ss_threads s)[i := t']))) + mset (f t)
     = mset (concat (map f (ss_threads s))) + mset (f t')"
  using mset_concat_update [of i "ss_threads s" f t'] by (simp add: at_fuse_def)

text \<open>The name that is about to be entered is not in the table.\<close>

definition emplace_inv :: "ssys \<Rightarrow> bool" where
  "emplace_inv s \<longleftrightarrow>
     (case ss_acceptor s of
        Accept_Destroy name c \<Rightarrow> map_find name (ss_table s) = None
      | Accept_Emplace name \<Rightarrow> map_find name (ss_table s) = None
      | _ \<Rightarrow> True)"

lemma emplace_inv_step: "sstep a s s' \<Longrightarrow> lock_inv s \<Longrightarrow> close_inv s \<Longrightarrow> emplace_inv s \<Longrightarrow> emplace_inv s'"
  by (induction rule: sstep.induct)
    (auto simp: emplace_inv_def ptr_defs map_find_erase lock_inv_def close_inv_def split: acceptor.splits if_splits)

lemma lock_inv_step: "sstep a s s' \<Longrightarrow> lock_inv s \<Longrightarrow> lock_inv s'"
  by (induction rule: sstep.induct)
    (auto simp: lock_inv_def ptr_defs at_fuse_def nth_list_update split: if_splits)

lemma close_inv_step: "sstep a s s' \<Longrightarrow> close_inv s \<Longrightarrow> close_inv s'"
  by (induction rule: sstep.induct)
    (auto simp: close_inv_def ptr_defs at_fuse_def split: if_splits)

lemma table_ok_step: "sstep a s s' \<Longrightarrow> map_ok (ss_table s) \<Longrightarrow> map_ok (ss_table s')"
  by (induction rule: sstep.induct)
    (auto simp: ptr_defs map_ok_erase map_ok_emplace map_ok_Cons)

text \<open>What a callback thread does to the pointers and to the destructors.\<close>

lemma fuse_counts:
  assumes "at_fuse i t s" "ss_threads s' = ss_threads s" "ss_acceptor s' = ss_acceptor s" "ss_main s' = ss_main s"
  shows "pointers (fuse_to i t' s') + mset (fuse_holds t) + mset (map snd (ss_table s))
      = pointers s + mset (fuse_holds t') + mset (map snd (ss_table s'))"
    and "destructors (fuse_to i t' s') + mset (fuse_destroys t) = destructors s + mset (fuse_destroys t')"
  using fuse_moves [OF assms(1), of fuse_holds t'] fuse_moves [OF assms(1), of fuse_destroys t'] assms(2-4)
  by (simp_all add: pointers_def destructors_def)

lemma fuse_same:
  "at_fuse i t s \<Longrightarrow> fuse_holds t = fuse_holds t' \<Longrightarrow> fuse_destroys t = fuse_destroys t' \<Longrightarrow>
   ss_threads s' = ss_threads s \<Longrightarrow> ss_acceptor s' = ss_acceptor s \<Longrightarrow> ss_main s' = ss_main s \<Longrightarrow>
   ss_table s' = ss_table s \<Longrightarrow>
   pointers (fuse_to i t' s') = pointers s \<and> destructors (fuse_to i t' s') = destructors s"
  using fuse_counts [of i t s s' t'] by simp

definition counts_inv :: "ssys \<Rightarrow> bool" where
  "counts_inv s \<longleftrightarrow> counts_ok (ss_objects s) (pointers s) (destructors s) (mset (ss_destroyed s))"

lemma objects_inv_eq: "objects_inv s \<longleftrightarrow> map_ok (ss_table s) \<and> counts_inv s"
  by (simp add: objects_inv_def counts_inv_def)

lemma table_pointer: "map_find name (ss_table s) = Some c \<Longrightarrow> c \<in># pointers s"
  by (force simp: pointers_def map_find_def dest: map_of_SomeD)

lemma counts_inv_drop:
  assumes "counts_inv s" "pointers s = add_mset c (pointers s')"
    and "ss_objects s' = (ss_objects s)[c := (ss_objects s ! c)\<lparr>sc_uses := sc_uses (ss_objects s ! c) - 1,
      sc_life := (if sc_uses (ss_objects s ! c) = 1 then Dying else sc_life (ss_objects s ! c))\<rparr>]"
    and "destructors s' = (if sc_uses (ss_objects s ! c) = 1 then add_mset c (destructors s) else destructors s)"
    and "ss_destroyed s' = ss_destroyed s"
  shows "counts_inv s'"
  using counts_drop [of "ss_objects s" c "pointers s'" "destructors s" "mset (ss_destroyed s)"] assms
  by (simp add: counts_inv_def)

lemma counts_inv_destroyed:
  assumes "counts_inv s" "pointers s' = pointers s" "destructors s = add_mset c (destructors s')"
    and "ss_objects s' = (ss_objects s)[c := (ss_objects s ! c)\<lparr>sc_connected := False, sc_life := Dead\<rparr>]"
    and "ss_destroyed s' = ss_destroyed s @ [c]"
  shows "counts_inv s'"
  using counts_destroyed [of "ss_objects s" "pointers s" c "destructors s'" "mset (ss_destroyed s)"] assms
  by (simp add: counts_inv_def)

lemma counts_inv_same:
  assumes "counts_inv s" "pointers s' = pointers s" "destructors s' = destructors s"
    and "ss_objects s' = ss_objects s" "ss_destroyed s' = ss_destroyed s"
  shows "counts_inv s'"
  using assms by (simp add: counts_inv_def)

lemma counts_inv_fuse:
  assumes "counts_inv s" "at_fuse i t s" "fuse_holds t = fuse_holds t'" "fuse_destroys t = fuse_destroys t'"
    and "ss_threads s' = ss_threads s" "ss_acceptor s' = ss_acceptor s" "ss_main s' = ss_main s"
    and "ss_table s' = ss_table s" "ss_objects s' = ss_objects s" "ss_destroyed s' = ss_destroyed s"
  shows "counts_inv (fuse_to i t' s')"
  using fuse_same [OF assms(2-8)] by (intro counts_inv_same [OF assms(1)]) (simp_all add: assms(9,10))

lemma counts_inv_step:
  assumes "sstep a s s'" "map_ok (ss_table s)" "emplace_inv s" "counts_inv s"
  shows "counts_inv s'"
  using assms
proof (induction rule: sstep.induct)
  case (erase_old s name c)
  from erase_pointers [OF erase_old.prems(1) erase_old.hyps(2)] erase_old.hyps(1) show ?case
    by (intro counts_inv_drop [OF erase_old.prems(3), of c]) (simp_all add: pointers_def destructors_def ptr_defs)
next
  case (erase_destroyed s name c)
  then show ?case
    by (intro counts_inv_destroyed [OF erase_destroyed.prems(3), of _ c])
      (simp_all add: pointers_def destructors_def ptr_defs)
next
  case (emplace s name)
  then have "pointers (emplace_new name s) = add_mset (length (ss_objects s)) (pointers s)"
    using emplace_pointers [of name "ss_table s" "length (ss_objects s)"]
    by (simp add: emplace_inv_def pointers_def emplace_new_def)
  with emplace counts_new [of "ss_objects s" "pointers s" "destructors s" "mset (ss_destroyed s)"] show ?case
    by (simp add: counts_inv_def pointers_def destructors_def emplace_new_def)
next
  case (get_found i client s c)
  have "pointers (fuse_to i (Holds c) (copy_ptr c (unlock s))) = add_mset c (pointers s)"
    "destructors (fuse_to i (Holds c) (copy_ptr c (unlock s))) = destructors s"
    using fuse_counts [OF get_found.hyps(1), of "copy_ptr c (unlock s)" "Holds c"] by (simp_all add: copy_ptr_def)
  with get_found counts_copy [of "ss_objects s" "pointers s" "destructors s" "mset (ss_destroyed s)" c]
    table_pointer [OF get_found.hyps(2)]
  show ?case by (simp add: counts_inv_def copy_ptr_def)
next
  case (get_lost i client s c)
  have "pointers s = add_mset c (pointers (fuse_to i t (erase_entry client c s)))"
    "destructors (fuse_to i t (erase_entry client c s)) = destructors s + mset (fuse_destroys t)"
    if "fuse_holds t = []" for t
    using fuse_counts [OF get_lost.hyps(1), of "erase_entry client c s" t] that
      erase_pointers [OF get_lost.prems(1) get_lost.hyps(2)]
    by (simp_all add: ptr_defs)
  moreover have "pointers (fuse_to i t (unlock s)) = pointers (fuse_to i t s)"
    "destructors (fuse_to i t (unlock s)) = destructors (fuse_to i t s)" for t s
    by (simp_all add: pointers_def destructors_def)
  ultimately show ?case
    by (intro counts_inv_drop [OF get_lost.prems(3), of c]) (simp_all add: last_ptr_def, simp_all add: ptr_defs)
next
  case (get_destroyed i c s)
  show ?case
    using fuse_counts [OF get_destroyed.hyps(1), of "unlock (destroyed c s)" No_Call]
    by (intro counts_inv_destroyed [OF get_destroyed.prems(3), of _ c]) (simp_all add: ptr_defs)
next
  case (release i c s)
  show ?case
    using fuse_counts [OF release.hyps, of "drop_ptr c s"]
    by (intro counts_inv_drop [OF release.prems(3), of c]) (simp_all add: ptr_defs)
next
  case (release_destroyed i c s)
  show ?case
    using fuse_counts [OF release_destroyed.hyps(1), of "destroyed c s" No_Call]
    by (intro counts_inv_destroyed [OF release_destroyed.prems(3), of _ c]) (simp_all add: ptr_defs)
next
  case (loses_worker c s)
  then show ?case
    using counts_disconnected [of "ss_objects s" "pointers s" "destructors s" "mset (ss_destroyed s)" c]
    by (simp add: counts_inv_def pointers_def destructors_def)
next
  case (clear_one s name c rest)
  then show ?case
    by (intro counts_inv_drop [OF clear_one.prems(3), of c]) (simp_all add: pointers_def destructors_def ptr_defs)
next
  case (clear_destroyed s c)
  then show ?case
    by (intro counts_inv_destroyed [OF clear_destroyed.prems(3), of _ c])
      (simp_all add: pointers_def destructors_def ptr_defs)
next
  case (disconnected c s)
  then show ?case
    using counts_disconnected [of "ss_objects s" "pointers s" "destructors s" "mset (ss_destroyed s)" c]
    by (simp add: counts_inv_def pointers_def destructors_def)
next
  case (get_call i s client)
  show ?case by (rule counts_inv_fuse [OF get_call.prems(3) get_call.hyps(1)]) simp_all
next
  case (get_lock i client s)
  show ?case by (rule counts_inv_fuse [OF get_lock.prems(3) get_lock.hyps(1)]) simp_all
next
  case (get_absent i client s)
  show ?case by (rule counts_inv_fuse [OF get_absent.prems(3) get_absent.hyps(1)]) simp_all
next
  case (list_call i s)
  show ?case by (rule counts_inv_fuse [OF list_call.prems(3) list_call.hyps(1)]) simp_all
next
  case (list_lock i s)
  show ?case by (rule counts_inv_fuse [OF list_lock.prems(3) list_lock.hyps(1)]) simp_all
next
  case (list_done i s)
  show ?case by (rule counts_inv_fuse [OF list_done.prems(3) list_done.hyps(1)]) simp_all
qed (simp_all add: counts_inv_def pointers_def destructors_def)

lemma sreach_inv:
  assumes "sreach n s"
  shows "map_ok (ss_table s)" "counts_inv s" "lock_inv s" "close_inv s" "emplace_inv s"
proof -
  have "map_ok (ss_table s) \<and> counts_inv s \<and> lock_inv s \<and> close_inv s \<and> emplace_inv s"
    using assms
  proof induction
    case start
    have "concat (map f (replicate n No_Call)) = []" if "f No_Call = []" for f :: "fuse_thread \<Rightarrow> nat list"
      using that by (induction n) simp_all
    then have "pointers (ssys_init n) = {#}" "destructors (ssys_init n) = {#}"
      by (simp_all add: pointers_def destructors_def ssys_init_def map_empty_def)
    then show ?case
      by (simp add: counts_inv_def counts_ok_def lock_inv_def close_inv_def emplace_inv_def)
        (simp add: ssys_init_def map_empty_def)
  next
    case (step s s')
    then show ?case
      using table_ok_step counts_inv_step lock_inv_step close_inv_step emplace_inv_step by blast
  qed
  then show "map_ok (ss_table s)" "counts_inv s" "lock_inv s" "close_inv s" "emplace_inv s" by blast+
qed

section \<open>What follows\<close>

lemma reached_alive:
  assumes "sreach n s" "c \<in># pointers s"
  shows "c < length (ss_objects s) \<and> sc_life (ss_objects s ! c) = Alive
    \<and> sc_uses (ss_objects s ! c) = count (pointers s) c"
  using counts_alive [OF _ assms(2)] sreach_inv(2) [OF assms(1)] unfolding counts_inv_def by blast

lemma holder_pointer: "at_fuse i (Holds c) s \<Longrightarrow> c \<in># pointers s"
  by (force simp: pointers_def at_fuse_def in_set_conv_nth)

lemma destroyed_once:
  assumes "sreach n s"
  shows "distinct (ss_destroyed s)"
    and "c < length (ss_objects s) \<Longrightarrow> sc_life (ss_objects s ! c) = Dead \<longleftrightarrow> c \<in> set (ss_destroyed s)"
    and "c \<in> set (ss_destroyed s) \<Longrightarrow> c < length (ss_objects s)"
proof -
  have ok: "counts_ok (ss_objects s) (pointers s) (destructors s) (mset (ss_destroyed s))"
    using sreach_inv(2) [OF assms] by (simp add: counts_inv_def)
  have life: "life_ok (sc_life (ss_objects s ! c)) (count (pointers s) c) (count (destructors s) c)
      (count (mset (ss_destroyed s)) c)" if "c < length (ss_objects s)" for c
    using counts_at(1) [OF ok that] by simp
  show less: "c < length (ss_objects s)" if "c \<in> set (ss_destroyed s)" for c
    using counts_at(2) [OF ok, of c] that by (force simp: count_eq_zero_iff)
  have "count (mset (ss_destroyed s)) c = 1" if "c \<in> set (ss_destroyed s)" for c
    using life [OF less [OF that]] that by (cases "sc_life (ss_objects s ! c)") (simp_all add: count_eq_zero_iff)
  then show "distinct (ss_destroyed s)"
    unfolding distinct_count_atmost_1 by (simp add: count_eq_zero_iff)
  show "sc_life (ss_objects s ! c) = Dead \<longleftrightarrow> c \<in> set (ss_destroyed s)" if "c < length (ss_objects s)"
    using life [OF that] count_eq_zero_iff [of "mset (ss_destroyed s)" c]
    by (cases "sc_life (ss_objects s ! c)") simp_all
qed

lemma all_destroyed:
  assumes "sreach n s" "ss_main s = Gone" "c < length (ss_objects s)"
  shows "c \<in> set (ss_destroyed s)"
proof -
  have close: "ss_table s = []" "ss_acceptor s = Accept_Done" "\<forall>t \<in> set (ss_threads s). t = No_Call"
    using sreach_inv(4) [OF assms(1)] assms(2) by (auto simp: close_inv_def in_set_conv_nth)
  have "concat (map f (ss_threads s)) = []" if "f No_Call = []" for f :: "fuse_thread \<Rightarrow> nat list"
    using close(3) that by auto
  then have "pointers s = {#}" "destructors s = {#}"
    using close(1,2) assms(2) by (simp_all add: pointers_def destructors_def)
  moreover have "life_ok (sc_life (ss_objects s ! c)) (count (pointers s) c) (count (destructors s) c)
      (count (mset (ss_destroyed s)) c)"
    using sreach_inv(2) [OF assms(1)] assms(3) by (auto simp: counts_inv_def dest: counts_at(1))
  ultimately have "sc_life (ss_objects s ! c) = Dead" by (cases "sc_life (ss_objects s ! c)") simp_all
  with destroyed_once(2) [OF assms(1,3)] show ?thesis by simp
qed

text \<open>
  While a destructor runs under the lock, whoever waits for the lock waits for it; and a destructor that has
  its worker to disconnect waits for that.
\<close>

fun waits_lock :: "fuse_thread \<Rightarrow> bool" where
  "waits_lock (Get_Lock client) = True"
| "waits_lock List_Lock = True"
| "waits_lock _ = False"

lemma waits_for_lock:
  "sstep a s s' \<Longrightarrow> ss_owner s = Some Acceptor_Thread \<Longrightarrow> at_fuse i t s \<Longrightarrow> waits_lock t \<Longrightarrow> at_fuse i t s'"
  by (induction rule: sstep.induct) (auto simp: at_fuse_def nth_list_update ptr_defs)

lemma waits_for_reply:
  "sstep a s s' \<Longrightarrow> ss_acceptor s = Accept_Destroy name c \<Longrightarrow> sc_connected (ss_objects s ! c) \<Longrightarrow>
   ss_acceptor s' = Accept_Destroy name c"
  by (induction rule: sstep.induct) (simp_all add: ptr_defs)

lemma destructor_running:
  assumes "sreach n s" "ss_acceptor s = Accept_Destroy name c"
  shows "sc_life (ss_objects s ! c) = Dying \<and> ss_owner s = Some Acceptor_Thread"
proof -
  have "c \<in># destructors s" using assms(2) by (simp add: destructors_def)
  then have "sc_life (ss_objects s ! c) = Dying"
    using sreach_inv(2) [OF assms(1)] by (auto simp: counts_inv_def dest: counts_dying(5))
  then show ?thesis using sreach_inv(3) [OF assms(1)] assms(2) by (simp add: lock_inv_def)
qed

section \<open>The end of the server\<close>

fun acceptor_work :: "acceptor \<Rightarrow> nat" where
  "acceptor_work Accept_Done = 0"
| "acceptor_work Accept_Test = 1"
| "acceptor_work (Accept_Emplace name) = 6"
| "acceptor_work (Accept_Destroy name c) = 7"
| "acceptor_work (Accept_Erase name) = 8"
| "acceptor_work (Accept_Lock name) = 9"
| "acceptor_work Accept_Wait = 10"

fun main_work :: "main_thread \<Rightarrow> nat" where
  "main_work Gone = 0"
| "main_work Clearing = 2"
| "main_work (Clear_Destroy c) = 3"
| "main_work Joining = 5"
| "main_work Closing = 6"
| "main_work Serving = 7"

definition shutdown_work :: "ssys \<Rightarrow> nat" where
  "shutdown_work s = 4 * length (ss_table s) + acceptor_work (ss_acceptor s) + main_work (ss_main s)"

lemma length_map_emplace: "length (map_emplace k v m) \<le> Suc (length m)"
  by (induction k v m rule: map_emplace.induct) auto

lemma shutdown_step:
  assumes "sstep a s s'" "close_inv s" "ss_main s \<noteq> Serving"
  shows "shutdown_work s' < shutdown_work s \<or> (\<exists>c. s' = change c (\<lambda>x. x\<lparr>sc_connected := False\<rparr>) s)"
  using assms
proof (induction rule: sstep.induct)
  case (erase_old s name c)
  have "length (map_erase name (ss_table s)) < length (ss_table s)"
    by (rule length_map_erase [OF erase_old.hyps(2)])
  with erase_old show ?case by (simp add: shutdown_work_def ptr_defs)
next
  case (emplace s name)
  with length_map_emplace [of name "length (ss_objects s)" "ss_table s"] show ?case
    by (simp add: shutdown_work_def emplace_new_def)
qed (auto simp: shutdown_work_def close_inv_def at_fuse_def ptr_defs)

text \<open>What the acceptor does by itself; a destructor of its may wait for the reply of its worker.\<close>

lemma acceptor_continues:
  assumes "ss_owner s = None \<or> acceptor_locks (ss_acceptor s)" "\<not> ss_listening s" "ss_acceptor s \<noteq> Accept_Done"
    and "\<forall>c. c \<in># destructors s \<longrightarrow> \<not> sc_connected (ss_objects s ! c)"
  shows "\<exists>s'. sstep By_Itself s s' \<and> ss_acceptor s' \<noteq> ss_acceptor s"
proof (cases "ss_acceptor s")
  case Accept_Test
  show ?thesis by (intro exI conjI, rule accept_test [OF Accept_Test]) (simp add: Accept_Test)
next
  case Accept_Wait
  show ?thesis by (intro exI conjI, rule accept_closed [OF Accept_Wait assms(2)]) (simp add: Accept_Wait)
next
  case (Accept_Lock name)
  with assms(1) have "ss_owner s = None" by simp
  from accept_lock [OF Accept_Lock this] show ?thesis by (intro exI conjI) (assumption, simp add: Accept_Lock)
next
  case (Accept_Erase name)
  show ?thesis
  proof (cases "map_find name (ss_table s)")
    case None
    show ?thesis by (intro exI conjI, rule erase_none [OF Accept_Erase None]) (simp add: Accept_Erase)
  next
    case (Some c)
    show ?thesis by (intro exI conjI, rule erase_old [OF Accept_Erase Some]) (simp add: Accept_Erase)
  qed
next
  case (Accept_Destroy name c)
  then have "c \<in># destructors s" by (simp add: destructors_def)
  with assms(4) have "\<not> sc_connected (ss_objects s ! c)" by blast
  from erase_destroyed [OF Accept_Destroy this] show ?thesis by (intro exI conjI) (assumption, simp add: Accept_Destroy)
next
  case (Accept_Emplace name)
  show ?thesis by (intro exI conjI, rule emplace [OF Accept_Emplace]) (simp add: Accept_Emplace)
qed (use assms(3) in simp)

lemma clearing_continues:
  assumes "ss_main s = Clearing"
  shows "\<exists>s'. sstep By_Itself s s' \<and> (ss_main s' \<noteq> Clearing \<or> ss_table s' \<noteq> ss_table s)"
proof (cases "ss_table s")
  case Nil
  show ?thesis by (intro exI conjI, rule cleared [OF assms Nil]) simp
next
  case (Cons e rest)
  obtain name c where "e = (name, c)" by (rule prod.exhaust)
  with Cons have "ss_table s = (name, c) # rest" by simp
  from clear_one [OF assms this] this show ?thesis
    by (intro exI conjI) (assumption, simp add: drop_ptr_def)
qed

lemma shutdown_continues:
  assumes "lock_inv s" "close_inv s" "ss_main s \<noteq> Serving" "ss_main s \<noteq> Gone"
    and reply: "\<forall>c. c \<in># destructors s \<longrightarrow> \<not> sc_connected (ss_objects s ! c)"
  shows "\<exists>s'. sstep By_Itself s s' \<and> shutdown_work s' < shutdown_work s"
proof -
  have quiet: "\<forall>i < length (ss_threads s). ss_threads s ! i = No_Call"
    using assms(2,3) by (simp add: close_inv_def)
  have unlocked: "ss_owner s = None \<or> acceptor_locks (ss_acceptor s)"
    using assms(1) quiet by (cases "ss_owner s"; cases "the (ss_owner s)") (auto simp: lock_inv_def)
  have "\<exists>s'. sstep By_Itself s s' \<and> (ss_acceptor s' \<noteq> ss_acceptor s \<or> ss_main s' \<noteq> ss_main s \<or> ss_table s' \<noteq> ss_table s)"
  proof (cases "ss_main s")
    case Closing
    show ?thesis by (intro exI conjI, rule close_socket [OF Closing]) (simp add: Closing)
  next
    case Joining
    with assms(2) have closed: "\<not> ss_listening s" by (simp add: close_inv_def)
    show ?thesis
    proof (cases "ss_acceptor s = Accept_Done")
      case True
      show ?thesis by (intro exI conjI, rule joined [OF Joining True]) (simp add: Joining)
    next
      case False
      from acceptor_continues [OF unlocked closed False reply] show ?thesis by blast
    qed
  next
    case Clearing
    from clearing_continues [OF this] Clearing show ?thesis by auto
  next
    case (Clear_Destroy c)
    then have "c \<in># destructors s" by (simp add: destructors_def)
    with reply have "\<not> sc_connected (ss_objects s ! c)" by blast
    from clear_destroyed [OF Clear_Destroy this] Clear_Destroy show ?thesis by (intro exI conjI) (assumption, simp)
  qed (use assms(3,4) in simp_all)
  then obtain s' where "sstep By_Itself s s'"
    and moved: "ss_acceptor s' \<noteq> ss_acceptor s \<or> ss_main s' \<noteq> ss_main s \<or> ss_table s' \<noteq> ss_table s" by blast
  moreover have "s' \<noteq> change c f s" for c f using moved by auto
  ultimately show ?thesis using shutdown_step assms(2,3) by blast
qed

section \<open>An example\<close>

text \<open>A server with one callback thread, on which a worker has connected.\<close>

definition small_server ::
    "(string, nat) std_map \<Rightarrow> shared_commander list \<Rightarrow> lock_owner option \<Rightarrow> acceptor \<Rightarrow> fuse_thread \<Rightarrow> ssys" where
  "small_server table objects owner acceptor thread = \<lparr>ss_stop = False, ss_listening = True, ss_table = table, ss_objects = objects,
     ss_owner = owner, ss_acceptor = acceptor, ss_threads = [thread], ss_main = Serving, ss_destroyed = []\<rparr>"

abbreviation new_object :: shared_commander where
  "new_object \<equiv> \<lparr>sc_uses = 1, sc_connected = True, sc_life = Alive\<rparr>"

lemma sreach_step: "sreach n s \<Longrightarrow> sstep a s s' \<Longrightarrow> s' = t \<Longrightarrow> sreach n t"
  using sreach.step by blast

lemmas small_defs = small_server_def unlock_def emplace_new_def at_fuse_def fuse_to_def ptr_defs change_def map_erase_def

lemma connected_reached: "sreach 1 (small_server [(''h'', 0)] [new_object] None Accept_Test No_Call)"
proof -
  have "sreach 1 (small_server [] [] None Accept_Test No_Call)"
    using sreach.start [of 1] by (simp add: small_server_def ssys_init_def map_empty_def)
  then have "sreach 1 (small_server [] [] None Accept_Wait No_Call)"
    by (rule sreach_step) (rule accept_test, simp_all add: small_defs)
  then have "sreach 1 (small_server [] [] None (Accept_Lock ''h'') No_Call)"
    by (rule sreach_step) (rule accepts [where name = "''h''"], simp_all add: small_defs)
  then have "sreach 1 (small_server [] [] (Some Acceptor_Thread) (Accept_Erase ''h'') No_Call)"
    by (rule sreach_step) (rule accept_lock, simp_all add: small_defs)
  then have "sreach 1 (small_server [] [] (Some Acceptor_Thread) (Accept_Emplace ''h'') No_Call)"
    by (rule sreach_step) (rule erase_none, simp_all add: small_defs)
  then show ?thesis
    by (rule sreach_step) (rule emplace, simp_all add: small_defs)
qed

text \<open>A callback gets the commander.\<close>

lemma calling_reached:
  "sreach 1 (small_server [(''h'', 0)] [new_object\<lparr>sc_uses := 2\<rparr>] None Accept_Test (Holds 0))"
proof -
  have "sreach 1 (small_server [(''h'', 0)] [new_object] None Accept_Test (Get_Lock ''h''))"
    using connected_reached
    by (rule sreach_step) (rule get_call [where i = 0 and client = "''h''"], simp_all add: small_defs)
  then have "sreach 1 (small_server [(''h'', 0)] [new_object] (Some (Fuse_Thread 0)) Accept_Test (Get_Find ''h''))"
    by (rule sreach_step) (rule get_lock [where i = 0 and client = "''h''"], simp_all add: small_defs)
  then show ?thesis
    by (rule sreach_step) (rule get_found [where i = 0 and client = "''h''" and c = 0], simp_all add: small_defs)
qed

text \<open>The worker connects again while a callback asks for it: the old commander is destroyed under the lock.\<close>

lemma reconnecting_reached:
  "sreach 1 (small_server [] [new_object\<lparr>sc_uses := 0, sc_life := Dying\<rparr>] (Some Acceptor_Thread)
     (Accept_Destroy ''h'' 0) (Get_Lock ''h''))"
proof -
  have "sreach 1 (small_server [(''h'', 0)] [new_object] None Accept_Wait No_Call)"
    using connected_reached by (rule sreach_step) (rule accept_test, simp_all add: small_defs)
  then have "sreach 1 (small_server [(''h'', 0)] [new_object] None (Accept_Lock ''h'') No_Call)"
    by (rule sreach_step) (rule accepts [where name = "''h''"], simp_all add: small_defs)
  then have "sreach 1 (small_server [(''h'', 0)] [new_object] None (Accept_Lock ''h'') (Get_Lock ''h''))"
    by (rule sreach_step) (rule get_call [where i = 0 and client = "''h''"], simp_all add: small_defs)
  then have "sreach 1 (small_server [(''h'', 0)] [new_object] (Some Acceptor_Thread) (Accept_Erase ''h'') (Get_Lock ''h''))"
    by (rule sreach_step) (rule accept_lock, simp_all add: small_defs)
  then show ?thesis
    by (rule sreach_step) (rule erase_old [where name = "''h''" and c = 0], simp_all add: small_defs)
qed

lemma disconnected_reached:
  "sreach 1 (small_server [] [new_object\<lparr>sc_uses := 0, sc_connected := False, sc_life := Dying\<rparr>]
     (Some Acceptor_Thread) (Accept_Destroy ''h'' 0) (Get_Lock ''h''))"
  using reconnecting_reached by (rule sreach_step) (rule disconnected [where c = 0], simp_all add: small_defs)

text \<open>The server closes with the worker connected and the acceptor in \<open>accept\<close>.\<close>

lemma closing_reached:
  "sreach 1 (small_server [(''h'', 0)] [new_object] None Accept_Wait No_Call
     \<lparr>ss_stop := True, ss_listening := False, ss_main := Joining\<rparr>)"
proof -
  have "sreach 1 (small_server [(''h'', 0)] [new_object] None Accept_Wait No_Call)"
    using connected_reached by (rule sreach_step) (rule accept_test, simp_all add: small_defs)
  then have "sreach 1 (small_server [(''h'', 0)] [new_object] None Accept_Wait No_Call
      \<lparr>ss_stop := True, ss_main := Closing\<rparr>)"
    by (rule sreach_step) (rule close, simp_all add: small_defs)
  then show ?thesis by (rule sreach_step) (rule close_socket, simp_all add: small_defs)
qed

section \<open>Properties\<close>

text \<open>
  C8. No commander is used after its destructor: however the acceptor, the callbacks and the main thread
  interleave, a commander that a callback holds or that is in the table is alive, and its use count is the
  number of pointers to it.
\<close>

theorem commander_in_use_is_alive:
  assumes "sreach n s" "at_fuse i (Holds c) s \<or> map_find name (ss_table s) = Some c"
  shows "c < length (ss_objects s) \<and> sc_life (ss_objects s ! c) = Alive
    \<and> sc_uses (ss_objects s ! c) = count (pointers s) c \<and> c \<notin> set (ss_destroyed s)"
proof -
  have c: "c \<in># pointers s" using assms(2) holder_pointer table_pointer by blast
  from reached_alive [OF assms(1) c] destroyed_once(2) [OF assms(1), of c] show ?thesis by auto
qed

theorem commander_in_use_is_alive_witness:
  "\<exists>s. sreach 1 s \<and> at_fuse 0 (Holds 0) s \<and> sc_life (ss_objects s ! 0) = Alive \<and> sc_uses (ss_objects s ! 0) = 2"
  by (rule exI, rule conjI, rule calling_reached)
    (use commander_in_use_is_alive [OF calling_reached, of 0 0 "''h''"] in \<open>simp add: small_defs\<close>)

text \<open>
  C9. Every commander is destroyed at most once, in every reachable state, and exactly the destroyed ones are
  dead; when the server is gone each commander it ever made has been destroyed.
\<close>

theorem commanders_destroyed_once:
  assumes "sreach n s"
  shows "distinct (ss_destroyed s)
    \<and> (\<forall>c < length (ss_objects s). sc_life (ss_objects s ! c) = Dead \<longleftrightarrow> c \<in> set (ss_destroyed s))
    \<and> (ss_main s = Gone \<longrightarrow> set (ss_destroyed s) = {..<length (ss_objects s)})"
  using destroyed_once [OF assms] all_destroyed [OF assms] by blast

theorem commanders_destroyed_once_witness:
  "\<exists>s. sreach 1 s \<and> ss_objects s = [new_object\<lparr>sc_uses := 0, sc_connected := False, sc_life := Dead\<rparr>]
     \<and> distinct (ss_destroyed s) \<and> set (ss_destroyed s) = {0}"
proof -
  have "sreach 1 (small_server [] [new_object\<lparr>sc_uses := 0, sc_connected := False, sc_life := Dead\<rparr>]
      (Some Acceptor_Thread) (Accept_Emplace ''h'') (Get_Lock ''h'')\<lparr>ss_destroyed := [0]\<rparr>)"
    using disconnected_reached by (rule sreach_step) (rule erase_destroyed [where name = "''h''" and c = 0], simp_all add: small_defs)
  from commanders_destroyed_once [OF this] this show ?thesis by (intro exI conjI) (assumption, simp_all add: small_defs)
qed

text \<open>
  C10. Destroying the server ends. Once it closes, every step lowers a number or only tells that a connection is
  over, and until the server is gone a thread lowers it by itself: nobody has to connect and no call has to
  fail, since \<open>close\<close> closes the socket in which the acceptor is blocked. What it may have to wait for is a
  destructor of a commander whose worker has not replied.
\<close>

theorem server_shutdown_ends:
  assumes "sreach n s" "ss_main s \<noteq> Serving"
  shows "(\<forall>a s'. sstep a s s' \<longrightarrow>
      shutdown_work s' < shutdown_work s \<or> (\<exists>c. s' = change c (\<lambda>x. x\<lparr>sc_connected := False\<rparr>) s))
    \<and> (ss_main s = Gone \<or> (\<exists>s'. sstep By_Itself s s' \<and> shutdown_work s' < shutdown_work s)
       \<or> (\<exists>c. c \<in># destructors s \<and> sc_connected (ss_objects s ! c)))"
  using shutdown_step [OF _ sreach_inv(4) [OF assms(1)] assms(2)]
    shutdown_continues [OF sreach_inv(3,4) [OF assms(1)] assms(2)] by blast

theorem server_shutdown_ends_witness:
  "\<exists>s s'. sreach 1 s \<and> ss_main s = Joining \<and> ss_acceptor s = Accept_Wait \<and> sstep By_Itself s s'
     \<and> shutdown_work s' < shutdown_work s"
proof -
  let ?s = "small_server [(''h'', 0)] [new_object] None Accept_Wait No_Call
    \<lparr>ss_stop := True, ss_listening := False, ss_main := Joining\<rparr>"
  have "\<exists>s'. sstep By_Itself ?s s' \<and> shutdown_work s' < shutdown_work ?s"
    using server_shutdown_ends [OF closing_reached] by (simp add: destructors_def small_server_def)
  moreover have "ss_main ?s = Joining" "ss_acceptor ?s = Accept_Wait" by (simp_all add: small_server_def)
  ultimately show ?thesis using closing_reached by blast
qed

text \<open>
  C11. When a host connects again while nobody uses its commander, the acceptor runs the destructor of that
  commander with the lock of the table: no step lets a callback that waits for the lock go on, whether it
  asks for a client or lists them, and as long as the worker is connected and has not replied to the
  request to disconnect, no step ends the destructor.
\<close>

theorem lookups_wait_for_destructor:
  assumes "sreach n s" "ss_acceptor s = Accept_Destroy name c"
  shows "sc_life (ss_objects s ! c) = Dying
    \<and> (\<forall>a s' i t. sstep a s s' \<and> at_fuse i t s \<and> waits_lock t \<longrightarrow> at_fuse i t s')
    \<and> (\<forall>a s'. sstep a s s' \<and> sc_connected (ss_objects s ! c) \<longrightarrow> ss_acceptor s' = Accept_Destroy name c)"
  using destructor_running [OF assms(1,2)] waits_for_lock waits_for_reply [OF _ assms(2)] by blast

theorem lookups_wait_for_destructor_witness:
  "\<exists>s. sreach 1 s \<and> (\<forall>a s'. sstep a s s' \<longrightarrow> at_fuse 0 (Get_Lock ''h'') s' \<and> ss_acceptor s' = Accept_Destroy ''h'' 0)"
proof -
  let ?s = "small_server [] [new_object\<lparr>sc_uses := 0, sc_life := Dying\<rparr>] (Some Acceptor_Thread)
     (Accept_Destroy ''h'' 0) (Get_Lock ''h'')"
  have "at_fuse 0 (Get_Lock ''h'') ?s" "sc_connected (ss_objects ?s ! 0)" "ss_acceptor ?s = Accept_Destroy ''h'' 0"
    "waits_lock (Get_Lock ''h'')"
    by (simp_all add: small_defs)
  with lookups_wait_for_destructor [OF reconnecting_reached] have
    "at_fuse 0 (Get_Lock ''h'') s' \<and> ss_acceptor s' = Accept_Destroy ''h'' 0" if "sstep a ?s s'" for a s'
    using that by blast
  with reconnecting_reached show ?thesis by blast
qed

end
