(* ===== verification/Commander_System.thy ===== *)
theory Commander_System
  imports Commander
begin

text \<open>
  \<open>commander/Commander\<close> with all its threads: any number of callers of \<open>_send_command\<close> and of
  \<open>disconnect\<close>, and the thread of \<open>_read_responses\<close>. A step is what a thread does in one critical
  section of \<open>_promises_mx\<close>, in one access to an atomic variable, or in one call of the transport.
  The transport delivers any message and fails at any time. \<open>cs_ids\<close> and \<open>cs_hung_up\<close> record the
  history (the id under which each future was registered, whether a \<open>disconnect\<close> has returned); no
  step reads them.
\<close>

text \<open>
  A caller: outside; with its command id, before the critical section; registered; sent and waiting
  for its future; done with an outcome. The flag tells \<open>disconnect\<close> from the other commands.
\<close>

datatype caller =
    Idle
  | Has_Id u32 bool
  | Sending u32 nat bool
  | Waiting u32 nat bool
  | Back u32 outcome bool

text \<open>
  The reader: at the loop test, in the \<open>try\<close> block, in the \<open>catch\<close> block before and after
  \<open>_connected\<close> is cleared, out of the loop, ended by an exception in the \<open>catch\<close> block.
\<close>

datatype reader = Testing | Reading | Caught exn | Failing exn | Stopped | Crashed

record csys =
  cs_cm :: commander
  cs_reader :: reader
  cs_caller :: "nat \<Rightarrow> caller"
  cs_ids :: "u32 list"
  cs_hung_up :: bool

definition csys_init :: csys where
  "csys_init = \<lparr>cs_cm = new_commander, cs_reader = Testing, cs_caller = (\<lambda>_. Idle), cs_ids = [],
     cs_hung_up = False\<rparr>"

definition caller_to :: "nat \<Rightarrow> caller \<Rightarrow> csys \<Rightarrow> csys" where
  "caller_to t p s = s\<lparr>cs_caller := (cs_caller s)(t := p)\<rparr>"

definition reader_to :: "reader \<Rightarrow> csys \<Rightarrow> csys" where
  "reader_to p s = s\<lparr>cs_reader := p\<rparr>"

definition with_cm :: "commander \<Rightarrow> csys \<Rightarrow> csys" where
  "with_cm cm s = s\<lparr>cs_cm := cm\<rparr>"

inductive cstep :: "csys \<Rightarrow> csys \<Rightarrow> bool" where
  call: "cs_caller s t = Idle \<Longrightarrow> closing \<longrightarrow> cm_connected (cs_cm s) \<Longrightarrow>
    take_command_id (cs_cm s) = (ident, cm) \<Longrightarrow>
    cstep s (caller_to t (Has_Id ident closing) (with_cm cm s))"
| refused: "cs_caller s t = Has_Id ident closing \<Longrightarrow> register_promise ident (cs_cm s) = (Inl e, cm) \<Longrightarrow>
    cstep s (caller_to t (Back ident (Inl e) closing) (with_cm cm s))"
| registered: "cs_caller s t = Has_Id ident closing \<Longrightarrow>
    register_promise ident (cs_cm s) = (Inr k, cm) \<Longrightarrow>
    cstep s (caller_to t (Sending ident k closing) (with_cm cm s\<lparr>cs_ids := cs_ids s @ [ident]\<rparr>))"
| sent: "cs_caller s t = Sending ident k closing \<Longrightarrow> cstep s (caller_to t (Waiting ident k closing) s)"
| send_fails: "cs_caller s t = Sending ident k closing \<Longrightarrow>
    cstep s (caller_to t (Back ident (Inl e) closing) s)"
| ready: "cs_caller s t = Waiting ident k closing \<Longrightarrow> cm_futures (cs_cm s) ! k = Some r \<Longrightarrow>
    cstep s (caller_to t (Back ident r closing) s)"
| return: "cs_caller s t = Back ident r False \<Longrightarrow> cstep s (caller_to t Idle s)"
| return_disconnect: "cs_caller s t = Back ident r True \<Longrightarrow>
    cstep s (caller_to t Idle (with_cm (hang_up (cs_cm s)) s\<lparr>cs_hung_up := True\<rparr>))"
| reader_go: "cs_reader s = Testing \<Longrightarrow> cm_connected (cs_cm s) \<Longrightarrow> cstep s (reader_to Reading s)"
| reader_stop: "cs_reader s = Testing \<Longrightarrow> \<not> cm_connected (cs_cm s) \<Longrightarrow> cstep s (reader_to Stopped s)"
| response: "cs_reader s = Reading \<Longrightarrow> on_response m (cs_cm s) = (Inr (), cm) \<Longrightarrow>
    cstep s (reader_to Testing (with_cm cm s))"
| response_throws: "cs_reader s = Reading \<Longrightarrow> on_response m (cs_cm s) = (Inl e, cm) \<Longrightarrow>
    cstep s (reader_to (Caught e) (with_cm cm s))"
| read_throws: "cs_reader s = Reading \<Longrightarrow> cstep s (reader_to (Caught e) s)"
| hang_up: "cs_reader s = Caught e \<Longrightarrow>
    cstep s (reader_to (Failing e) (with_cm (hang_up (cs_cm s)) s))"
| fail_all: "cs_reader s = Failing e \<Longrightarrow> fail_all e (cs_cm s) = (Inr (), cm) \<Longrightarrow>
    cstep s (reader_to Testing (with_cm cm s))"
| terminate: "cs_reader s = Failing e \<Longrightarrow> fail_all e (cs_cm s) = (Inl x, cm) \<Longrightarrow>
    cstep s (reader_to Crashed s)"

inductive creach :: "csys \<Rightarrow> bool" where
  start: "creach csys_init"
| step: "creach s \<Longrightarrow> cstep s s' \<Longrightarrow> creach s'"

lemmas csys_simps = caller_to_def reader_to_def with_cm_def

lemma csys_fields [simp]:
  "cs_cm (caller_to t p s) = cs_cm s" "cs_cm (reader_to q s) = cs_cm s" "cs_cm (with_cm cm s) = cm"
  "cs_reader (caller_to t p s) = cs_reader s" "cs_reader (reader_to q s) = q"
  "cs_reader (with_cm cm s) = cs_reader s"
  "cs_caller (caller_to t p s) = (cs_caller s)(t := p)" "cs_caller (reader_to q s) = cs_caller s"
  "cs_caller (with_cm cm s) = cs_caller s"
  "cs_ids (caller_to t p s) = cs_ids s" "cs_ids (reader_to q s) = cs_ids s"
  "cs_ids (with_cm cm s) = cs_ids s"
  "cs_hung_up (caller_to t p s) = cs_hung_up s" "cs_hung_up (reader_to q s) = cs_hung_up s"
  "cs_hung_up (with_cm cm s) = cs_hung_up s"
  by (simp_all add: csys_simps)

section \<open>The invariant\<close>

text \<open>The reader may still satisfy promises from the table.\<close>

definition serving :: "csys \<Rightarrow> bool" where
  "serving s \<longleftrightarrow> cm_connected (cs_cm s) \<or>
     (case cs_reader s of Reading \<Rightarrow> True | Caught e \<Rightarrow> True | Failing e \<Rightarrow> True | _ \<Rightarrow> False)"

definition all_ready :: "commander \<Rightarrow> bool" where
  "all_ready cm \<longleftrightarrow> (\<forall>k < length (cm_futures cm). cm_futures cm ! k \<noteq> None)"

definition table_inv :: "csys \<Rightarrow> bool" where
  "table_inv s \<longleftrightarrow> promises_ok (cs_cm s) \<and> unset_entered (cs_cm s)
     \<and> (serving s \<longrightarrow> entries_unset (cs_cm s))"

definition id_inv :: "csys \<Rightarrow> bool" where
  "id_inv s \<longleftrightarrow> length (cs_ids s) = length (cm_futures (cs_cm s))
     \<and> (\<forall>i k. map_find i (cm_promises (cs_cm s)) = Some k \<longrightarrow> cs_ids s ! k = i)
     \<and> (\<forall>k < length (cs_ids s). \<forall>m. cm_futures (cs_cm s) ! k = Some (Inr m) \<longrightarrow>
          msg_id m = cs_ids s ! k \<and> msg_type m = worker_code CommandResult)"

fun caller_ok :: "csys \<Rightarrow> caller \<Rightarrow> bool" where
  "caller_ok s (Sending ident k closing) = (k < length (cs_ids s) \<and> cs_ids s ! k = ident)"
| "caller_ok s (Waiting ident k closing) = (k < length (cs_ids s) \<and> cs_ids s ! k = ident)"
| "caller_ok s (Back ident (Inr m) closing) =
     (msg_id m = ident \<and> msg_type m = worker_code CommandResult)"
| "caller_ok s _ = True"

definition caller_inv :: "csys \<Rightarrow> bool" where
  "caller_inv s \<longleftrightarrow> (\<forall>t. caller_ok s (cs_caller s t))"

definition reader_inv :: "csys \<Rightarrow> bool" where
  "reader_inv s \<longleftrightarrow> cs_reader s \<noteq> Crashed
     \<and> (cs_reader s = Stopped \<longrightarrow> \<not> cm_connected (cs_cm s))
     \<and> (\<forall>e. cs_reader s = Failing e \<longrightarrow> \<not> cm_connected (cs_cm s))
     \<and> (\<not> cm_connected (cs_cm s) \<longrightarrow>
          cs_hung_up s \<or> (\<exists>e. cs_reader s = Failing e)
          \<or> (cs_reader s = Testing \<or> cs_reader s = Stopped) \<and> all_ready (cs_cm s))"

definition csys_inv :: "csys \<Rightarrow> bool" where
  "csys_inv s \<longleftrightarrow> table_inv s \<and> id_inv s \<and> caller_inv s \<and> reader_inv s"

section \<open>Every step keeps it\<close>

lemma register_refused:
  "register_promise ident cm = (Inl e, cm') \<Longrightarrow> cm' = cm \<and> \<not> cm_connected cm"
  by (auto simp: register_promise_def Let_def split: if_splits)

lemma register_accepted:
  "register_promise ident cm = (Inr k, cm') \<Longrightarrow> cm_connected cm"
  by (auto simp: register_promise_def split: if_splits)

lemma on_response_throws: "on_response m cm = (Inl e, cm') \<Longrightarrow> cm' = cm"
  by (auto simp: on_response_def split: sum.splits)

lemma take_command_id_simps [simp]:
  "take_command_id cm = (ident, cm') \<longleftrightarrow>
     ident = cm_next_command_id cm \<and> cm' = cm\<lparr>cm_next_command_id := cm_next_command_id cm + 1\<rparr>"
  by (auto simp: take_command_id_def)

text \<open>What a delivered response does, and what failing every entry does, as facts on the tables.\<close>

lemma response_facts:
  assumes "promises_ok cm" "entries_unset cm" "on_response m cm = (Inr (), cm')"
  shows "\<exists>k. map_find (msg_id m) (cm_promises cm) = Some k \<and> k < length (cm_futures cm)
    \<and> cm' = cm\<lparr>cm_futures := (cm_futures cm)[k := Some (response_outcome m)],
         cm_promises := map_erase (msg_id m) (cm_promises cm)\<rparr>"
  using assms by (cases rule: on_response_cases [of cm m]) auto

lemma fail_facts:
  assumes "promises_ok cm" "entries_unset cm" "fail_all e cm = (r, cm')"
  shows "r = Inr () \<and> cm_promises cm' = cm_promises cm \<and> cm_connected cm' = cm_connected cm
    \<and> length (cm_futures cm') = length (cm_futures cm)
    \<and> (\<forall>j. cm_futures cm' ! j =
         (if \<exists>i. map_find i (cm_promises cm) = Some j then Some (Inl e) else cm_futures cm ! j))"
proof -
  obtain fs where "fail_all e cm = (Inr (), cm\<lparr>cm_futures := fs\<rparr>)" "length fs = length (cm_futures cm)"
    "\<forall>j. fs ! j = (if \<exists>i. map_find i (cm_promises cm) = Some j then Some (Inl e) else cm_futures cm ! j)"
    by (rule fail_all_result [OF assms(1,2), of e])
  with assms(3) show ?thesis by auto
qed

lemma serving_simps [simp]:
  "serving (caller_to t p s) = serving s"
  "serving (reader_to q s) \<longleftrightarrow> cm_connected (cs_cm s) \<or>
     (case q of Reading \<Rightarrow> True | Caught e \<Rightarrow> True | Failing e \<Rightarrow> True | _ \<Rightarrow> False)"
  "serving (s\<lparr>cs_ids := ids\<rparr>) = serving s"
  "serving (s\<lparr>cs_hung_up := b\<rparr>) = serving s"
  by (auto simp: serving_def split: reader.splits)

lemma hang_up_fields [simp]:
  "cm_connected (hang_up cm) = False" "cm_promises (hang_up cm) = cm_promises cm"
  "cm_futures (hang_up cm) = cm_futures cm" "promises_ok (hang_up cm) = promises_ok cm"
  "entries_unset (hang_up cm) = entries_unset cm" "unset_entered (hang_up cm) = unset_entered cm"
  by (simp_all add: hang_up_def)

lemma table_inv_step: "cstep s s' \<Longrightarrow> table_inv s \<Longrightarrow> reader_inv s \<Longrightarrow> table_inv s'"
proof (induction rule: cstep.induct)
  case (registered s t ident closing k cm)
  note c = register_accepted [OF registered.hyps(2)]
  note r = register_result [OF c registered.hyps(2)]
  have "promises_ok (cs_cm s)" "unset_entered (cs_cm s)" "entries_unset (cs_cm s)"
    using registered.prems c by (auto simp: table_inv_def serving_def)
  with registered.hyps(2) c show ?case
    by (auto simp: table_inv_def intro: register_promises_ok register_unset_entered
        register_entries_unset)
next
  case (response s m cm)
  then have inv: "promises_ok (cs_cm s)" "unset_entered (cs_cm s)" "entries_unset (cs_cm s)"
    by (auto simp: table_inv_def serving_def)
  obtain k where k: "map_find (msg_id m) (cm_promises (cs_cm s)) = Some k"
    "cm = (cs_cm s)\<lparr>cm_futures := (cm_futures (cs_cm s))[k := Some (response_outcome m)],
         cm_promises := map_erase (msg_id m) (cm_promises (cs_cm s))\<rparr>"
    using response_facts [OF inv(1,3) response.hyps(2)] by blast
  from answered_invs [OF inv(1) k] inv show ?case by (simp add: table_inv_def)
next
  case (fail_all s e cm)
  then have inv: "promises_ok (cs_cm s)" "unset_entered (cs_cm s)" "entries_unset (cs_cm s)"
    by (auto simp: table_inv_def serving_def)
  note f = fail_facts [OF inv(1,3) fail_all.hyps(2)]
  have "\<not> cm_connected (cs_cm s)" using fail_all by (simp add: reader_inv_def)
  with f inv show ?case by (auto simp: table_inv_def promises_ok_def unset_entered_def)
qed (auto simp: table_inv_def serving_def dest!: register_refused on_response_throws)

lemma id_inv_cong:
  "id_inv s \<Longrightarrow> cs_ids s' = cs_ids s \<Longrightarrow> cm_promises (cs_cm s') = cm_promises (cs_cm s) \<Longrightarrow>
   cm_futures (cs_cm s') = cm_futures (cs_cm s) \<Longrightarrow> id_inv s'"
  by (simp add: id_inv_def)

lemma id_inv_step: "cstep s s' \<Longrightarrow> table_inv s \<Longrightarrow> id_inv s \<Longrightarrow> id_inv s'"
proof (induction rule: cstep.induct)
  case (registered s t ident closing k cm)
  note r = register_result [OF register_accepted [OF registered.hyps(2)] registered.hyps(2)]
  have old: "map_find i (cm_promises (cs_cm s)) = Some j \<Longrightarrow> j < k" for i j
    using registered.prems(1) r by (auto simp: table_inv_def promises_ok_def)
  have new: "(cs_ids s @ [ident]) ! k = ident"
    using registered.prems(2) r by (metis id_inv_def nth_append_length)
  from registered.prems(2) r new show ?case
    by (auto simp: id_inv_def map_find_assign nth_append less_Suc_eq dest: old split: if_splits)
next
  case (response s m cm)
  then have inv: "promises_ok (cs_cm s)" "entries_unset (cs_cm s)"
    by (auto simp: table_inv_def serving_def)
  obtain k where k: "map_find (msg_id m) (cm_promises (cs_cm s)) = Some k"
    "k < length (cm_futures (cs_cm s))"
    "cm = (cs_cm s)\<lparr>cm_futures := (cm_futures (cs_cm s))[k := Some (response_outcome m)],
         cm_promises := map_erase (msg_id m) (cm_promises (cs_cm s))\<rparr>"
    using response_facts [OF inv response.hyps(2)] by blast
  from response.prems(2) k show ?case
    by (auto simp: id_inv_def map_find_erase nth_list_update response_outcome_def split: if_splits)
next
  case (fail_all s e cm)
  then have inv: "promises_ok (cs_cm s)" "entries_unset (cs_cm s)"
    by (auto simp: table_inv_def serving_def)
  from fail_facts [OF inv fail_all.hyps(2)] fail_all.prems(2) show ?case
    by (auto simp: id_inv_def split: if_splits)
qed (auto elim!: id_inv_cong dest!: register_refused on_response_throws)

lemma caller_ok_mono:
  "caller_ok s p \<Longrightarrow> cs_ids s' = cs_ids s @ ids \<Longrightarrow> caller_ok s' p"
  by (cases "(s, p)" rule: caller_ok.cases) (auto simp: nth_append)

lemma caller_inv_move:
  "caller_inv s \<Longrightarrow> cs_ids s' = cs_ids s @ ids \<Longrightarrow> cs_caller s' = (cs_caller s)(t := p) \<Longrightarrow>
   caller_ok s' p \<Longrightarrow> caller_inv s'"
  by (auto simp: caller_inv_def intro: caller_ok_mono)

lemma caller_inv_same:
  "caller_inv s \<Longrightarrow> cs_ids s' = cs_ids s \<Longrightarrow> cs_caller s' = cs_caller s \<Longrightarrow> caller_inv s'"
  by (auto simp: caller_inv_def intro: caller_ok_mono)

lemma caller_inv_step: "cstep s s' \<Longrightarrow> id_inv s \<Longrightarrow> caller_inv s \<Longrightarrow> caller_inv s'"
proof (induction rule: cstep.induct)
  case (registered s t ident closing k cm)
  note r = register_result [OF register_accepted [OF registered.hyps(2)] registered.hyps(2)]
  have "length (cs_ids s) = k" using r registered.prems(1) by (simp add: id_inv_def)
  then show ?case by (intro caller_inv_move [OF registered.prems(2), where ids = "[ident]"]) auto
next
  case (sent s t ident k closing)
  from sent.prems(2) have "caller_ok s (Sending ident k closing)"
    unfolding caller_inv_def by (metis sent.hyps)
  then show ?case by (intro caller_inv_move [OF sent.prems(2), where ids = "[]"]) auto
next
  case (ready s t ident k closing r)
  from ready.prems(2) have "caller_ok s (Waiting ident k closing)"
    unfolding caller_inv_def by (metis ready.hyps(1))
  with ready have "caller_ok s' (Back ident r closing)" for s'
    by (cases r) (auto simp: id_inv_def)
  then show ?case by (intro caller_inv_move [OF ready.prems(2), where ids = "[]"]) auto
qed (auto intro: caller_inv_move [where ids = "[]"] caller_inv_same)

lemma all_ready_fail:
  assumes "promises_ok cm" "entries_unset cm" "unset_entered cm" "fail_all e cm = (r, cm')"
  shows "all_ready cm'"
  using fail_facts [OF assms(1,2,4)] assms(3) by (auto simp: all_ready_def unset_entered_def)

lemma reader_inv_cong:
  "reader_inv s \<Longrightarrow> cs_reader s' = cs_reader s \<Longrightarrow>
   cm_connected (cs_cm s') = cm_connected (cs_cm s) \<Longrightarrow> cm_futures (cs_cm s') = cm_futures (cs_cm s) \<Longrightarrow>
   cs_hung_up s' = cs_hung_up s \<Longrightarrow> reader_inv s'"
  by (simp add: reader_inv_def all_ready_def)

lemma reader_inv_step: "cstep s s' \<Longrightarrow> table_inv s \<Longrightarrow> reader_inv s \<Longrightarrow> reader_inv s'"
proof (induction rule: cstep.induct)
  case (registered s t ident closing k cm)
  note c = register_accepted [OF registered.hyps(2)]
  note r = register_result [OF c registered.hyps(2)]
  from registered.prems(2) c r show ?case by (simp add: reader_inv_def)
next
  case (response s m cm)
  then have inv: "promises_ok (cs_cm s)" "entries_unset (cs_cm s)"
    by (auto simp: table_inv_def serving_def)
  from response_facts [OF inv response.hyps(2)] response show ?case by (auto simp: reader_inv_def)
next
  case (fail_all s e cm)
  then have inv: "promises_ok (cs_cm s)" "entries_unset (cs_cm s)" "unset_entered (cs_cm s)"
    by (auto simp: table_inv_def serving_def)
  from fail_facts [OF inv(1,2) fail_all.hyps(2)] all_ready_fail [OF inv fail_all.hyps(2)] fail_all
  show ?case by (auto simp: reader_inv_def)
next
  case (terminate s e x cm)
  then have inv: "promises_ok (cs_cm s)" "entries_unset (cs_cm s)"
    by (auto simp: table_inv_def serving_def)
  from fail_facts [OF inv terminate.hyps(2)] show ?case by simp
next
  case (return_disconnect s t ident r)
  then show ?case by (auto simp: reader_inv_def all_ready_def)
qed (auto simp: reader_inv_def all_ready_def dest!: register_refused on_response_throws)

lemma csys_inv_init: "csys_inv csys_init"
  by (simp add: csys_inv_def csys_init_def table_inv_def id_inv_def caller_inv_def reader_inv_def)
    (simp add: new_commander_def map_empty_def)

lemma creach_inv: "creach s \<Longrightarrow> table_inv s \<and> id_inv s \<and> caller_inv s \<and> reader_inv s"
proof (induction rule: creach.induct)
  case start
  then show ?case using csys_inv_init by (simp add: csys_inv_def)
next
  case (step s s')
  then show ?case
    by (auto intro: table_inv_step id_inv_step caller_inv_step reader_inv_step)
qed

section \<open>An outcome is final\<close>

lemma outcome_kept:
  "cstep s s' \<Longrightarrow> table_inv s \<Longrightarrow> k < length (cm_futures (cs_cm s)) \<Longrightarrow>
   cm_futures (cs_cm s) ! k = Some r \<Longrightarrow> cm_futures (cs_cm s') ! k = Some r"
proof (induction rule: cstep.induct)
  case (registered s t ident closing j cm)
  note f = register_result [OF register_accepted [OF registered.hyps(2)] registered.hyps(2)]
  from registered.prems f show ?case by (simp add: nth_append)
next
  case (response s m cm)
  then have inv: "promises_ok (cs_cm s)" "entries_unset (cs_cm s)"
    by (auto simp: table_inv_def serving_def)
  obtain j where j: "map_find (msg_id m) (cm_promises (cs_cm s)) = Some j"
    "cm = (cs_cm s)\<lparr>cm_futures := (cm_futures (cs_cm s))[j := Some (response_outcome m)],
         cm_promises := map_erase (msg_id m) (cm_promises (cs_cm s))\<rparr>"
    using response_facts [OF inv response.hyps(2)] by blast
  then have "j \<noteq> k" using inv(2) response.prems by (auto simp: entries_unset_def)
  with j response.prems show ?case by simp
next
  case (fail_all s e cm)
  then have inv: "promises_ok (cs_cm s)" "entries_unset (cs_cm s)"
    by (auto simp: table_inv_def serving_def)
  from fail_facts [OF inv fail_all.hyps(2)] inv(2) fail_all.prems show ?case
    by (auto simp: entries_unset_def)
qed (auto dest!: register_refused on_response_throws)

section \<open>Nobody is left waiting when the transport fails\<close>

lemma stopped_all_ready:
  "reader_inv s \<Longrightarrow> cs_reader s = Stopped \<Longrightarrow> \<not> cs_hung_up s \<Longrightarrow> all_ready (cs_cm s)"
  by (auto simp: reader_inv_def)

lemma waiting_released:
  assumes "caller_inv s" "id_inv s" "all_ready (cs_cm s)" "cs_caller s t = Waiting ident k closing"
  obtains r where "cm_futures (cs_cm s) ! k = Some r" "cstep s (caller_to t (Back ident r closing) s)"
proof -
  have "caller_ok s (Waiting ident k closing)" using assms(1,4) by (metis caller_inv_def)
  then have "k < length (cm_futures (cs_cm s))" using assms(2) by (simp add: id_inv_def)
  then obtain r where "cm_futures (cs_cm s) ! k = Some r" using assms(3) by (auto simp: all_ready_def)
  with cstep.ready [OF assms(4)] that show thesis by blast
qed

section \<open>A disconnect strands a pending request\<close>

text \<open>The reader is gone and the request of thread \<open>t\<close> is still open.\<close>

definition stranded :: "nat \<Rightarrow> csys \<Rightarrow> bool" where
  "stranded t s \<longleftrightarrow> cs_reader s = Stopped \<and> \<not> cm_connected (cs_cm s)
     \<and> (\<exists>ident k. cs_caller s t = Waiting ident k False \<and> k < length (cm_futures (cs_cm s))
            \<and> cm_futures (cs_cm s) ! k = None)"

lemma stranded_step: "cstep s s' \<Longrightarrow> stranded t s \<Longrightarrow> stranded t s'"
  by (induction rule: cstep.induct)
    (auto simp: stranded_def register_promise_def dest!: register_refused split: if_splits)

lemma stranded_forever: "cstep\<^sup>*\<^sup>* s s' \<Longrightarrow> stranded t s \<Longrightarrow> stranded t s'"
  by (induction rule: rtranclp_induct) (auto intro: stranded_step)

text \<open>
  Runs of two callers and the reader, one step at a time: \<open>stage\<close> is a reachable state, up to the
  parts no step of the run depends on.
\<close>

abbreviation stage :: "commander \<Rightarrow> reader \<Rightarrow> caller \<Rightarrow> caller \<Rightarrow> bool \<Rightarrow> bool" where
  "stage cm rd c0 c1 hung \<equiv> \<exists>s. creach s \<and> cs_cm s = cm \<and> cs_reader s = rd
     \<and> cs_caller s 0 = c0 \<and> cs_caller s (Suc 0) = c1 \<and> cs_hung_up s = hung"

lemma stage_step:
  assumes "stage cm rd c0 c1 hung"
    and "\<And>s. cs_cm s = cm \<Longrightarrow> cs_reader s = rd \<Longrightarrow> cs_caller s 0 = c0 \<Longrightarrow> cs_caller s (Suc 0) = c1 \<Longrightarrow>
      cs_hung_up s = hung \<Longrightarrow>
      \<exists>s'. cstep s s' \<and> cs_cm s' = cm' \<and> cs_reader s' = rd'
        \<and> cs_caller s' 0 = c0' \<and> cs_caller s' (Suc 0) = c1' \<and> cs_hung_up s' = hung'"
  shows "stage cm' rd' c0' c1' hung'"
  using assms by (blast intro: creach.step)

abbreviation open_cm :: "u32 \<Rightarrow> (u32, nat) std_map \<Rightarrow> outcome option list \<Rightarrow> commander" where
  "open_cm n ps fs \<equiv>
     \<lparr>cm_connected = True, cm_next_command_id = n, cm_promises = ps, cm_futures = fs\<rparr>"

abbreviation first_sent :: caller where "first_sent \<equiv> Waiting 0 0 False"

text \<open>Thread 0 has sent a request and the reader waits for the response.\<close>

lemma waiting_run: "stage (open_cm 1 [(0, 0)] [None]) Reading first_sent Idle False"
proof -
  have "stage (open_cm 0 [] []) Testing Idle Idle False"
    by (intro exI [of _ csys_init] conjI creach.start)
      (simp_all add: csys_init_def new_commander_def map_empty_def)
  then have "stage (open_cm 1 [] []) Testing (Has_Id 0 False) Idle False"
    by (rule stage_step)
      (rule exI, rule conjI, rule cstep.call [where t = 0 and closing = False], simp_all)
  then have "stage (open_cm 1 [(0, 0)] [None]) Testing (Sending 0 0 False) Idle False"
    by (rule stage_step)
      (rule exI, rule conjI, rule cstep.registered [where t = 0 and ident = 0 and k = 0 and closing = False],
        simp_all add: register_promise_def)
  then have "stage (open_cm 1 [(0, 0)] [None]) Testing first_sent Idle False"
    by (rule stage_step)
      (rule exI, rule conjI, rule cstep.sent [where t = 0 and ident = 0 and k = 0 and closing = False], simp_all)
  then show ?thesis
    by (rule stage_step) (rule exI, rule conjI, rule cstep.reader_go, simp_all)
qed

text \<open>The transport fails: the reader hands the exception to the waiting request and stops.\<close>

lemma failed_run:
  "stage (hang_up (open_cm 1 [(0, 0)] [Some (Inl TransportClosed)])) Stopped first_sent Idle False"
proof -
  note waiting_run
  then have "stage (open_cm 1 [(0, 0)] [None]) (Caught TransportClosed) first_sent Idle False"
    by (rule stage_step) (rule exI, rule conjI, rule cstep.read_throws [where e = TransportClosed], simp_all)
  then have "stage (hang_up (open_cm 1 [(0, 0)] [None])) (Failing TransportClosed) first_sent Idle False"
    by (rule stage_step) (rule exI, rule conjI, rule cstep.hang_up [where e = TransportClosed], simp_all)
  then have "stage (hang_up (open_cm 1 [(0, 0)] [Some (Inl TransportClosed)])) Testing first_sent Idle False"
    by (rule stage_step) (rule exI, rule conjI, rule cstep.fail_all [where e = TransportClosed],
        simp_all add: fail_all_def satisfy_def hang_up_def)
  then show ?thesis
    by (rule stage_step) (rule exI, rule conjI, rule cstep.reader_stop, simp_all)
qed

text \<open>
  Thread 0 waits; thread 1 disconnects, the worker answers it first, and the reader delivers that
  answer.
\<close>

abbreviation goodbye :: message where "goodbye \<equiv> \<lparr>msg_id = 1, msg_type = 0, msg_data = []\<rparr>"

lemma answered_run:
  "stage (open_cm 2 [(0, 0)] [None, Some (Inr goodbye)]) Testing first_sent (Back 1 (Inr goodbye) True) False"
proof -
  note waiting_run
  then have "stage (open_cm 2 [(0, 0)] [None]) Reading first_sent (Has_Id 1 True) False"
    by (rule stage_step)
      (rule exI, rule conjI, rule cstep.call [where t = 1 and closing = True], simp_all)
  then have "stage (open_cm 2 [(0, 0), (1, 1)] [None, None]) Reading first_sent (Sending 1 1 True) False"
    by (rule stage_step)
      (rule exI, rule conjI, rule cstep.registered [where t = 1 and ident = 1 and k = 1 and closing = True],
        simp_all add: register_promise_def)
  then have "stage (open_cm 2 [(0, 0), (1, 1)] [None, None]) Reading first_sent (Waiting 1 1 True) False"
    by (rule stage_step)
      (rule exI, rule conjI, rule cstep.sent [where t = 1 and ident = 1 and k = 1 and closing = True], simp_all)
  then have "stage (open_cm 2 [(0, 0)] [None, Some (Inr goodbye)]) Testing first_sent (Waiting 1 1 True) False"
    by (rule stage_step) (rule exI, rule conjI, rule cstep.response [where m = goodbye],
        simp_all add: on_response_def map_at_def map_find_def satisfy_def response_outcome_def map_erase_def)
  then show ?thesis
    by (rule stage_step)
      (rule exI, rule conjI, rule cstep.ready [where t = 1 and ident = 1 and k = 1 and closing = True
          and r = "Inr goodbye"], simp_all)
qed

text \<open>Then thread 1 clears \<open>_connected\<close>, and the reader leaves its loop.\<close>

lemma stranded_run: "\<exists>s. creach s \<and> stranded 0 s"
proof -
  let ?cm = "hang_up (open_cm 2 [(0, 0)] [None, Some (Inr goodbye)])"
  note answered_run
  then have "stage ?cm Testing first_sent Idle True"
    by (rule stage_step)
      (rule exI, rule conjI, rule cstep.return_disconnect [where t = 1 and ident = 1 and r = "Inr goodbye"],
        simp_all)
  then have "stage ?cm Stopped first_sent Idle True"
    by (rule stage_step) (rule exI, rule conjI, rule cstep.reader_stop, simp_all)
  then show ?thesis by (auto simp: stranded_def)
qed

lemma outcome_final:
  "cstep\<^sup>*\<^sup>* s s' \<Longrightarrow> creach s \<Longrightarrow> k < length (cm_futures (cs_cm s)) \<Longrightarrow>
   cm_futures (cs_cm s) ! k = Some r \<Longrightarrow>
   creach s' \<and> k < length (cm_futures (cs_cm s')) \<and> cm_futures (cs_cm s') ! k = Some r"
proof (induction rule: rtranclp_induct)
  case (step s1 s2)
  then have s1: "creach s1" "k < length (cm_futures (cs_cm s1))" "cm_futures (cs_cm s1) ! k = Some r"
    by simp_all
  have s2: "creach s2" using s1(1) step(2) by (rule creach.step)
  have tables: "table_inv s1" "id_inv s1" "id_inv s2" using creach_inv s1(1) s2 by simp_all
  have "length (cs_ids s1) \<le> length (cs_ids s2)" using step(2) by (induction rule: cstep.induct) simp_all
  then have "k < length (cm_futures (cs_cm s2))"
    using s1(2) tables(2,3) by (simp add: id_inv_def)
  moreover have "cm_futures (cs_cm s2) ! k = Some r"
    by (rule outcome_kept [OF step(2) tables(1) s1(2,3)])
  ultimately show ?case using s2 by simp
qed simp

text \<open>Once a future is ready it keeps its outcome, whatever any thread does afterwards.\<close>

lemma outcome_never_changes:
  assumes "creach s" "cstep\<^sup>*\<^sup>* s s'" "k < length (cm_futures (cs_cm s))"
    and "cm_futures (cs_cm s) ! k = Some r"
  shows "cm_futures (cs_cm s') ! k = Some r"
  using outcome_final [OF assms(2,1,3,4)] by simp

section \<open>Properties\<close>

text \<open>
  C18. However the callers, the reader and the worker interleave, a call only ever returns a result that
  carries the id of its own command.
\<close>

theorem caller_gets_own_response:
  assumes "creach s" "cs_caller s t = Back ident (Inr m) closing"
  shows "msg_id m = ident \<and> msg_type m = worker_code CommandResult"
proof -
  have "caller_ok s (cs_caller s t)" using creach_inv [OF assms(1)] by (simp add: caller_inv_def)
  with assms(2) show ?thesis by simp
qed

theorem caller_gets_own_response_witness:
  "\<exists>s. creach s \<and> cs_caller s (Suc 0) = Back 1 (Inr goodbye) True \<and> msg_id goodbye = 1"
  using answered_run caller_gets_own_response [of _ "Suc 0" 1 goodbye True] by blast

text \<open>
  C19. When the reader stops because the transport failed, no caller is left waiting: the future of every
  waiting call is ready, and the call can return with it.
\<close>

theorem failure_releases_callers:
  assumes "creach s" "cs_reader s = Stopped" "\<not> cs_hung_up s" "cs_caller s t = Waiting ident k closing"
  shows "\<exists>r. cm_futures (cs_cm s) ! k = Some r \<and> cstep s (caller_to t (Back ident r closing) s)"
proof -
  have inv: "id_inv s" "caller_inv s" "reader_inv s" using creach_inv [OF assms(1)] by simp_all
  have "all_ready (cs_cm s)" by (rule stopped_all_ready [OF inv(3) assms(2,3)])
  from waiting_released [OF inv(2,1) this assms(4)] show ?thesis by blast
qed

theorem failure_releases_callers_witness:
  "\<exists>s r. creach s \<and> cs_reader s = Stopped \<and> cs_caller s 0 = first_sent
     \<and> cm_futures (cs_cm s) ! 0 = Some r \<and> cstep s (caller_to 0 (Back 0 r False) s)"
  using failed_run failure_releases_callers [of _ 0 0 0 False] by blast

text \<open>
  C20. No promise is satisfied twice. The \<open>catch\<close> block of the reader therefore never lets an exception
  out, which would end the program, and a response is delivered or its id is unknown.
\<close>

theorem reader_never_terminates_program:
  assumes "creach s"
  shows "cs_reader s \<noteq> Crashed
    \<and> (cs_reader s = Reading \<longrightarrow> fst (on_response m (cs_cm s)) \<in> {Inr (), Inl (OutOfRange ''map::at'')})"
proof (intro conjI impI)
  have inv: "table_inv s" "reader_inv s" using creach_inv [OF assms] by simp_all
  then show "cs_reader s \<noteq> Crashed" by (simp add: reader_inv_def)
  assume "cs_reader s = Reading"
  then have "promises_ok (cs_cm s)" "entries_unset (cs_cm s)"
    using inv(1) by (simp_all add: table_inv_def serving_def)
  then show "fst (on_response m (cs_cm s)) \<in> {Inr (), Inl (OutOfRange ''map::at'')}"
    by (cases rule: on_response_cases [of "cs_cm s" m]) simp_all
qed

theorem reader_never_terminates_program_witness:
  "\<exists>s. creach s \<and> cs_reader s = Reading
     \<and> fst (on_response goodbye (cs_cm s)) \<in> {Inr (), Inl (OutOfRange ''map::at'')}"
proof -
  obtain s where "creach s" "cs_reader s = Reading" using waiting_run by blast
  with reader_never_terminates_program [of s goodbye] show ?thesis by (intro exI [of _ s]) simp
qed

text \<open>
  C21. A request can wait for ever: when \<open>disconnect\<close> clears \<open>_connected\<close> after its own answer, the reader
  leaves its loop without failing the promises that are still open. There is a reachable state from
  which every further run keeps the request of thread 0 open.
\<close>

theorem disconnect_strands_pending_request:
  "\<exists>s. creach s \<and> {s'. cstep\<^sup>*\<^sup>* s s'} \<subseteq> {s'. stranded 0 s'}"
  using stranded_run stranded_forever by blast

end
