(* ===== verification/Worker_System.thy ===== *)
theory Worker_System
  imports Worker
begin

text \<open>
  \<open>worker/Worker\<close> with all its threads: the reader of \<open>_read_messages\<close>, the handler loops of
  \<open>_handle_messages\<close> on the shared queue, and the calls of \<open>close\<close>, each in its own steps. Of the
  transport the threads see the bytes in the cancellation pipe and whether the socket is open; what the
  connection brings and when it fails is not theirs to decide. A command is carried out in one step, with
  the \<open>errno\<close> its thread happens to have. The last four fields record the history: the commands received,
  taken from the queue and answered, and those whose answer could not be written; no step reads them.
\<close>

section \<open>Close\<close>

text \<open>
  \<open>close\<close> as one function: when closing the transport throws, the queue stays open and the handler
  loops that wait in \<open>pop\<close> are not woken.
\<close>

definition worker_close ::
    "'w net \<Rightarrow> worker \<times> transport \<times> message cqueue \<Rightarrow> 'w world
       \<Rightarrow> unit result \<times> (worker \<times> transport \<times> message cqueue) \<times> 'w world" where
  "worker_close N = (\<lambda>(wk, t, q) w.
     let wk1 = wk\<lparr>wk_should_stop := True\<rparr>
     in case transport_close N t w of
          (Inl e, t1, w1) \<Rightarrow> (Inl e, (wk1, t1, q), w1)
        | (Inr _, t1, w1) \<Rightarrow> (Inr (), (wk1, t1, queue_shutdown q), w1))"

section \<open>Threads\<close>

datatype msg_reader = Read_Test | Read_Try | Read_Done

datatype handler_loop =
    Loop_Test
  | Loop_Pop
  | Loop_Do message
  | Loop_Write message message
  | Loop_Done

datatype closer = Close_Notify | Close_Socket | Close_Queue | Close_Returned | Close_Threw

record 'w wsys =
  ws_worker :: worker
  ws_pipe :: nat
  ws_connected :: bool
  ws_os :: 'w
  ws_queue :: "message cqueue"
  ws_reader :: msg_reader
  ws_loops :: "handler_loop list"
  ws_closers :: "closer list"
  ws_outbox :: "message list"
  ws_received :: "message list"
  ws_taken :: "message list"
  ws_answered :: "message list"
  ws_unanswered :: "message list"

definition wsys_init :: "u16 \<Rightarrow> 'w \<Rightarrow> 'w wsys" where
  "wsys_init threads w = \<lparr>ws_worker = new_worker, ws_pipe = 0, ws_connected = True, ws_os = w,
     ws_queue = new_queue, ws_reader = Read_Test, ws_loops = replicate (handler_loops threads) Loop_Test,
     ws_closers = [], ws_outbox = [], ws_received = [], ws_taken = [], ws_answered = [], ws_unanswered = []\<rparr>"

definition loop_to :: "nat \<Rightarrow> handler_loop \<Rightarrow> 'w wsys \<Rightarrow> 'w wsys" where
  "loop_to i p s = s\<lparr>ws_loops := (ws_loops s)[i := p]\<rparr>"

definition stop :: "'w wsys \<Rightarrow> 'w wsys" where
  "stop s = s\<lparr>ws_worker := (ws_worker s)\<lparr>wk_should_stop := True\<rparr>\<rparr>"

definition at_loop :: "nat \<Rightarrow> handler_loop \<Rightarrow> 'w wsys \<Rightarrow> bool" where
  "at_loop i p s \<longleftrightarrow> i < length (ws_loops s) \<and> ws_loops s ! i = p"

abbreviation stopping :: "'w wsys \<Rightarrow> bool" where
  "stopping s \<equiv> wk_should_stop (ws_worker s)"

text \<open>
  \<open>close\<close> of one thread: the flag when it begins, then the byte in the cancellation pipe, the socket and
  the queue. When the byte cannot be written it throws, and the socket and the queue stay as they are.
\<close>

definition at_closer :: "nat \<Rightarrow> closer \<Rightarrow> 'w wsys \<Rightarrow> bool" where
  "at_closer i p s \<longleftrightarrow> i < length (ws_closers s) \<and> ws_closers s ! i = p"

definition closer_to :: "nat \<Rightarrow> closer \<Rightarrow> 'w wsys \<Rightarrow> 'w wsys" where
  "closer_to i p s = s\<lparr>ws_closers := (ws_closers s)[i := p]\<rparr>"

definition begin_close :: "'w wsys \<Rightarrow> 'w wsys" where
  "begin_close s = stop s\<lparr>ws_closers := ws_closers s @ [Close_Notify]\<rparr>"

text \<open>
  A thread that is blocked goes on \<open>By_Itself\<close> when \<open>poll\<close> finds a byte in the pipe, of which it takes up to
  64, or when the socket that \<open>send\<close> writes to is closed. The reader is in \<open>read\<close> for as long as it is at
  \<open>Read_Try\<close>. The system calls of a command return.
\<close>

inductive wstep :: "'w posix \<Rightarrow> bool \<Rightarrow> cause \<Rightarrow> 'w wsys \<Rightarrow> 'w wsys \<Rightarrow> bool"
  for P :: "'w posix" and android :: bool where
  read_test: "ws_reader s = Read_Test \<Longrightarrow>
    wstep P android By_Itself s (s\<lparr>ws_reader := (if stopping s then Read_Done else Read_Try)\<rparr>)"
| read_message: "ws_reader s = Read_Try \<Longrightarrow>
    wstep P android From_Outside s (s\<lparr>ws_queue := queue_push_move m (ws_queue s), ws_reader := Read_Test,
      ws_received := ws_received s @ [m]\<rparr>)"
| read_throws: "ws_reader s = Read_Try \<Longrightarrow>
    wstep P android From_Outside s (stop s\<lparr>ws_reader := Read_Test\<rparr>)"
| read_cancelled: "ws_reader s = Read_Try \<Longrightarrow> 0 < ws_pipe s \<Longrightarrow>
    wstep P android By_Itself s (stop s\<lparr>ws_reader := Read_Test, ws_pipe := ws_pipe s - 64\<rparr>)"
| loop_test: "at_loop i Loop_Test s \<Longrightarrow>
    wstep P android By_Itself s (loop_to i (if stopping s then Loop_Done else Loop_Pop) s)"
| pop: "at_loop i Loop_Pop s \<Longrightarrow> queue_pop (ws_queue s) = (Pops (Inr m), q) \<Longrightarrow>
    wstep P android By_Itself s (loop_to i (Loop_Do m) (s\<lparr>ws_queue := q, ws_taken := ws_taken s @ [m]\<rparr>))"
| pop_throws: "at_loop i Loop_Pop s \<Longrightarrow> queue_pop (ws_queue s) = (Pops (Inl e), q) \<Longrightarrow>
    wstep P android By_Itself s (loop_to i Loop_Test (stop s))"
| do_it: "at_loop i (Loop_Do m) s \<Longrightarrow>
    do_command P android m (ws_worker s, \<lparr>errno = e, os = ws_os s\<rparr>) = (Inr reply, (wk, w)) \<Longrightarrow>
    wstep P android By_Itself s (loop_to i (Loop_Write m reply) (s\<lparr>ws_worker := wk, ws_os := os w\<rparr>))"
| write_reply: "at_loop i (Loop_Write m reply) s \<Longrightarrow> ws_connected s \<Longrightarrow>
    wstep P android From_Outside s (loop_to i Loop_Test
      (s\<lparr>ws_outbox := ws_outbox s @ [reply], ws_answered := ws_answered s @ [m]\<rparr>))"
| write_throws: "at_loop i (Loop_Write m reply) s \<Longrightarrow>
    wstep P android From_Outside s (loop_to i Loop_Test (stop s\<lparr>ws_unanswered := ws_unanswered s @ [m]\<rparr>))"
| write_closed: "at_loop i (Loop_Write m reply) s \<Longrightarrow> \<not> ws_connected s \<Longrightarrow>
    wstep P android By_Itself s (loop_to i Loop_Test (stop s\<lparr>ws_unanswered := ws_unanswered s @ [m]\<rparr>))"
| close_begins: "wstep P android Is_Called s (begin_close s)"
| close_notify: "at_closer i Close_Notify s \<Longrightarrow>
    wstep P android By_Itself s (closer_to i Close_Socket (s\<lparr>ws_pipe := ws_pipe s + 1\<rparr>))"
| notify_throws: "at_closer i Close_Notify s \<Longrightarrow> wstep P android From_Outside s (closer_to i Close_Threw s)"
| close_socket: "at_closer i Close_Socket s \<Longrightarrow>
    wstep P android By_Itself s (closer_to i Close_Queue (s\<lparr>ws_connected := False\<rparr>))"
| close_queue: "at_closer i Close_Queue s \<Longrightarrow>
    wstep P android By_Itself s (closer_to i Close_Returned (s\<lparr>ws_queue := queue_shutdown (ws_queue s)\<rparr>))"

inductive wreach :: "'w posix \<Rightarrow> bool \<Rightarrow> u16 \<Rightarrow> 'w wsys \<Rightarrow> bool"
  for P :: "'w posix" and android :: bool and threads :: u16 where
  start: "wreach P android threads (wsys_init threads w)"
| step: "wreach P android threads s \<Longrightarrow> wstep P android a s s' \<Longrightarrow> wreach P android threads s'"

section \<open>Every command is somewhere, and answered at most once\<close>

fun in_hand :: "handler_loop \<Rightarrow> message list" where
  "in_hand (Loop_Do m) = [m]"
| "in_hand (Loop_Write m reply) = [m]"
| "in_hand _ = []"

definition all_in_hand :: "'w wsys \<Rightarrow> message multiset" where
  "all_in_hand s = mset (concat (map in_hand (ws_loops s)))"

definition order_inv :: "'w wsys \<Rightarrow> bool" where
  "order_inv s \<longleftrightarrow> ws_received s = ws_taken s @ q_items (ws_queue s)"

definition count_inv :: "'w wsys \<Rightarrow> bool" where
  "count_inv s \<longleftrightarrow>
     mset (ws_taken s) = all_in_hand s + mset (ws_answered s) + mset (ws_unanswered s)"

text \<open>\<open>answers m reply\<close>: the reply carries the id of the command and one of the worker's types.\<close>

definition answers :: "message \<Rightarrow> message \<Rightarrow> bool" where
  "answers m reply \<longleftrightarrow> msg_id reply = msg_id m \<and> msg_type reply \<in> {0, 1, 2}"

fun writes_answer :: "handler_loop \<Rightarrow> bool" where
  "writes_answer (Loop_Write m reply) = answers m reply"
| "writes_answer _ = True"

definition reply_inv :: "'w wsys \<Rightarrow> bool" where
  "reply_inv s \<longleftrightarrow> list_all2 answers (ws_answered s) (ws_outbox s)
     \<and> (\<forall>p \<in> set (ws_loops s). writes_answer p)"

lemma all_in_hand_move:
  assumes "i < length (ws_loops s)"
  shows "all_in_hand (loop_to i p s) + mset (in_hand (ws_loops s ! i))
    = all_in_hand s + mset (in_hand p)"
  using mset_concat_update [OF assms, of in_hand p] by (simp add: all_in_hand_def loop_to_def)

lemma at_loop_in_hand:
  "at_loop i q s \<Longrightarrow> mset (in_hand q) = mset (in_hand p) \<Longrightarrow> all_in_hand (loop_to i p s) = all_in_hand s"
  using all_in_hand_move [of i s p] by (auto simp: at_loop_def)

lemma all_in_hand_cong: "ws_loops s' = ws_loops s \<Longrightarrow> all_in_hand s' = all_in_hand s"
  by (simp add: all_in_hand_def)

lemma queue_pop_inr:
  "queue_pop q = (Pops (Inr m), q') \<Longrightarrow> q_items q = m # q_items q' \<and> \<not> q_shutdown q"
  by (auto simp: queue_pop_def neq_Nil_conv split: if_splits)

lemma queue_pop_shutdown: "queue_pop q = (r, q') \<Longrightarrow> q_shutdown q' = q_shutdown q"
  by (auto simp: queue_pop_def split: if_splits)

lemma stop_fields [simp]:
  "ws_loops (stop s) = ws_loops s" "ws_queue (stop s) = ws_queue s" "ws_reader (stop s) = ws_reader s"
  "ws_outbox (stop s) = ws_outbox s" "ws_received (stop s) = ws_received s"
  "ws_taken (stop s) = ws_taken s" "ws_answered (stop s) = ws_answered s"
  "ws_unanswered (stop s) = ws_unanswered s" "stopping (stop s)"
  "ws_pipe (stop s) = ws_pipe s" "ws_connected (stop s) = ws_connected s" "ws_closers (stop s) = ws_closers s"
  by (simp_all add: stop_def)

lemma loop_to_fields [simp]:
  "ws_loops (loop_to i p s) = (ws_loops s)[i := p]" "ws_queue (loop_to i p s) = ws_queue s"
  "ws_reader (loop_to i p s) = ws_reader s" "ws_outbox (loop_to i p s) = ws_outbox s"
  "ws_received (loop_to i p s) = ws_received s" "ws_taken (loop_to i p s) = ws_taken s"
  "ws_answered (loop_to i p s) = ws_answered s" "ws_unanswered (loop_to i p s) = ws_unanswered s"
  "ws_worker (loop_to i p s) = ws_worker s" "ws_pipe (loop_to i p s) = ws_pipe s"
  "ws_connected (loop_to i p s) = ws_connected s" "ws_closers (loop_to i p s) = ws_closers s"
  by (simp_all add: loop_to_def)

lemma closer_to_fields [simp]:
  "ws_loops (closer_to i p s) = ws_loops s" "ws_queue (closer_to i p s) = ws_queue s"
  "ws_reader (closer_to i p s) = ws_reader s" "ws_outbox (closer_to i p s) = ws_outbox s"
  "ws_received (closer_to i p s) = ws_received s" "ws_taken (closer_to i p s) = ws_taken s"
  "ws_answered (closer_to i p s) = ws_answered s" "ws_unanswered (closer_to i p s) = ws_unanswered s"
  "ws_worker (closer_to i p s) = ws_worker s" "ws_pipe (closer_to i p s) = ws_pipe s"
  "ws_connected (closer_to i p s) = ws_connected s" "ws_closers (closer_to i p s) = (ws_closers s)[i := p]"
  by (simp_all add: closer_to_def)

lemma begin_close_fields [simp]:
  "ws_loops (begin_close s) = ws_loops s" "ws_queue (begin_close s) = ws_queue s"
  "ws_reader (begin_close s) = ws_reader s" "ws_outbox (begin_close s) = ws_outbox s"
  "ws_received (begin_close s) = ws_received s" "ws_taken (begin_close s) = ws_taken s"
  "ws_answered (begin_close s) = ws_answered s" "ws_unanswered (begin_close s) = ws_unanswered s"
  "ws_pipe (begin_close s) = ws_pipe s" "ws_connected (begin_close s) = ws_connected s"
  "stopping (begin_close s)" "ws_closers (begin_close s) = ws_closers s @ [Close_Notify]"
  by (simp_all add: begin_close_def)

lemma order_inv_step: "wstep P android a s s' \<Longrightarrow> order_inv s \<Longrightarrow> order_inv s'"
  by (induction rule: wstep.induct)
    (auto simp: order_inv_def queue_push_move_def queue_shutdown_def
      dest!: queue_pop_inr)

lemma all_in_hand_loop:
  "at_loop i q s \<Longrightarrow> ws_loops s' = ws_loops s \<Longrightarrow>
   all_in_hand (loop_to i p s') + mset (in_hand q) = all_in_hand s + mset (in_hand p)"
  using all_in_hand_move [of i s' p] by (simp add: at_loop_def all_in_hand_cong [of s' s])

lemma count_inv_step: "wstep P android a s s' \<Longrightarrow> count_inv s \<Longrightarrow> count_inv s'"
proof (induction rule: wstep.induct)
  case (loop_test i s)
  then show ?case
    using all_in_hand_loop [OF loop_test.hyps, of s] by (simp add: count_inv_def)
next
  case (pop i s m q)
  then show ?case
    using all_in_hand_loop [OF pop.hyps(1), of "s\<lparr>ws_queue := q, ws_taken := ws_taken s @ [m]\<rparr>" "Loop_Do m"]
    by (simp add: count_inv_def)
next
  case (pop_throws i s e q)
  then show ?case
    using all_in_hand_loop [OF pop_throws.hyps(1), of "stop s" Loop_Test] by (simp add: count_inv_def)
next
  case (do_it i m s e reply wk w)
  then show ?case
    using all_in_hand_loop [OF do_it.hyps(1), of "s\<lparr>ws_worker := wk, ws_os := os w\<rparr>" "Loop_Write m reply"]
    by (simp add: count_inv_def)
next
  case (write_reply i m reply s)
  then show ?case
    using all_in_hand_loop [OF write_reply.hyps(1), of "s\<lparr>ws_outbox := ws_outbox s @ [reply],
        ws_answered := ws_answered s @ [m]\<rparr>" Loop_Test]
    by (simp add: count_inv_def)
next
  case (write_throws i m reply s)
  then show ?case
    using all_in_hand_loop [OF write_throws.hyps,
        of "stop s\<lparr>ws_unanswered := ws_unanswered s @ [m]\<rparr>" Loop_Test]
    by (simp add: count_inv_def)
next
  case (write_closed i m reply s)
  then show ?case
    using all_in_hand_loop [OF write_closed.hyps(1),
        of "stop s\<lparr>ws_unanswered := ws_unanswered s @ [m]\<rparr>" Loop_Test]
    by (simp add: count_inv_def)
qed (simp_all add: count_inv_def all_in_hand_def)

lemma do_command_answers:
  "do_command P android m st = (Inr reply, st') \<Longrightarrow> answers m reply"
  using do_command_replies [of P android m st] by (auto simp: answers_def)

lemma in_set_update: "x \<in> set (xs[i := y]) \<Longrightarrow> x = y \<or> x \<in> set xs"
  using set_update_subset_insert [of xs i y] by auto

lemma reply_inv_step: "wstep P android a s s' \<Longrightarrow> reply_inv s \<Longrightarrow> reply_inv s'"
proof (induction rule: wstep.induct)
  case (do_it i m s e reply wk w)
  then have "\<forall>p \<in> set ((ws_loops s)[i := Loop_Write m reply]). writes_answer p"
    by (auto simp: reply_inv_def do_command_answers dest!: in_set_update)
  with do_it.prems show ?case by (simp add: reply_inv_def)
next
  case (write_reply i m reply s)
  then have "answers m reply"
    unfolding reply_inv_def at_loop_def by (metis nth_mem writes_answer.simps(1))
  with write_reply show ?case
    by (auto simp: reply_inv_def list_all2_appendI dest!: in_set_update)
qed (auto simp: reply_inv_def dest!: in_set_update)

lemma wreach_inv:
  assumes "wreach P android threads s"
  shows "order_inv s" "count_inv s" "reply_inv s" "length (ws_loops s) = handler_loops threads"
  using assms
proof (induction rule: wreach.induct)
  case (start w)
  { case 1 show ?case by (simp add: order_inv_def wsys_init_def new_queue_def) }
  { case 2 show ?case
      by (simp add: count_inv_def all_in_hand_def wsys_init_def) }
  { case 3 show ?case by (simp add: reply_inv_def wsys_init_def) }
  { case 4 show ?case by (simp add: wsys_init_def) }
next
  case (step s s')
  { case 1 then show ?case using step by (blast intro: order_inv_step) }
  { case 2 then show ?case using step by (blast intro: count_inv_step) }
  { case 3 then show ?case using step by (blast intro: reply_inv_step) }
  { case 4 then show ?case using step(2,6) by (induction rule: wstep.induct) simp_all }
qed

section \<open>Shutting down\<close>

text \<open>What the threads still have to do once the worker stops: each of their steps lowers the sum.\<close>

fun loop_work :: "handler_loop \<Rightarrow> nat" where
  "loop_work Loop_Done = 0"
| "loop_work Loop_Test = 1"
| "loop_work (Loop_Write m reply) = 2"
| "loop_work (Loop_Do m) = 3"
| "loop_work Loop_Pop = 4"

fun reader_work :: "msg_reader \<Rightarrow> nat" where
  "reader_work Read_Done = 0"
| "reader_work Read_Test = 1"
| "reader_work Read_Try = 2"

fun closer_work :: "closer \<Rightarrow> nat" where
  "closer_work Close_Notify = 3"
| "closer_work Close_Socket = 2"
| "closer_work Close_Queue = 1"
| "closer_work Close_Returned = 0"
| "closer_work Close_Threw = 0"

definition work_left :: "'w wsys \<Rightarrow> nat" where
  "work_left s = reader_work (ws_reader s) + sum_list (map loop_work (ws_loops s))"

definition closing_left :: "'w wsys \<Rightarrow> nat" where
  "closing_left s = sum_list (map closer_work (ws_closers s))"

lemma sum_list_move:
  assumes "i < length xs"
  shows "sum_list (map f (xs[i := y])) + f (xs ! i) = sum_list (map f xs) + (f y :: nat)"
proof -
  have "f (xs ! i) \<le> sum_list (map f xs)"
    using assms by (metis elem_le_sum_list length_map nth_map)
  with assms show ?thesis by (simp add: map_update sum_list_update)
qed

lemma loop_work_move:
  "at_loop i q s \<Longrightarrow> sum_list (map loop_work ((ws_loops s)[i := p])) + loop_work q
     = sum_list (map loop_work (ws_loops s)) + loop_work p"
  using sum_list_move [of i "ws_loops s" loop_work p] by (simp add: at_loop_def)

lemma closer_work_move:
  "at_closer i q s \<Longrightarrow> sum_list (map closer_work ((ws_closers s)[i := p])) + closer_work q
     = sum_list (map closer_work (ws_closers s)) + closer_work p"
  using sum_list_move [of i "ws_closers s" closer_work p] by (simp add: at_closer_def)

lemma handlers_keep_stop:
  "wk_should_stop (fst (snd (in_file_handler f m (wk, w)))) = wk_should_stop wk"
  "wk_should_stop (fst (snd (in_dir_handler g m (wk, w)))) = wk_should_stop wk"
  by (simp_all add: in_file_handler_def in_dir_handler_def split: prod.split)

lemma dispatch_keeps_stop:
  "wk_should_stop wk \<Longrightarrow> wk_should_stop (fst (snd (dispatch P android m (wk, w))))"
  unfolding dispatch_def Let_def prod.case disconnect_command_def
  by (simp add: handlers_keep_stop split: if_split)

lemma do_command_keeps_stop:
  assumes "do_command P android m (wk, w) = (r, (wk', w'))" "wk_should_stop wk"
  shows "wk_should_stop wk'"
  using assms(1) dispatch_keeps_stop [OF assms(2), of P android m w]
  by (auto simp: do_command_def split: prod.splits sum.splits)

lemma stopping_step: "wstep P android a s s' \<Longrightarrow> stopping s \<Longrightarrow> stopping s'"
  by (induction rule: wstep.induct) (auto dest: do_command_keeps_stop)

text \<open>
  What a call of \<open>close\<close> has done by the time it is at each of its points. The byte it wrote is in the
  pipe until the reader takes it, and a reader that has taken it finds the flag set.
\<close>

definition closing_inv :: "'w wsys \<Rightarrow> bool" where
  "closing_inv s \<longleftrightarrow> (\<forall>i < length (ws_closers s). stopping s
     \<and> (ws_closers s ! i \<in> {Close_Socket, Close_Queue, Close_Returned} \<longrightarrow>
          0 < ws_pipe s \<or> ws_reader s \<noteq> Read_Try)
     \<and> (ws_closers s ! i \<in> {Close_Queue, Close_Returned} \<longrightarrow> \<not> ws_connected s)
     \<and> (ws_closers s ! i = Close_Returned \<longrightarrow> q_shutdown (ws_queue s)))
   \<and> (q_shutdown (ws_queue s) \<longrightarrow> Close_Returned \<in> set (ws_closers s))"

lemma returned_stays:
  "Close_Returned \<in> set xs \<Longrightarrow> xs ! i \<noteq> Close_Returned \<Longrightarrow> Close_Returned \<in> set (xs[i := p])"
  by (metis in_set_conv_nth length_list_update nth_list_update_neq)

lemma returned_step:
  "wstep P android a s s' \<Longrightarrow> Close_Returned \<in> set (ws_closers s) \<Longrightarrow> Close_Returned \<in> set (ws_closers s')"
  by (induction rule: wstep.induct) (auto simp: at_closer_def intro: returned_stays)

lemma queue_shutdown_fields [simp]: "q_shutdown (queue_shutdown q)" "q_items (queue_shutdown q) = q_items q"
  "q_shutdown (queue_push_move m q) = q_shutdown q"
  by (simp_all add: queue_shutdown_def queue_push_move_def)

lemma closing_inv_step: "wstep P android a s s' \<Longrightarrow> closing_inv s \<Longrightarrow> closing_inv s'"
proof (induction rule: wstep.induct)
  case (do_it i m s e reply wk w)
  then show ?case by (auto simp: closing_inv_def dest: do_command_keeps_stop)
next
  case (close_begins s)
  then show ?case by (auto simp: closing_inv_def nth_append)
next
  case (close_queue i s)
  then show ?case by (auto simp: closing_inv_def at_closer_def nth_list_update intro: set_update_memI)
qed (auto simp: closing_inv_def at_closer_def nth_list_update split: if_splits
    intro: returned_stays dest: queue_pop_shutdown)

lemma wreach_closing: "wreach P android threads s \<Longrightarrow> closing_inv s"
  by (induction rule: wreach.induct)
    (simp add: closing_inv_def wsys_init_def new_queue_def, blast intro: closing_inv_step)

text \<open>Once the worker stops, a step of a thread lowers its work, and any other leaves the threads alone.\<close>

lemma threads_work:
  "wstep P android a s s' \<Longrightarrow> stopping s \<Longrightarrow>
   work_left s' < work_left s \<and> ws_closers s' = ws_closers s
   \<or> ws_reader s' = ws_reader s \<and> ws_loops s' = ws_loops s
     \<and> (a = Is_Called \<or> closing_left s' < closing_left s)"
proof (induction rule: wstep.induct)
  case (loop_test i s)
  then show ?case using loop_work_move [OF loop_test.hyps, of Loop_Done] by (simp add: work_left_def)
next
  case (pop i s m q)
  then show ?case using loop_work_move [OF pop.hyps(1), of "Loop_Do m"] by (simp add: work_left_def)
next
  case (pop_throws i s e q)
  then show ?case using loop_work_move [OF pop_throws.hyps(1), of Loop_Test] by (simp add: work_left_def)
next
  case (do_it i m s e reply wk w)
  then show ?case using loop_work_move [OF do_it.hyps(1), of "Loop_Write m reply"] by (simp add: work_left_def)
next
  case (write_reply i m reply s)
  then show ?case using loop_work_move [OF write_reply.hyps(1), of Loop_Test] by (simp add: work_left_def)
next
  case (write_throws i m reply s)
  then show ?case using loop_work_move [OF write_throws.hyps, of Loop_Test] by (simp add: work_left_def)
next
  case (write_closed i m reply s)
  then show ?case using loop_work_move [OF write_closed.hyps(1), of Loop_Test] by (simp add: work_left_def)
next
  case (close_notify i s)
  then show ?case using closer_work_move [OF close_notify.hyps, of Close_Socket] by (simp add: closing_left_def)
next
  case (notify_throws i s)
  then show ?case using closer_work_move [OF notify_throws.hyps, of Close_Threw] by (simp add: closing_left_def)
next
  case (close_socket i s)
  then show ?case using closer_work_move [OF close_socket.hyps, of Close_Queue] by (simp add: closing_left_def)
next
  case (close_queue i s)
  then show ?case using closer_work_move [OF close_queue.hyps, of Close_Returned] by (simp add: closing_left_def)
qed (simp_all add: work_left_def)

text \<open>Until all threads are done, one of them moves by itself: nothing has to arrive, and no call to fail.\<close>

lemma loop_moves:
  assumes "q_shutdown (ws_queue s)" "\<not> ws_connected s" "at_loop i p s" "p \<noteq> Loop_Done"
  obtains s' q where "wstep P android By_Itself s s'" "ws_loops s' = (ws_loops s)[i := q]" "q \<noteq> p"
proof (cases p)
  case (Loop_Do m)
  obtain reply wk w where "do_command P android m (ws_worker s, \<lparr>errno = 0, os = ws_os s\<rparr>) = (Inr reply, (wk, w))"
    using do_command_replies by (metis prod.exhaust)
  then have "wstep P android By_Itself s (loop_to i (Loop_Write m reply) (s\<lparr>ws_worker := wk, ws_os := os w\<rparr>))"
    by (rule wstep.do_it [OF assms(3) [unfolded Loop_Do]])
  then show thesis by (rule that [where q = "Loop_Write m reply"]) (simp_all add: Loop_Do)
next
  case (Loop_Write m reply)
  from wstep.write_closed [OF assms(3) [unfolded Loop_Write] assms(2)] show thesis by (rule that [where q = Loop_Test]) (simp_all add: Loop_Write)
next
  case Loop_Test
  from wstep.loop_test [OF assms(3) [unfolded Loop_Test]] show thesis by (rule that [where q = "if stopping s then Loop_Done else Loop_Pop"]) (simp_all add: Loop_Test)
next
  case Loop_Pop
  have "queue_pop (ws_queue s) = (Pops (Inl QueueShutdown), ws_queue s)"
    using assms(1) by (simp add: queue_pop_def)
  from wstep.pop_throws [OF assms(3) [unfolded Loop_Pop] this] show thesis by (rule that [where q = Loop_Test]) (simp_all add: Loop_Pop)
qed (use assms(4) in simp)

lemma returned_closed:
  assumes "closing_inv s" "Close_Returned \<in> set (ws_closers s)"
  shows "stopping s" "\<not> ws_connected s" "q_shutdown (ws_queue s)" "0 < ws_pipe s \<or> ws_reader s \<noteq> Read_Try"
  using assms by (auto simp: closing_inv_def in_set_conv_nth)

lemma closed_progress:
  assumes "closing_inv s" "Close_Returned \<in> set (ws_closers s)" "work_left s \<noteq> 0"
  obtains s' where "wstep P android By_Itself s s'" "work_left s' < work_left s"
proof -
  note closed = returned_closed [OF assms(1,2)]
  have "\<exists>s'. wstep P android By_Itself s s' \<and> (ws_reader s' \<noteq> ws_reader s \<or> ws_loops s' \<noteq> ws_loops s)"
  proof (cases "ws_reader s")
    case Read_Test
    from wstep.read_test [OF this] this show ?thesis by (intro exI conjI) (assumption, simp)
  next
    case Read_Try
    with closed(4) have "0 < ws_pipe s" by simp
    from wstep.read_cancelled [OF Read_Try this] Read_Try show ?thesis by (intro exI conjI) (assumption, simp)
  next
    case Read_Done
    with assms(3) obtain q where "q \<in> set (ws_loops s)" "loop_work q \<noteq> 0"
      by (auto simp: work_left_def)
    then obtain i p where i: "at_loop i p s" "p \<noteq> Loop_Done"
      by (metis at_loop_def in_set_conv_nth loop_work.simps(1))
    obtain s' q where s': "wstep P android By_Itself s s'" "ws_loops s' = (ws_loops s)[i := q]" "q \<noteq> p"
      using loop_moves [OF closed(3,2) i] .
    then have "ws_loops s' \<noteq> ws_loops s" using i(1) by (metis at_loop_def nth_list_update_eq)
    with s'(1) show ?thesis by blast
  qed
  then show thesis using that threads_work [OF _ closed(1)] by blast
qed

text \<open>A call of \<open>close\<close> goes on by itself to its end.\<close>

lemma closer_moves:
  assumes "at_closer i p s" "p \<in> {Close_Notify, Close_Socket, Close_Queue}"
  obtains s' where "wstep P android By_Itself s s'"
  using assms wstep.close_notify wstep.close_socket wstep.close_queue by blast

lemma work_done_iff:
  "work_left s = 0 \<longleftrightarrow> ws_reader s = Read_Done \<and> set (ws_loops s) \<subseteq> {Loop_Done}"
proof -
  have "loop_work p = 0 \<longleftrightarrow> p = Loop_Done" for p by (cases p) simp_all
  moreover have "reader_work r = 0 \<longleftrightarrow> r = Read_Done" for r by (cases r) simp_all
  ultimately show ?thesis by (auto simp: work_left_def)
qed

section \<open>Some states\<close>

text \<open>A worker with one handler loop answers one command of an unknown type.\<close>

abbreviation ping :: message where "ping \<equiv> \<lparr>msg_id = 5, msg_type = 99, msg_data = []\<rparr>"
abbreviation pong :: message where "pong \<equiv> \<lparr>msg_id = 5, msg_type = 2, msg_data = []\<rparr>"

abbreviation one_loop ::
    "msg_reader \<Rightarrow> message list \<Rightarrow> handler_loop \<Rightarrow> message list \<Rightarrow> message list \<Rightarrow> message list \<Rightarrow> unit wsys"
where
  "one_loop rd xs p received taken answered \<equiv>
     \<lparr>ws_worker = new_worker, ws_pipe = 0, ws_connected = True, ws_os = (),
      ws_queue = \<lparr>q_shutdown = False, q_items = xs\<rparr>,
      ws_reader = rd, ws_loops = [p], ws_closers = [], ws_outbox = map (\<lambda>_. pong) answered, ws_received = received,
      ws_taken = taken, ws_answered = answered, ws_unanswered = []\<rparr>"

lemma wreach_to:
  "wreach P android threads s \<Longrightarrow> wstep P android a s s1 \<Longrightarrow> s1 = s' \<Longrightarrow> wreach P android threads s'"
  by (blast intro: wreach.step)

lemma reply_run:
  "\<exists>s. wreach (failing_posix EIO :: unit posix) False 2 s \<and> ws_received s = [ping] \<and> ws_answered s = [ping]"
proof -
  let ?reach = "wreach (failing_posix EIO :: unit posix) False 2"
  note sims = new_worker_def new_queue_def loop_to_def queue_push_move_def queue_pop_def
  have "?reach (one_loop Read_Test [] Loop_Test [] [] [])"
    using wreach.start [of "failing_posix EIO" False 2 "()"]
    by (simp add: wsys_init_def new_queue_def handler_loops_def)
  then have "?reach (one_loop Read_Try [] Loop_Test [] [] [])"
    by (rule wreach_to [OF _ wstep.read_test]) (simp_all add: sims)
  then have "?reach (one_loop Read_Test [ping] Loop_Test [ping] [] [])"
    by (rule wreach_to [OF _ wstep.read_message [where m = ping]]) (simp_all add: sims)
  then have "?reach (one_loop Read_Test [ping] Loop_Pop [ping] [] [])"
    by (rule wreach_to [OF _ wstep.loop_test [where i = 0]]) (simp_all add: sims at_loop_def)
  then have "?reach (one_loop Read_Test [] (Loop_Do ping) [ping] [ping] [])"
    by (rule wreach_to [OF _ wstep.pop [where i = 0 and m = ping and q = "\<lparr>q_shutdown = False, q_items = []\<rparr>"]])
      (simp_all add: sims at_loop_def)
  then have "?reach (one_loop Read_Test [] (Loop_Write ping pong) [ping] [ping] [])"
    by (rule wreach_to [OF _ wstep.do_it [where i = 0 and m = ping and e = 0 and reply = pong
            and wk = new_worker and w = "\<lparr>errno = 0, os = ()\<rparr>"]])
      (simp_all add: loop_to_def at_loop_def do_command_def dispatch_def Let_def)
  then have "?reach (one_loop Read_Test [] Loop_Test [ping] [ping] [ping])"
    by (rule wreach_to [OF _ wstep.write_reply [where i = 0 and m = ping and reply = pong]])
      (simp_all add: sims at_loop_def)
  then show ?thesis by force
qed

text \<open>A worker that was closed before its threads started.\<close>

definition closed_example :: "u16 \<Rightarrow> unit wsys" where
  "closed_example threads = (wsys_init threads ())
     \<lparr>ws_worker := new_worker\<lparr>wk_should_stop := True\<rparr>, ws_pipe := 1, ws_connected := False,
      ws_queue := queue_shutdown new_queue, ws_closers := [Close_Returned]\<rparr>"

lemma closed_example_reached: "wreach P android threads (closed_example threads)"
proof -
  let ?c = "\<lambda>n c q p. (wsys_init threads ())\<lparr>ws_worker := new_worker\<lparr>wk_should_stop := True\<rparr>, ws_pipe := n,
    ws_connected := c, ws_queue := q, ws_closers := [p]\<rparr>"
  note sims = at_closer_def closer_to_def
  have "wreach P android threads (wsys_init threads ())" by (rule wreach.start)
  then have "wreach P android threads (?c 0 True new_queue Close_Notify)"
    by (rule wreach_to [OF _ wstep.close_begins]) (simp add: begin_close_def stop_def wsys_init_def)
  then have "wreach P android threads (?c 1 True new_queue Close_Socket)"
    by (rule wreach_to [OF _ wstep.close_notify [where i = 0]]) (simp_all add: sims)
  then have "wreach P android threads (?c 1 False new_queue Close_Queue)"
    by (rule wreach_to [OF _ wstep.close_socket [where i = 0]]) (simp_all add: sims)
  then have "wreach P android threads (?c 1 False (queue_shutdown new_queue) Close_Returned)"
    by (rule wreach_to [OF _ wstep.close_queue [where i = 0]]) (simp_all add: sims)
  then show ?thesis by (simp add: closed_example_def)
qed

lemma closed_example_work:
  "Close_Returned \<in> set (ws_closers (closed_example threads))" "0 < work_left (closed_example threads)"
  by (simp_all add: closed_example_def work_left_def wsys_init_def)

text \<open>The handler loops take the commands in the order in which they were received.\<close>

lemma commands_taken_in_order:
  assumes "wreach P android threads s"
  shows "ws_received s = ws_taken s @ q_items (ws_queue s)"
  using wreach_inv(1) [OF assms] by (simp add: order_inv_def)

section \<open>Properties\<close>

text \<open>
  C22. Whatever the threads of the worker do, no command is lost or answered twice: those received are the
  queued, those in hand, those answered and those whose answer could not be written; and the replies
  written are the answers to the answered commands, each under the id of its command.
\<close>

theorem every_command_answered_at_most_once:
  assumes "wreach P android threads s"
  shows "mset (ws_received s)
      = mset (q_items (ws_queue s)) + all_in_hand s + mset (ws_answered s) + mset (ws_unanswered s)
    \<and> list_all2 answers (ws_answered s) (ws_outbox s)"
  using wreach_inv [OF assms] by (simp add: order_inv_def count_inv_def reply_inv_def)

theorem every_command_answered_at_most_once_witness:
  "\<exists>s. wreach (failing_posix EIO :: unit posix) False 2 s \<and> ws_received s = [ping]
     \<and> ws_answered s = [ping] \<and> list_all2 answers [ping] (ws_outbox s)"
proof -
  obtain s :: "unit wsys" where s: "wreach (failing_posix EIO) False 2 s" "ws_received s = [ping]" "ws_answered s = [ping]"
    using reply_run by blast
  with every_command_answered_at_most_once [OF s(1)] show ?thesis by auto
qed

text \<open>
  C23. After a call of \<open>close\<close> has returned the worker winds down: every step of a thread lowers the work left
  and no other step touches the threads, as long as there is some a thread moves by itself, whatever the
  connection does, and when there is none every thread has left its loop.
\<close>

theorem close_ends_all_threads:
  assumes "wreach P android threads s" "Close_Returned \<in> set (ws_closers s)"
  shows "(\<forall>a s'. wstep P android a s s' \<longrightarrow> Close_Returned \<in> set (ws_closers s')
      \<and> (work_left s' < work_left s \<or> ws_reader s' = ws_reader s \<and> ws_loops s' = ws_loops s))
    \<and> (work_left s \<noteq> 0 \<longrightarrow> (\<exists>s'. wstep P android By_Itself s s' \<and> work_left s' < work_left s))
    \<and> (work_left s = 0 \<longrightarrow> ws_reader s = Read_Done \<and> set (ws_loops s) \<subseteq> {Loop_Done})"
proof (intro conjI allI impI)
  note inv = wreach_closing [OF assms(1)]
  fix a s' assume step: "wstep P android a s s'"
  show "Close_Returned \<in> set (ws_closers s')" using step assms(2) by (rule returned_step)
  show "work_left s' < work_left s \<or> ws_reader s' = ws_reader s \<and> ws_loops s' = ws_loops s"
    using threads_work [OF step returned_closed(1) [OF inv assms(2)]] by blast
next
  assume "work_left s \<noteq> 0"
  then show "\<exists>s'. wstep P android By_Itself s s' \<and> work_left s' < work_left s"
    by (rule closed_progress [OF wreach_closing [OF assms(1)] assms(2)]) blast
qed (simp_all add: work_done_iff)

theorem close_ends_all_threads_witness:
  "\<exists>s'. wstep (failing_posix EIO) False By_Itself (closed_example 3) s' \<and> work_left s' < work_left (closed_example 3)"
  using close_ends_all_threads [OF closed_example_reached closed_example_work(1), of "failing_posix EIO" False]
    closed_example_work(2) [of 3] by blast

end
