(* ===== verification/Session_System.thy ===== *)
theory Session_System
  imports Commander_System Worker_System
begin

text \<open>
  A commander with all its threads, a worker with all its threads, and the connection between them.
  The connection is two queues of messages, one for each direction; framing and byte streams are in
  \<open>Message_Transport\<close>. Each of the two machines takes its own steps; the steps that touch the
  connection are written out, and each of them may fail instead. The last two fields record the
  history: the commands sent, each with the future of its caller, and the responses read.
\<close>

record 'w zsys =
  z_commander :: csys
  z_worker :: "'w wsys"
  z_commands :: "message list"
  z_replies :: "message list"
  z_sent :: "(nat \<times> message) list"
  z_delivered :: "message list"

definition zsys_init :: "u16 \<Rightarrow> 'w \<Rightarrow> 'w zsys" where
  "zsys_init threads w = \<lparr>z_commander = csys_init, z_worker = wsys_init threads w, z_commands = [],
     z_replies = [], z_sent = [], z_delivered = []\<rparr>"

text \<open>Steps of one machine in which nobody reads from the connection or writes to it.\<close>

definition commander_quiet :: "csys \<Rightarrow> csys \<Rightarrow> bool" where
  "commander_quiet c c' \<longleftrightarrow> (cs_reader c = Reading \<longrightarrow> cs_reader c' = Reading)
     \<and> (\<forall>t ident k closing. cs_caller c t = Sending ident k closing \<longrightarrow>
          cs_caller c' t = Sending ident k closing)"

definition worker_quiet :: "'w wsys \<Rightarrow> 'w wsys \<Rightarrow> bool" where
  "worker_quiet w w' \<longleftrightarrow> (ws_reader w = Read_Try \<longrightarrow> ws_reader w' = Read_Try)
     \<and> (\<forall>i m reply. at_loop i (Loop_Write m reply) w \<longrightarrow> at_loop i (Loop_Write m reply) w')"

inductive zstep :: "'w posix \<Rightarrow> bool \<Rightarrow> 'w zsys \<Rightarrow> 'w zsys \<Rightarrow> bool"
  for P :: "'w posix" and android :: bool where
  commander_moves: "cstep (z_commander z) c \<Longrightarrow> commander_quiet (z_commander z) c \<Longrightarrow>
    zstep P android z (z\<lparr>z_commander := c\<rparr>)"
| command_sent: "cs_caller (z_commander z) t = Sending ident k closing \<Longrightarrow> msg_id m = ident \<Longrightarrow>
    closing = (msg_type m = commander_code Disconnect) \<Longrightarrow>
    zstep P android z (z\<lparr>z_commander := caller_to t (Waiting ident k closing) (z_commander z),
      z_commands := z_commands z @ [m], z_sent := z_sent z @ [(k, m)]\<rparr>)"
| send_fails: "cs_caller (z_commander z) t = Sending ident k closing \<Longrightarrow>
    zstep P android z (z\<lparr>z_commander := caller_to t (Back ident (Inl e) closing) (z_commander z)\<rparr>)"
| response_read: "cs_reader (z_commander z) = Reading \<Longrightarrow> z_replies z = m # rest \<Longrightarrow>
    on_response m (cs_cm (z_commander z)) = (Inr (), cm) \<Longrightarrow>
    zstep P android z (z\<lparr>z_commander := reader_to Testing (with_cm cm (z_commander z)),
      z_replies := rest, z_delivered := z_delivered z @ [m]\<rparr>)"
| response_refused: "cs_reader (z_commander z) = Reading \<Longrightarrow> z_replies z = m # rest \<Longrightarrow>
    on_response m (cs_cm (z_commander z)) = (Inl e, cm) \<Longrightarrow>
    zstep P android z (z\<lparr>z_commander := reader_to (Caught e) (with_cm cm (z_commander z)),
      z_replies := rest, z_delivered := z_delivered z @ [m]\<rparr>)"
| response_fails: "cs_reader (z_commander z) = Reading \<Longrightarrow>
    zstep P android z (z\<lparr>z_commander := reader_to (Caught e) (z_commander z)\<rparr>)"
| worker_moves: "wstep P android a (z_worker z) w \<Longrightarrow> worker_quiet (z_worker z) w \<Longrightarrow>
    zstep P android z (z\<lparr>z_worker := w\<rparr>)"
| command_read: "ws_reader (z_worker z) = Read_Try \<Longrightarrow> z_commands z = m # rest \<Longrightarrow>
    zstep P android z (z\<lparr>z_worker := (z_worker z)\<lparr>ws_queue := queue_push_move m (ws_queue (z_worker z)),
        ws_reader := Read_Test, ws_received := ws_received (z_worker z) @ [m]\<rparr>,
      z_commands := rest\<rparr>)"
| command_fails: "ws_reader (z_worker z) = Read_Try \<Longrightarrow>
    zstep P android z (z\<lparr>z_worker := stop (z_worker z)\<lparr>ws_reader := Read_Test\<rparr>\<rparr>)"
| command_cancelled: "ws_reader (z_worker z) = Read_Try \<Longrightarrow> 0 < ws_pipe (z_worker z) \<Longrightarrow>
    zstep P android z (z\<lparr>z_worker := stop (z_worker z)\<lparr>ws_reader := Read_Test,
      ws_pipe := ws_pipe (z_worker z) - 64\<rparr>\<rparr>)"
| reply_written: "at_loop i (Loop_Write m reply) (z_worker z) \<Longrightarrow> ws_connected (z_worker z) \<Longrightarrow>
    zstep P android z (z\<lparr>z_worker := loop_to i Loop_Test
        ((z_worker z)\<lparr>ws_outbox := ws_outbox (z_worker z) @ [reply],
          ws_answered := ws_answered (z_worker z) @ [m]\<rparr>),
      z_replies := z_replies z @ [reply]\<rparr>)"
| reply_fails: "at_loop i (Loop_Write m reply) (z_worker z) \<Longrightarrow>
    zstep P android z (z\<lparr>z_worker := loop_to i Loop_Test
        (stop (z_worker z)\<lparr>ws_unanswered := ws_unanswered (z_worker z) @ [m]\<rparr>)\<rparr>)"

inductive zreach :: "'w posix \<Rightarrow> bool \<Rightarrow> u16 \<Rightarrow> 'w zsys \<Rightarrow> bool"
  for P :: "'w posix" and android :: bool and threads :: u16 where
  start: "zreach P android threads (zsys_init threads w)"
| step: "zreach P android threads z \<Longrightarrow> zstep P android z z' \<Longrightarrow> zreach P android threads z'"

section \<open>Each machine runs as it does alone\<close>

lemma zstep_machines:
  "zstep P android z z' \<Longrightarrow>
   cstep\<^sup>=\<^sup>= (z_commander z) (z_commander z')
   \<and> (z_worker z' = z_worker z \<or> (\<exists>a. wstep P android a (z_worker z) (z_worker z')))"
  by (induction rule: zstep.induct) (auto intro: cstep.intros wstep.intros)

lemma zreach_machines:
  "zreach P android threads z \<Longrightarrow> creach (z_commander z) \<and> wreach P android threads (z_worker z)"
proof (induction rule: zreach.induct)
  case (start w)
  then show ?case by (simp add: zsys_init_def creach.start wreach.start)
next
  case (step z z')
  with zstep_machines [OF step(2)] show ?case by (auto intro: creach.step wreach.step)
qed

section \<open>What the worker answers is what the command gave\<close>

definition carried_out :: "'w posix \<Rightarrow> bool \<Rightarrow> message \<Rightarrow> message \<Rightarrow> bool" where
  "carried_out P android m reply \<longleftrightarrow> (\<exists>s s'. do_command P android m s = (Inr reply, s'))"

fun writes_result :: "'w posix \<Rightarrow> bool \<Rightarrow> handler_loop \<Rightarrow> bool" where
  "writes_result P android (Loop_Write m reply) = carried_out P android m reply"
| "writes_result P android _ = True"

definition result_inv :: "'w posix \<Rightarrow> bool \<Rightarrow> 'w wsys \<Rightarrow> bool" where
  "result_inv P android s \<longleftrightarrow>
     list_all2 (carried_out P android) (ws_answered s) (ws_outbox s)
     \<and> (\<forall>p \<in> set (ws_loops s). writes_result P android p)"

lemma result_inv_step: "wstep P android a s s' \<Longrightarrow> result_inv P android s \<Longrightarrow> result_inv P android s'"
proof (induction rule: wstep.induct)
  case (do_it i m s e reply wk w)
  then have "carried_out P android m reply" unfolding carried_out_def by blast
  with do_it.prems show ?case by (auto simp: result_inv_def dest!: in_set_update)
next
  case (write_reply i m reply s)
  then have "carried_out P android m reply"
    unfolding result_inv_def at_loop_def by (metis nth_mem writes_result.simps(1))
  with write_reply show ?case
    by (auto simp: result_inv_def list_all2_appendI dest!: in_set_update)
qed (auto simp: result_inv_def dest!: in_set_update)

lemma wreach_result_inv: "wreach P android threads s \<Longrightarrow> result_inv P android s"
  by (induction rule: wreach.induct) (simp add: result_inv_def wsys_init_def, blast intro: result_inv_step)

lemma outbox_carried_out:
  assumes "wreach P android threads s" "reply \<in> set (ws_outbox s)"
  obtains m where "m \<in> set (ws_answered s)" "carried_out P android m reply"
  using wreach_result_inv [OF assms(1)] assms(2)
  by (auto simp: result_inv_def list_all2_conv_all_nth in_set_conv_nth) blast

lemma carried_out_id: "carried_out P android m reply \<Longrightarrow> msg_id reply = msg_id m"
  by (auto simp: carried_out_def dest!: do_command_answers simp: answers_def)

lemma answered_was_received:
  assumes "wreach P android threads s" "m \<in> set (ws_answered s)"
  shows "m \<in> set (ws_taken s)" "m \<in> set (ws_received s)"
proof -
  have "mset (ws_answered s) \<subseteq># mset (ws_taken s)"
    using wreach_inv(2) [OF assms(1)] by (simp add: count_inv_def)
  then show "m \<in> set (ws_taken s)" using assms(2) by (meson mset_subset_eqD set_mset_mset in_multiset_in_set)
  with wreach_inv(1) [OF assms(1)] show "m \<in> set (ws_received s)" by (simp add: order_inv_def)
qed

section \<open>The connection\<close>

text \<open>
  \<open>wire_inv\<close>: each direction is a queue. \<open>sent_inv\<close>: a command carries the id of its future, every
  future is used for one command at most, and a caller about to send has a future of its own.
  \<open>response_inv\<close>: a result in a future was read from the connection.
\<close>

definition wire_inv :: "'w zsys \<Rightarrow> bool" where
  "wire_inv z \<longleftrightarrow> map snd (z_sent z) = ws_received (z_worker z) @ z_commands z
     \<and> ws_outbox (z_worker z) = z_delivered z @ z_replies z"

definition sent_inv :: "csys \<Rightarrow> (nat \<times> message) list \<Rightarrow> bool" where
  "sent_inv c sent \<longleftrightarrow> distinct (map fst sent)
     \<and> (\<forall>(k, m) \<in> set sent. k < length (cs_ids c) \<and> cs_ids c ! k = msg_id m)
     \<and> (\<forall>t ident k closing. cs_caller c t = Sending ident k closing \<longrightarrow>
          k < length (cs_ids c) \<and> k \<notin> fst ` set sent
          \<and> (\<forall>u ident' closing'. cs_caller c u = Sending ident' k closing' \<longrightarrow> u = t))"

definition response_inv :: "csys \<Rightarrow> message list \<Rightarrow> bool" where
  "response_inv c delivered \<longleftrightarrow>
     (\<forall>k < length (cm_futures (cs_cm c)). \<forall>m. cm_futures (cs_cm c) ! k = Some (Inr m) \<longrightarrow>
        m \<in> set delivered)"

lemma worker_quiet_wire:
  "wstep P android a w w' \<Longrightarrow> worker_quiet w w' \<Longrightarrow>
   ws_received w' = ws_received w \<and> ws_outbox w' = ws_outbox w"
proof (induction rule: wstep.induct)
  case (write_reply i m reply s)
  then have "at_loop i (Loop_Write m reply) (loop_to i Loop_Test
      (s\<lparr>ws_outbox := ws_outbox s @ [reply], ws_answered := ws_answered s @ [m]\<rparr>))"
    unfolding worker_quiet_def by blast
  then show ?case by (auto simp: at_loop_def)
qed (simp_all add: worker_quiet_def)

lemma wire_inv_step: "zstep P android z z' \<Longrightarrow> wire_inv z \<Longrightarrow> wire_inv z'"
  by (induction rule: zstep.induct) (auto simp: wire_inv_def dest: worker_quiet_wire)

lemma sent_inv_caller:
  assumes "sent_inv c sent" "cs_caller c t = Sending ident k closing"
  shows "k < length (cs_ids c)" "k \<notin> fst ` set sent"
  using assms unfolding sent_inv_def by blast+

lemma sent_inv_unique:
  "sent_inv c sent \<Longrightarrow> cs_caller c t = Sending ident k closing \<Longrightarrow>
   cs_caller c u = Sending ident' k closing' \<Longrightarrow> u = t"
  unfolding sent_inv_def by blast

lemma sent_invI:
  assumes "distinct (map fst sent)"
    and "\<forall>(k, m) \<in> set sent. k < length (cs_ids c) \<and> cs_ids c ! k = msg_id m"
    and "\<And>t ident k closing. cs_caller c t = Sending ident k closing \<Longrightarrow>
      k < length (cs_ids c) \<and> k \<notin> fst ` set sent"
    and "\<And>t u ident k closing ident' closing'. cs_caller c t = Sending ident k closing \<Longrightarrow>
      cs_caller c u = Sending ident' k closing' \<Longrightarrow> u = t"
  shows "sent_inv c sent"
  unfolding sent_inv_def using assms(3) by (intro conjI allI impI assms(1,2)) (blast intro: assms(4))+

lemma sent_inv_less:
  assumes "sent_inv c sent" "cs_ids c' = cs_ids c"
    and "\<And>t ident k closing. cs_caller c' t = Sending ident k closing \<Longrightarrow>
      cs_caller c t = Sending ident k closing"
  shows "sent_inv c' sent"
proof (rule sent_invI)
  show "distinct (map fst sent)"
    and "\<forall>(k, m) \<in> set sent. k < length (cs_ids c') \<and> cs_ids c' ! k = msg_id m"
    using assms(1,2) by (simp_all add: sent_inv_def)
next
  fix t u ident k closing ident' closing'
  assume t: "cs_caller c' t = Sending ident k closing"
  from sent_inv_caller [OF assms(1) assms(3) [OF this]]
  show "k < length (cs_ids c') \<and> k \<notin> fst ` set sent" by (simp add: assms(2))
  assume u: "cs_caller c' u = Sending ident' k closing'"
  show "u = t" by (rule sent_inv_unique [OF assms(1) assms(3) [OF t] assms(3) [OF u]])
qed

lemma sent_inv_register:
  assumes inv: "sent_inv c sent" "id_inv c" and reg: "register_promise ident (cs_cm c) = (Inr k, cm)"
    and c': "c' = caller_to t (Sending ident k closing) (with_cm cm c\<lparr>cs_ids := cs_ids c @ [ident]\<rparr>)"
  shows "sent_inv c' sent"
proof (rule sent_invI)
  have k: "k = length (cs_ids c)"
    using inv(2) reg by (auto simp: register_promise_def id_inv_def Let_def split: if_splits)
  have ids: "cs_ids c' = cs_ids c @ [ident]" by (simp add: c')
  have sent: "\<forall>(l, m) \<in> set sent. l < length (cs_ids c) \<and> cs_ids c ! l = msg_id m"
    using inv(1) by (simp add: sent_inv_def)
  show "distinct (map fst sent)" using inv(1) by (simp add: sent_inv_def)
  show "\<forall>(l, m) \<in> set sent. l < length (cs_ids c') \<and> cs_ids c' ! l = msg_id m"
    using sent by (auto simp: ids nth_append)
  have callers: "u = t \<and> l = k \<or> u \<noteq> t \<and> cs_caller c u = Sending i l b"
    if "cs_caller c' u = Sending i l b" for u i l b
    using that by (auto simp: c' split: if_splits)
  have old: "l < k \<and> l \<notin> fst ` set sent" if "cs_caller c u = Sending i l b" for u i l b
    using sent_inv_caller [OF inv(1) that] by (simp add: k)
  have new: "k \<notin> fst ` set sent" using sent by (auto simp: k)
  show "l < length (cs_ids c') \<and> l \<notin> fst ` set sent"
    if "cs_caller c' u = Sending i l b" for u i l b
    using callers [OF that]
  proof (elim disjE conjE)
    assume "cs_caller c u = Sending i l b"
    from old [OF this] show ?thesis by (simp add: ids k)
  qed (simp add: ids k new [unfolded k])
  show "v = u" if one: "cs_caller c' u = Sending i l b" and two: "cs_caller c' v = Sending i' l b'"
    for u v i l b i' b'
  proof -
    consider "u = t" "v = t" | "l < k" "l = k"
      | "cs_caller c u = Sending i l b" "cs_caller c v = Sending i' l b'"
      using callers [OF one] callers [OF two] old by blast
    then show ?thesis
    proof cases
      case 3
      then show ?thesis by (rule sent_inv_unique [OF inv(1)])
    qed simp_all
  qed
qed

lemma sent_inv_quiet:
  "cstep c c' \<Longrightarrow> commander_quiet c c' \<Longrightarrow> id_inv c \<Longrightarrow> sent_inv c sent \<Longrightarrow> sent_inv c' sent"
proof (induction rule: cstep.induct)
  case (registered s t ident closing k cm)
  then show ?case by (intro sent_inv_register [OF _ _ _ refl])
qed (rule sent_inv_less, assumption, simp, auto simp: commander_quiet_def split: if_splits)+

text \<open>A result enters a future only in the step that delivers it.\<close>

lemma response_result:
  assumes "table_inv c" "cs_reader c = Reading" "on_response m (cs_cm c) = (Inr (), cm)"
    and "cm_futures cm ! k = Some (Inr r)" "k < length (cm_futures cm)"
  shows "k < length (cm_futures (cs_cm c)) \<and> (cm_futures (cs_cm c) ! k = Some (Inr r) \<or> r = m)"
proof -
  have inv: "promises_ok (cs_cm c)" "entries_unset (cs_cm c)"
    using assms(1,2) by (auto simp: table_inv_def serving_def)
  obtain j where "cm = (cs_cm c)\<lparr>cm_futures := (cm_futures (cs_cm c))[j := Some (response_outcome m)],
         cm_promises := map_erase (msg_id m) (cm_promises (cs_cm c))\<rparr>"
    using response_facts [OF inv assms(3)] by blast
  with assms(4,5) show ?thesis
    by (cases "j = k") (auto simp: response_outcome_def split: if_splits)
qed

lemma quiet_result:
  "cstep c c' \<Longrightarrow> commander_quiet c c' \<Longrightarrow> table_inv c \<Longrightarrow> k < length (cm_futures (cs_cm c')) \<Longrightarrow>
   cm_futures (cs_cm c') ! k = Some (Inr r) \<Longrightarrow>
   k < length (cm_futures (cs_cm c)) \<and> cm_futures (cs_cm c) ! k = Some (Inr r)"
proof (induction rule: cstep.induct)
  case (registered s t ident closing j cm)
  note f = register_result [OF register_accepted [OF registered.hyps(2)] registered.hyps(2)]
  from registered.prems f show ?case by (auto simp: nth_append less_Suc_eq split: if_splits)
next
  case (fail_all s e cm)
  then have inv: "promises_ok (cs_cm s)" "entries_unset (cs_cm s)"
    by (auto simp: table_inv_def serving_def)
  from fail_facts [OF inv fail_all.hyps(2)] fail_all.prems show ?case by (auto split: if_splits)
qed (auto simp: commander_quiet_def dest!: register_refused on_response_throws)

lemma response_inv_same:
  "response_inv c ds \<Longrightarrow> cm_futures (cs_cm c') = cm_futures (cs_cm c) \<Longrightarrow> set ds \<subseteq> set ds' \<Longrightarrow>
   response_inv c' ds'"
  unfolding response_inv_def by auto

lemma zstep_session_inv:
  assumes "zstep P android z z'" "table_inv (z_commander z)" "id_inv (z_commander z)"
    "caller_inv (z_commander z)"
    and "sent_inv (z_commander z) (z_sent z)" "response_inv (z_commander z) (z_delivered z)"
  shows "sent_inv (z_commander z') (z_sent z') \<and> response_inv (z_commander z') (z_delivered z')"
  using assms
proof (induction rule: zstep.induct)
  case (commander_moves z c)
  then have "response_inv c (z_delivered z)"
    using quiet_result [OF commander_moves.hyps commander_moves.prems(1)]
    unfolding response_inv_def by blast
  with commander_moves show ?case by (simp add: sent_inv_quiet)
next
  case (command_sent z t ident k closing m)
  let ?c = "caller_to t (Waiting ident k closing) (z_commander z)"
  have new: "k < length (cs_ids (z_commander z))" "k \<notin> fst ` set (z_sent z)"
    using sent_inv_caller [OF command_sent.prems(4) command_sent.hyps(1)] by simp_all
  have ident: "cs_ids (z_commander z) ! k = ident"
    using command_sent.prems(3) command_sent.hyps(1) by (metis caller_inv_def caller_ok.simps(1))
  have "sent_inv ?c (z_sent z @ [(k, m)])"
  proof (rule sent_invI)
    fix u i l b
    assume "cs_caller ?c u = Sending i l b"
    then have u: "u \<noteq> t" "cs_caller (z_commander z) u = Sending i l b" by (auto split: if_splits)
    have "l \<noteq> k" using sent_inv_unique [OF command_sent.prems(4) command_sent.hyps(1)] u by blast
    with sent_inv_caller [OF command_sent.prems(4) u(2)]
    show "l < length (cs_ids ?c) \<and> l \<notin> fst ` set (z_sent z @ [(k, m)])" by simp
    fix v i' b'
    assume "cs_caller ?c v = Sending i' l b'"
    then show "v = u"
      by (intro sent_inv_unique [OF command_sent.prems(4) u(2)]) (simp split: if_splits)
  qed (use command_sent.prems(4) command_sent.hyps(2) new ident in \<open>auto simp: sent_inv_def\<close>)
  moreover have "response_inv ?c (z_delivered z)"
    by (rule response_inv_same [OF command_sent.prems(5)]) simp_all
  ultimately show ?case by simp
next
  case (response_read z m rest cm)
  have "response_inv (reader_to Testing (with_cm cm (z_commander z))) (z_delivered z @ [m])"
    using response_result [OF response_read.prems(1) response_read.hyps(1,3)] response_read.prems(5)
    unfolding response_inv_def by fastforce
  moreover have "sent_inv (reader_to Testing (with_cm cm (z_commander z))) (z_sent z)"
    by (rule sent_inv_less [OF response_read.prems(4)]) simp_all
  ultimately show ?case by simp
next
  case (response_refused z m rest e cm)
  then have "cm = cs_cm (z_commander z)" by (auto dest: on_response_throws)
  with response_refused.prems show ?case
    by (auto intro: sent_inv_less response_inv_same)
qed (auto intro: sent_inv_less response_inv_same split: if_splits)

lemma zreach_inv:
  "zreach P android threads z \<Longrightarrow>
   wire_inv z \<and> sent_inv (z_commander z) (z_sent z) \<and> response_inv (z_commander z) (z_delivered z)"
proof (induction rule: zreach.induct)
  case (start w)
  then show ?case
    by (simp add: zsys_init_def wire_inv_def wsys_init_def sent_inv_def response_inv_def csys_init_def
        new_commander_def)
next
  case (step z z')
  have "table_inv (z_commander z)" "id_inv (z_commander z)" "caller_inv (z_commander z)"
    using zreach_machines [OF step(1)] creach_inv by blast+
  with step zstep_session_inv [OF step(2)] wire_inv_step [OF step(2)] show ?case by blast
qed

text \<open>The commands sent have different ids as long as the calls have.\<close>

lemma sent_ids_distinct:
  assumes "sent_inv c sent" "distinct (cs_ids c)"
  shows "distinct (map (msg_id \<circ> snd) sent)"
proof -
  have fst: "distinct (map fst sent)" using assms(1) by (simp add: sent_inv_def)
  have "inj_on (\<lambda>k. cs_ids c ! k) (set (map fst sent))"
    using assms(1) by (intro inj_on_nth [OF assms(2)]) (auto simp: sent_inv_def)
  with fst have "distinct (map (\<lambda>k. cs_ids c ! k) (map fst sent))" by (simp only: distinct_map)
  moreover have "map (msg_id \<circ> snd) sent = map (\<lambda>k. cs_ids c ! k) (map fst sent)"
    using assms(1) by (auto simp: sent_inv_def)
  ultimately show ?thesis by (simp only:)
qed

lemma sent_same_id:
  assumes "sent_inv c sent" "distinct (cs_ids c)" "(k, m) \<in> set sent" "(l, m') \<in> set sent"
    "msg_id m = msg_id m'"
  shows "m = m'"
proof -
  have "inj_on (msg_id \<circ> snd) (set sent)"
    using sent_ids_distinct [OF assms(1,2)] by (simp add: distinct_map)
  from inj_onD [OF this, of "(k, m)" "(l, m')"] assms(3-5) show ?thesis by simp
qed

lemma result_carried_out:
  assumes reach: "zreach P android threads z" and ids: "distinct (cs_ids (z_commander z))"
    and sent: "(k, m) \<in> set (z_sent z)"
    and result: "cm_futures (cs_cm (z_commander z)) ! k = Some (Inr reply)"
  shows "carried_out P android m reply \<and> m \<in> set (ws_taken (z_worker z))"
proof -
  note machines = zreach_machines [OF reach] and inv = zreach_inv [OF reach]
  have id_inv: "id_inv (z_commander z)" using machines creach_inv by blast
  have k: "k < length (cs_ids (z_commander z))" "cs_ids (z_commander z) ! k = msg_id m"
    using inv sent by (auto simp: sent_inv_def)
  have "reply \<in> set (z_delivered z)"
    using inv k(1) id_inv result by (simp add: response_inv_def id_inv_def)
  then have "reply \<in> set (ws_outbox (z_worker z))" using inv by (simp add: wire_inv_def)
  then obtain m' where m': "m' \<in> set (ws_answered (z_worker z))" "carried_out P android m' reply"
    using outbox_carried_out machines by metis
  note received = answered_was_received [OF conjunct2 [OF machines] m'(1)]
  then have "m' \<in> set (map snd (z_sent z))" using inv by (simp add: wire_inv_def)
  then obtain l where l: "(l, m') \<in> set (z_sent z)" by auto
  have same: "msg_id m = msg_id m'"
  proof -
    have "msg_id reply = cs_ids (z_commander z) ! k" using id_inv k(1) result by (simp add: id_inv_def)
    with carried_out_id [OF m'(2)] k(2) show ?thesis by metis
  qed
  have "sent_inv (z_commander z) (z_sent z)" using inv by simp
  from sent_same_id [OF this ids sent l same] m' received show ?thesis by simp
qed

lemma taken_once:
  assumes reach: "zreach P android threads z" and ids: "distinct (cs_ids (z_commander z))"
  shows "distinct (ws_taken (z_worker z))
    \<and> (\<exists>rest. map snd (z_sent z) = ws_taken (z_worker z) @ rest)"
proof -
  have inv: "wire_inv z" "sent_inv (z_commander z) (z_sent z)" using zreach_inv [OF reach] by simp_all
  have "order_inv (z_worker z)" using zreach_machines [OF reach] wreach_inv(1) by blast
  with inv(1) have sent: "map snd (z_sent z)
      = ws_taken (z_worker z) @ q_items (ws_queue (z_worker z)) @ z_commands z"
    by (simp add: wire_inv_def order_inv_def)
  have "distinct (map msg_id (map snd (z_sent z)))"
    using sent_ids_distinct [OF inv(2) ids] by (simp only: map_map)
  then have "distinct (map snd (z_sent z))" by (simp only: distinct_map)
  with sent show ?thesis by simp
qed

section \<open>A run\<close>

abbreviation one_caller :: "commander \<Rightarrow> reader \<Rightarrow> caller \<Rightarrow> u32 list \<Rightarrow> csys" where
  "one_caller cm r p ids \<equiv> \<lparr>cs_cm = cm, cs_reader = r, cs_caller = (\<lambda>_. Idle)(0 := p), cs_ids = ids,
     cs_hung_up = False\<rparr>"

abbreviation loop_worker ::
    "worker \<Rightarrow> message list \<Rightarrow> msg_reader \<Rightarrow> handler_loop \<Rightarrow> message list \<Rightarrow> message list \<Rightarrow> message list
       \<Rightarrow> message list \<Rightarrow> unit wsys" where
  "loop_worker wk q r p out received taken answered \<equiv>
     \<lparr>ws_worker = wk, ws_pipe = 0, ws_connected = True, ws_os = (),
      ws_queue = \<lparr>q_shutdown = False, q_items = q\<rparr>, ws_reader = r,
      ws_loops = [p], ws_closers = [], ws_outbox = out, ws_received = received, ws_taken = taken,
      ws_answered = answered, ws_unanswered = []\<rparr>"

abbreviation bye :: message where "bye \<equiv> \<lparr>msg_id = 0, msg_type = 0, msg_data = []\<rparr>"

abbreviation run_state ::
    "csys \<Rightarrow> unit wsys \<Rightarrow> message list \<Rightarrow> message list \<Rightarrow> (nat \<times> message) list \<Rightarrow> message list \<Rightarrow> bool" where
  "run_state c w commands replies sent delivered \<equiv>
     zreach (failing_posix EIO) False 1 \<lparr>z_commander = c, z_worker = w, z_commands = commands,
       z_replies = replies, z_sent = sent, z_delivered = delivered\<rparr>"

lemma zrun_step:
  "zreach P android threads z \<Longrightarrow> zstep P android z z' \<Longrightarrow> z' = z'' \<Longrightarrow> zreach P android threads z''"
  by (blast intro: zreach.step)

lemma do_bye:
  "do_command P android bye (new_worker, w) = (Inr bye, (new_worker\<lparr>wk_should_stop := True\<rparr>, w))"
  by (simp add: do_command_def dispatch_def disconnect_command_def Let_def)

text \<open>Thread 0 disconnects: its command is registered and sent.\<close>

lemma bye_sent:
  "run_state (one_caller (open_cm 1 [(0, 0)] [None]) Reading (Waiting 0 0 True) [0])
     (loop_worker new_worker [] Read_Test Loop_Test [] [] [] []) [bye] [] [(0, bye)] []"
proof -
  let ?w = "loop_worker new_worker [] Read_Test Loop_Test [] [] [] []"
  have "run_state (one_caller (open_cm 0 [] []) Testing Idle []) ?w [] [] [] []"
    using zreach.start [of "failing_posix EIO" False 1 "()"]
    by (simp add: zsys_init_def csys_init_def wsys_init_def new_commander_def map_empty_def new_queue_def
        handler_loops_def fun_upd_idem)
  then have "run_state (one_caller (open_cm 1 [] []) Testing (Has_Id 0 True) []) ?w [] [] [] []"
    by (rule zrun_step)
      (rule zstep.commander_moves, rule cstep.call [where t = 0 and closing = True],
        simp_all add: csys_simps commander_quiet_def)
  then have "run_state (one_caller (open_cm 1 [(0, 0)] [None]) Testing (Sending 0 0 True) [0]) ?w [] [] [] []"
    by (rule zrun_step)
      (rule zstep.commander_moves,
        rule cstep.registered [where t = 0 and ident = 0 and k = 0 and closing = True],
        simp_all add: register_promise_def csys_simps commander_quiet_def)
  then have "run_state (one_caller (open_cm 1 [(0, 0)] [None]) Testing (Waiting 0 0 True) [0]) ?w
      [bye] [] [(0, bye)] []"
    by (rule zrun_step)
      (rule zstep.command_sent [where t = 0 and ident = 0 and k = 0 and closing = True and m = bye],
        simp_all add: csys_simps)
  then show ?thesis
    by (rule zrun_step)
      (rule zstep.commander_moves, rule cstep.reader_go, simp_all add: csys_simps commander_quiet_def)
qed

text \<open>The worker reads it, carries it out and answers; the commander reads the answer.\<close>

lemma bye_answered:
  "run_state (one_caller (open_cm 1 [] [Some (Inr bye)]) Testing (Waiting 0 0 True) [0])
     (loop_worker (new_worker\<lparr>wk_should_stop := True\<rparr>) [] Read_Test Loop_Test [bye] [bye] [bye] [bye])
     [] [] [(0, bye)] [bye]"
proof -
  let ?c = "one_caller (open_cm 1 [(0, 0)] [None]) Reading (Waiting 0 0 True) [0]"
  let ?wk = "new_worker\<lparr>wk_should_stop := True\<rparr>"
  note bye_sent
  then have "run_state ?c (loop_worker new_worker [] Read_Try Loop_Test [] [] [] []) [bye] [] [(0, bye)] []"
    by (rule zrun_step)
      (rule zstep.worker_moves, rule wstep.read_test, auto simp: worker_quiet_def at_loop_def new_worker_def)
  then have "run_state ?c (loop_worker new_worker [bye] Read_Test Loop_Test [] [bye] [] []) [] [] [(0, bye)] []"
    by (rule zrun_step)
      (rule zstep.command_read [where m = bye and rest = "[]"], simp_all add: queue_push_move_def)
  then have "run_state ?c (loop_worker new_worker [bye] Read_Test Loop_Pop [] [bye] [] []) [] [] [(0, bye)] []"
    by (rule zrun_step)
      (rule zstep.worker_moves, rule wstep.loop_test [where i = 0],
        auto simp: worker_quiet_def at_loop_def new_worker_def loop_to_def)
  then have "run_state ?c (loop_worker new_worker [] Read_Test (Loop_Do bye) [] [bye] [bye] []) [] [] [(0, bye)] []"
    by (rule zrun_step)
      (rule zstep.worker_moves, rule wstep.pop [where i = 0 and m = bye],
        auto simp: worker_quiet_def at_loop_def loop_to_def queue_pop_cases)
  then have "run_state ?c (loop_worker ?wk [] Read_Test (Loop_Write bye bye) [] [bye] [bye] []) [] [] [(0, bye)] []"
    by (rule zrun_step)
      (rule zstep.worker_moves, rule wstep.do_it [where i = 0 and m = bye and e = 0],
        auto simp: worker_quiet_def at_loop_def loop_to_def do_bye)
  then have "run_state ?c (loop_worker ?wk [] Read_Test Loop_Test [bye] [bye] [bye] [bye]) [] [bye] [(0, bye)] []"
    by (rule zrun_step)
      (rule zstep.reply_written [where i = 0 and m = bye and reply = bye], simp_all add: at_loop_def loop_to_def)
  then show ?thesis
    by (rule zrun_step)
      (rule zstep.response_read [where m = bye and rest = "[]"],
        simp_all add: csys_simps on_response_def map_at_def map_find_def satisfy_def response_outcome_def
          map_erase_def)
qed

section \<open>Properties\<close>

text \<open>
  C4. However the threads of the commander, the threads of the worker and the connection interleave: a
  result that reaches the future of a call is a reply that \<open>_do_command\<close> gave for the command that
  call sent, as long as no two of the calls so far have the same id (the counter has 32 bits).
\<close>

theorem concurrent_call_gets_its_answer:
  assumes "zreach P android threads z" "distinct (cs_ids (z_commander z))"
    and "(k, m) \<in> set (z_sent z)" "cm_futures (cs_cm (z_commander z)) ! k = Some (Inr reply)"
  shows "(\<exists>s s'. do_command P android m s = (Inr reply, s')) \<and> m \<in> set (ws_taken (z_worker z))"
  using result_carried_out [OF assms] by (simp add: carried_out_def)

theorem concurrent_call_gets_its_answer_witness:
  "\<exists>z. zreach (failing_posix EIO :: unit posix) False 1 z \<and> z_sent z = [(0, bye)]
     \<and> cm_futures (cs_cm (z_commander z)) ! 0 = Some (Inr bye) \<and> bye \<in> set (ws_taken (z_worker z))"
  by (rule exI, rule conjI, rule bye_answered)
    (use concurrent_call_gets_its_answer [OF bye_answered, of 0 bye bye] in simp)

text \<open>
  C5. The commands the worker has taken are a beginning of the commands that were sent, in their order, and
  none of them was taken twice, under the same condition on the ids.
\<close>

theorem commands_carried_out_at_most_once:
  assumes "zreach P android threads z" "distinct (cs_ids (z_commander z))"
  shows "distinct (ws_taken (z_worker z))
    \<and> (\<exists>rest. map snd (z_sent z) = ws_taken (z_worker z) @ rest)"
  using assms by (rule taken_once)

theorem commands_carried_out_at_most_once_witness:
  "\<exists>z. zreach (failing_posix EIO :: unit posix) False 1 z \<and> ws_taken (z_worker z) = [bye]
     \<and> distinct (ws_taken (z_worker z)) \<and> (\<exists>rest. map snd (z_sent z) = [bye] @ rest)"
  by (rule exI, rule conjI, rule bye_answered)
    (use commands_carried_out_at_most_once [OF bye_answered] in simp)

end
