(* ===== verification/Worker_Lifecycle.thy ===== *)
theory Worker_Lifecycle
  imports Worker_System Message_Transport
begin

text \<open>
  \<open>worker/Worker\<close>: the constructor and the destructor, with every member the object owns. What the
  threads do in between is in \<open>Worker_System\<close>. \<open>handle\<close> is the task that runs \<open>_handle_messages\<close>.
\<close>

record 's worker_object =
  wo_worker :: worker
  wo_transport :: transport
  wo_messages :: "message cqueue"
  wo_pool :: "'s thread_pool"

primrec submit_times :: "nat \<Rightarrow> 's task \<Rightarrow> 's thread_pool \<Rightarrow> unit result \<times> 's thread_pool" where
  "submit_times 0 handle p = (Inr (), p)"
| "submit_times (Suc n) handle p =
     (case submit handle p of
        (Inl e, p1) \<Rightarrow> (Inl e, p1)
      | (Inr _, p1) \<Rightarrow> submit_times n handle p1)"

definition worker_new ::
    "'w net \<Rightarrow> u32 \<Rightarrow> 's task \<Rightarrow> string \<Rightarrow> u16 \<Rightarrow> ('s worker_object result, 'w) call" where
  "worker_new N concurrency handle host port w =
     (case transport_new N host port w of
        (Inl e, w1) \<Rightarrow> (Inl e, w1)
      | (Inr t, w1) \<Rightarrow>
          let pool = new_thread_pool (worker_pool_size concurrency)
          in case submit_times (handler_loops (pool_size pool)) handle pool of
               (Inl e, pool1) \<Rightarrow> (Inl e, delete_transport N t w1)
             | (Inr _, pool1) \<Rightarrow>
                 (Inr \<lparr>wo_worker = new_worker, wo_transport = t, wo_messages = new_queue,
                       wo_pool = pool1\<rparr>, w1))"

text \<open>
  The destructor: what \<open>close\<close> throws is logged; then the members are destroyed, the last one first.
  The threads have been joined by then.
\<close>

definition delete_worker ::
    "'w posix \<Rightarrow> 'w net \<Rightarrow> 's worker_object \<Rightarrow> 'w world \<Rightarrow> 's worker_object \<times> 'w world" where
  "delete_worker P N obj w =
     (case worker_close N (wo_worker obj, wo_transport obj, wo_messages obj) w of
        (_, (wk, t, q), w1) \<Rightarrow>
          let w2 = delete_transport N t w1;
              w3 = delete_dir_handler P (wk_dir_handler wk) w2;
              w4 = delete_file_handler P (wk_file_handler wk) w3
          in (\<lparr>wo_worker = wk, wo_transport = t, wo_messages = delete_queue q,
               wo_pool = delete_thread_pool (wo_pool obj)\<rparr>, w4))"

section \<open>A new worker\<close>

lemma submit_times_open:
  "\<not> q_shutdown (tp_queue p) \<Longrightarrow>
   submit_times n handle p
     = (Inr (), p\<lparr>tp_queue := (tp_queue p)\<lparr>q_items := q_items (tp_queue p) @ replicate n handle\<rparr>\<rparr>)"
  by (induction n arbitrary: p) (simp_all add: submit_def queue_push_def replicate_app_Cons_same)

lemma pool_size_new: "pool_size (new_thread_pool n) = n"
  by (simp add: pool_size_def new_thread_pool_def)

lemma worker_new_cases:
  assumes "worker_new N concurrency handle host port w = (r, w')"
  obtains (failed) e where "transport_new N host port w = (Inl e, w')" "r = Inl e"
    | (started) t where "transport_new N host port w = (Inr t, w')"
      "r = Inr \<lparr>wo_worker = new_worker, wo_transport = t, wo_messages = new_queue,
         wo_pool = \<lparr>tp_queue = \<lparr>q_shutdown = False,
             q_items = replicate (handler_loops (worker_pool_size concurrency)) handle\<rparr>,
           tp_threads = unat (worker_pool_size concurrency)\<rparr>\<rparr>"
proof -
  have "submit_times n handle (new_thread_pool k)
      = (Inr (), \<lparr>tp_queue = \<lparr>q_shutdown = False, q_items = replicate n handle\<rparr>, tp_threads = unat k\<rparr>)"
    for n k
    by (simp add: submit_times_open new_thread_pool_def new_queue_def)
  with assms failed started show thesis
    by (auto simp: worker_new_def Let_def pool_size_new split: prod.splits sum.splits)
qed

end
