(* ===== verification/Zcworkerd.thy ===== *)
theory Zcworkerd
  imports Decimal Worker_Lifecycle
begin

text \<open>
  \<open>zcworkerd/main\<close>: the arguments of the worker daemon and the worker it runs. \<open>Runs\<close> is the worker
  that is constructed; an exception is printed and the program ends normally.
\<close>

datatype main_end = Usage | Runs string u16 | Prints exn

definition zcworkerd_main :: "string list \<Rightarrow> main_end" where
  "zcworkerd_main argv =
     (if length argv < 3 then Usage
      else (case stoi (c_str (argv ! 2)) of
              Inl e \<Rightarrow> Prints e
            | Inr port \<Rightarrow> Runs (c_str (argv ! 1)) (word_of_int port)))"

text \<open>\<open>main\<close> has no \<open>return\<close> after its \<open>catch\<close> blocks: it then returns 0.\<close>

fun exit_code :: "main_end \<Rightarrow> nat" where
  "exit_code Usage = 1"
| "exit_code _ = 0"

text \<open>
  \<open>worker\<close>: the worker is constructed and waited for, and destroyed when \<open>wait\<close> returns. \<open>serve\<close> is
  what its threads do until then.
\<close>

definition run_worker ::
    "'w posix \<Rightarrow> 'w net \<Rightarrow> u32 \<Rightarrow> 's task \<Rightarrow> ('s worker_object \<Rightarrow> ('s worker_object, 'w) call) \<Rightarrow> string list
       \<Rightarrow> (main_end, 'w) call" where
  "run_worker P N concurrency handle serve argv w =
     (case zcworkerd_main argv of
        Runs host port \<Rightarrow>
          (case worker_new N concurrency handle host port w of
             (Inl e, w1) \<Rightarrow> (Prints e, w1)
           | (Inr obj, w1) \<Rightarrow>
               (case serve obj w1 of (obj1, w2) \<Rightarrow> (Runs host port, snd (delete_worker P N obj1 w2))))
      | r \<Rightarrow> (r, w))"

text \<open>The port is narrowed without a check.\<close>

lemma zcworkerd_port:
  "int n < 2 ^ 31 \<Longrightarrow>
   zcworkerd_main [prog, host, to_string n] = Runs (c_str host) (word_of_nat n)"
  by (simp add: zcworkerd_main_def to_string_no_nul stoi_to_string)

end
