(* ===== verification/Daemon_System.thy ===== *)
theory Daemon_System
  imports Zcworkerd
begin

text \<open>
  \<open>zcworkerd/main\<close> while it runs: the main thread constructs the worker, sets \<open>shutdown_function\<close>, installs
  the handlers of the two signals, waits and destroys the worker, while the worker's threads run and signals
  arrive at any time. A handler calls \<open>close\<close> through \<open>shutdown_function\<close>, which refers to the local
  variable of \<open>worker\<close>; neither is ever reset. \<open>close\<close> takes its steps in \<open>Worker_System\<close>, whether a
  handler or the destructor has called it; the calls of handlers are in \<open>ds_handlers\<close>. Its members are alive
  until the threads have been joined: the message queue is declared before the pool and the reader, so it is
  destroyed after them. A handler interrupts one of the threads of the process, which does not go on before
  it returns, so no handler is running any more when the threads are joined. That it may interrupt a thread
  inside the critical section of the queue is not modelled.
\<close>

datatype unix_signal = SIGINT | SIGTERM

datatype daemon_main =
    Construct
  | Set_Function
  | Set_Int
  | Set_Term
  | Wait
  | Destroy_Body
  | Destroy_Close nat
  | Join_Threads
  | Destroy_Rest
  | Return_0

datatype daemon_end = Running | Exited nat | Killed unix_signal | Undefined_End

record 'w dsys =
  ds_main :: daemon_main
  ds_function :: bool
  ds_int :: bool
  ds_term :: bool
  ds_worker :: "'w wsys option"
  ds_handlers :: "nat list"
  ds_end :: daemon_end

definition dsys_init :: "string list \<Rightarrow> 'w dsys" where
  "dsys_init argv = \<lparr>ds_main = Construct, ds_function = False, ds_int = False, ds_term = False,
     ds_worker = None, ds_handlers = [],
     ds_end = (case zcworkerd_main argv of Runs host port \<Rightarrow> Running | r \<Rightarrow> Exited (exit_code r))\<rparr>"

fun installed :: "unix_signal \<Rightarrow> 'w dsys \<Rightarrow> bool" where
  "installed SIGINT s = ds_int s"
| "installed SIGTERM s = ds_term s"

definition threads_done :: "'w wsys \<Rightarrow> bool" where
  "threads_done k \<longleftrightarrow> ws_reader k = Read_Done \<and> set (ws_loops k) \<subseteq> {Loop_Done}"

definition close_over :: "closer \<Rightarrow> bool" where
  "close_over c \<longleftrightarrow> c = Close_Returned \<or> c = Close_Threw"

text \<open>An exception that leaves a handler.\<close>

definition handler_threw :: "nat list \<Rightarrow> 'w wsys \<Rightarrow> bool" where
  "handler_threw hs k \<longleftrightarrow> (\<exists>i \<in> set hs. ws_closers k ! i = Close_Threw)"

inductive dstep :: "'w posix \<Rightarrow> bool \<Rightarrow> u16 \<Rightarrow> cause \<Rightarrow> 'w dsys \<Rightarrow> 'w dsys \<Rightarrow> bool"
  for P :: "'w posix" and android :: bool and threads :: u16 where
  construct: "ds_main s = Construct \<Longrightarrow>
    dstep P android threads From_Outside s (s\<lparr>ds_worker := Some (wsys_init threads w), ds_main := Set_Function\<rparr>)"
| construct_throws: "ds_main s = Construct \<Longrightarrow>
    dstep P android threads From_Outside s (s\<lparr>ds_end := Exited (exit_code (Prints e))\<rparr>)"
| set_function: "ds_main s = Set_Function \<Longrightarrow>
    dstep P android threads By_Itself s (s\<lparr>ds_function := True, ds_main := Set_Int\<rparr>)"
| set_int: "ds_main s = Set_Int \<Longrightarrow>
    dstep P android threads By_Itself s (s\<lparr>ds_int := True, ds_main := Set_Term\<rparr>)"
| set_term: "ds_main s = Set_Term \<Longrightarrow>
    dstep P android threads By_Itself s (s\<lparr>ds_term := True, ds_main := Wait\<rparr>)"
| wait: "ds_main s = Wait \<Longrightarrow> ds_worker s = Some k \<Longrightarrow> stopping k \<Longrightarrow>
    dstep P android threads By_Itself s (s\<lparr>ds_main := Destroy_Body\<rparr>)"
| destroy_body: "ds_main s = Destroy_Body \<Longrightarrow> ds_worker s = Some k \<Longrightarrow>
    dstep P android threads By_Itself s
      (s\<lparr>ds_worker := Some (begin_close k), ds_main := Destroy_Close (length (ws_closers k))\<rparr>)"
| destroy_close: "ds_main s = Destroy_Close i \<Longrightarrow> ds_worker s = Some k \<Longrightarrow> close_over (ws_closers k ! i) \<Longrightarrow>
    dstep P android threads By_Itself s (s\<lparr>ds_main := Join_Threads\<rparr>)"
| join_threads: "ds_main s = Join_Threads \<Longrightarrow> ds_worker s = Some k \<Longrightarrow> threads_done k \<Longrightarrow>
    \<forall>c \<in> set (ws_closers k). close_over c \<Longrightarrow>
    dstep P android threads By_Itself s (s\<lparr>ds_worker := None, ds_main := Destroy_Rest\<rparr>)"
| destroy_rest: "ds_main s = Destroy_Rest \<Longrightarrow> dstep P android threads By_Itself s (s\<lparr>ds_main := Return_0\<rparr>)"
| return_0: "ds_main s = Return_0 \<Longrightarrow> dstep P android threads By_Itself s (s\<lparr>ds_end := Exited 0\<rparr>)"
| worker_moves: "ds_worker s = Some k \<Longrightarrow> wstep P android a k k' \<Longrightarrow> a \<noteq> Is_Called \<Longrightarrow>
    dstep P android threads a s (s\<lparr>ds_worker := Some k',
      ds_end := (if handler_threw (ds_handlers s) k' then Undefined_End else ds_end s)\<rparr>)"

text \<open>
  A signal: the default action, the handler, a handler that finds no function to call, and one whose
  function refers to a worker that is gone.
\<close>

inductive dsignal :: "unix_signal \<Rightarrow> 'w dsys \<Rightarrow> 'w dsys \<Rightarrow> bool" for sig :: unix_signal where
  default_action: "\<not> installed sig s \<Longrightarrow> dsignal sig s (s\<lparr>ds_end := Killed sig\<rparr>)"
| handled: "installed sig s \<Longrightarrow> ds_function s \<Longrightarrow> ds_worker s = Some k \<Longrightarrow>
    dsignal sig s (s\<lparr>ds_worker := Some (begin_close k), ds_handlers := ds_handlers s @ [length (ws_closers k)]\<rparr>)"
| no_function: "installed sig s \<Longrightarrow> \<not> ds_function s \<Longrightarrow> dsignal sig s (s\<lparr>ds_end := Undefined_End\<rparr>)"
| dangling: "installed sig s \<Longrightarrow> ds_function s \<Longrightarrow> ds_worker s = None \<Longrightarrow>
    dsignal sig s (s\<lparr>ds_end := Undefined_End\<rparr>)"

inductive dreach :: "'w posix \<Rightarrow> bool \<Rightarrow> u16 \<Rightarrow> string list \<Rightarrow> 'w dsys \<Rightarrow> bool"
  for P :: "'w posix" and android :: bool and threads :: u16 and argv :: "string list" where
  start: "dreach P android threads argv (dsys_init argv)"
| step: "dreach P android threads argv s \<Longrightarrow> ds_end s = Running \<Longrightarrow> dstep P android threads a s s' \<Longrightarrow>
    dreach P android threads argv s'"
| signal: "dreach P android threads argv s \<Longrightarrow> ds_end s = Running \<Longrightarrow> dsignal sig s s' \<Longrightarrow>
    dreach P android threads argv s'"

text \<open>\<open>druns n s s'\<close>: \<open>n\<close> steps without a signal lead from \<open>s\<close> to \<open>s'\<close>.\<close>

inductive druns :: "'w posix \<Rightarrow> bool \<Rightarrow> u16 \<Rightarrow> nat \<Rightarrow> 'w dsys \<Rightarrow> 'w dsys \<Rightarrow> bool"
  for P :: "'w posix" and android :: bool and threads :: u16 where
  no_step: "druns P android threads 0 s s"
| one_more: "druns P android threads n s s1 \<Longrightarrow> ds_end s1 = Running \<Longrightarrow> dstep P android threads a s1 s2 \<Longrightarrow>
    druns P android threads (Suc n) s s2"

section \<open>What the states keep\<close>

text \<open>
  There is a worker exactly from its construction to its destruction, its threads and the calls of \<open>close\<close>
  reach the states of \<open>wreach\<close>, and what main has set stays set.
\<close>

definition daemon_inv :: "'w posix \<Rightarrow> bool \<Rightarrow> u16 \<Rightarrow> 'w dsys \<Rightarrow> bool" where
  "daemon_inv P android threads s \<longleftrightarrow>
     (ds_main s \<in> {Construct, Destroy_Rest, Return_0} \<longleftrightarrow> ds_worker s = None)
     \<and> (\<forall>k. ds_worker s = Some k \<longrightarrow> wreach P android threads k
          \<and> (\<forall>i \<in> set (ds_handlers s). i < length (ws_closers k))
          \<and> (\<forall>i. ds_main s = Destroy_Close i \<longrightarrow> i < length (ws_closers k)))
     \<and> (ds_main s = Construct \<longrightarrow> ds_handlers s = [])
     \<and> (ds_function s \<longleftrightarrow> ds_main s \<notin> {Construct, Set_Function})
     \<and> (ds_int s \<longleftrightarrow> ds_main s \<notin> {Construct, Set_Function, Set_Int})
     \<and> (ds_term s \<longleftrightarrow> ds_main s \<notin> {Construct, Set_Function, Set_Int, Set_Term})"

lemma begin_close_reached: "wreach P android threads k \<Longrightarrow> wreach P android threads (begin_close k)"
  by (blast intro: wreach.step wstep.close_begins)

lemma closers_length: "wstep P android a k k' \<Longrightarrow> length (ws_closers k) \<le> length (ws_closers k')"
  by (induction rule: wstep.induct) simp_all

lemma dstep_inv:
  "dstep P android threads a s s' \<Longrightarrow> daemon_inv P android threads s \<Longrightarrow> daemon_inv P android threads s'"
proof (induction rule: dstep.induct)
  case (worker_moves s k a k')
  have "wreach P android threads k" using worker_moves.hyps(1) worker_moves.prems by (simp add: daemon_inv_def)
  then have "wreach P android threads k'" using worker_moves.hyps(2) by (rule wreach.step)
  with worker_moves.hyps(1) worker_moves.prems closers_length [OF worker_moves.hyps(2)] show ?case
    by (auto simp: daemon_inv_def)
qed (auto simp: daemon_inv_def less_Suc_eq intro: wreach.start begin_close_reached)

lemma dsignal_inv: "dsignal sig s s' \<Longrightarrow> daemon_inv P android threads s \<Longrightarrow> daemon_inv P android threads s'"
  by (induction rule: dsignal.induct)
    (cases sig; auto simp: daemon_inv_def less_Suc_eq intro: begin_close_reached)+

lemma dreach_inv: "dreach P android threads argv s \<Longrightarrow> daemon_inv P android threads s"
proof (induction rule: dreach.induct)
  case start
  show ?case by (simp add: daemon_inv_def dsys_init_def)
qed (blast intro: dstep_inv dsignal_inv)+

section \<open>The way to the exit\<close>

fun main_left :: "daemon_main \<Rightarrow> nat" where
  "main_left Construct = 13"
| "main_left Set_Function = 12"
| "main_left Set_Int = 11"
| "main_left Set_Term = 10"
| "main_left Wait = 9"
| "main_left Destroy_Body = 8"
| "main_left (Destroy_Close i) = 4"
| "main_left Join_Threads = 3"
| "main_left Destroy_Rest = 2"
| "main_left Return_0 = 1"

definition daemon_left :: "'w dsys \<Rightarrow> nat" where
  "daemon_left s = (if ds_end s = Running then main_left (ds_main s) else 0)
     + (case ds_worker s of None \<Rightarrow> 0 | Some k \<Rightarrow> work_left k + closing_left k)"

text \<open>A handler has called \<open>close\<close> and it has not thrown, or the worker has already been destroyed.\<close>

definition shutting_down :: "'w dsys \<Rightarrow> bool" where
  "shutting_down s \<longleftrightarrow> (case ds_worker s of
     None \<Rightarrow> ds_main s \<in> {Destroy_Rest, Return_0}
   | Some k \<Rightarrow> stopping k \<and> ds_handlers s \<noteq> [] \<and> \<not> handler_threw (ds_handlers s) k)"

definition ending :: "'w dsys \<Rightarrow> bool" where
  "ending s \<longleftrightarrow> (ds_end s = Running \<and> shutting_down s) \<or> ds_end s = Exited 0
     \<or> (ds_end s = Undefined_End \<and> (\<exists>k. ds_worker s = Some k \<and> handler_threw (ds_handlers s) k))"

lemma begin_close_work:
  "work_left (begin_close k) = work_left k" "closing_left (begin_close k) = closing_left k + 3"
  by (simp_all add: work_left_def closing_left_def)

lemma threw_begin_close:
  "\<forall>i \<in> set hs. i < length (ws_closers k) \<Longrightarrow> handler_threw hs (begin_close k) \<longleftrightarrow> handler_threw hs k"
  by (auto simp: handler_threw_def nth_append)

lemma worker_step_work:
  assumes "wstep P android a k k'" "stopping k" "a \<noteq> Is_Called"
  shows "stopping k'" "work_left k' + closing_left k' < work_left k + closing_left k"
proof -
  show "stopping k'" using assms(1,2) by (rule stopping_step)
  from threads_work [OF assms(1,2)] assms(3)
  show "work_left k' + closing_left k' < work_left k + closing_left k"
    by (auto simp: work_left_def closing_left_def)
qed

lemma shutdown_lowers:
  assumes "dstep P android threads a s s'" "ds_end s = Running" "daemon_inv P android threads s" "shutting_down s"
  shows "daemon_left s' < daemon_left s \<and> ending s'"
  using assms
proof (induction rule: dstep.induct)
  case (worker_moves s k a k')
  then have "stopping k" by (simp add: shutting_down_def)
  from worker_step_work [OF worker_moves.hyps(2) this worker_moves.hyps(3)] worker_moves show ?case
    by (simp add: daemon_left_def ending_def shutting_down_def)
next
  case (destroy_body s k)
  then have "\<forall>i \<in> set (ds_handlers s). i < length (ws_closers k)" by (simp add: daemon_inv_def)
  from threw_begin_close [OF this] destroy_body show ?case
    by (simp add: daemon_left_def ending_def shutting_down_def begin_close_work)
qed (auto simp: daemon_left_def ending_def shutting_down_def daemon_inv_def split: option.splits)

lemma threads_done_iff: "threads_done k \<longleftrightarrow> work_left k = 0"
  by (simp add: threads_done_def work_done_iff)

lemma worker_by_itself:
  assumes "ds_worker s = Some k" "wstep P android By_Itself k k'"
  shows "\<exists>s'. dstep P android threads By_Itself s s'"
  using dstep.worker_moves [OF assms] by blast

lemma close_goes_on:
  assumes "ds_worker s = Some k" "i < length (ws_closers k)" "\<not> close_over (ws_closers k ! i)"
  shows "\<exists>s'. dstep P android threads By_Itself s s'"
proof -
  have "at_closer i (ws_closers k ! i) k" using assms(2) by (simp add: at_closer_def)
  moreover have "ws_closers k ! i \<in> {Close_Notify, Close_Socket, Close_Queue}"
    using assms(3) by (cases "ws_closers k ! i") (simp_all add: close_over_def)
  ultimately obtain k' where "wstep P android By_Itself k k'" by (rule closer_moves)
  with assms(1) show ?thesis by (rule worker_by_itself)
qed

text \<open>Main itself goes on, or what it waits for does.\<close>

lemma main_goes_on:
  assumes "daemon_inv P android threads s" "ds_worker s = Some k" "Close_Returned \<in> set (ws_closers k)"
  shows "\<exists>s'. dstep P android threads By_Itself s s'"
proof -
  have inv: "closing_inv k" using assms(1,2) wreach_closing by (auto simp: daemon_inv_def)
  note closed = returned_closed [OF inv assms(3)]
  show ?thesis
  proof (cases "ds_main s")
    case (Destroy_Close i)
    with assms(1,2) have "i < length (ws_closers k)" by (simp add: daemon_inv_def)
    with Destroy_Close assms(2) close_goes_on show ?thesis by (blast intro: dstep.destroy_close)
  next
    case Join_Threads
    show ?thesis
    proof (cases "work_left k = 0")
      case True
      then have "threads_done k" by (simp add: threads_done_iff)
      with Join_Threads assms(2) show ?thesis
        by (metis close_goes_on dstep.join_threads in_set_conv_nth)
    next
      case False
      obtain k' where "wstep P android By_Itself k k'" using closed_progress [OF inv assms(3) False] .
      with assms(2) show ?thesis by (rule worker_by_itself)
    qed
  qed (use assms(1,2) closed(1) in \<open>auto simp: daemon_inv_def
      intro: dstep.set_function dstep.set_int dstep.set_term dstep.wait dstep.destroy_body\<close>)
qed

lemma shutdown_goes_on:
  assumes "daemon_inv P android threads s" "shutting_down s"
  shows "\<exists>s'. dstep P android threads By_Itself s s'"
proof (cases "ds_worker s")
  case None
  with assms(2) show ?thesis by (auto simp: shutting_down_def intro: dstep.destroy_rest dstep.return_0)
next
  case (Some k)
  with assms(2) obtain i where i: "i \<in> set (ds_handlers s)" "ws_closers k ! i \<noteq> Close_Threw"
    by (simp add: shutting_down_def handler_threw_def) (metis list.set_intros(1) neq_Nil_conv)
  with assms(1) Some have less: "i < length (ws_closers k)" by (simp add: daemon_inv_def)
  show ?thesis
  proof (cases "close_over (ws_closers k ! i)")
    case True
    with i(2) less have "Close_Returned \<in> set (ws_closers k)" by (metis close_over_def nth_mem)
    with assms(1) Some show ?thesis by (rule main_goes_on)
  next
    case False
    with Some less show ?thesis by (rule close_goes_on)
  qed
qed

lemma ending_runs:
  assumes "druns P android threads n s s'" "daemon_inv P android threads s" "ending s"
  shows "n + daemon_left s' \<le> daemon_left s \<and> daemon_inv P android threads s' \<and> ending s'"
  using assms
proof (induction rule: druns.induct)
  case (one_more n s s1 a s2)
  then have s1: "n + daemon_left s1 \<le> daemon_left s" "daemon_inv P android threads s1" "ending s1" by blast+
  then have "shutting_down s1" using one_more.hyps(2) by (simp add: ending_def)
  from shutdown_lowers [OF one_more.hyps(3,2) s1(2) this] dstep_inv [OF one_more.hyps(3) s1(2)] s1(1)
  show ?case by auto
qed simp

text \<open>While the daemon runs no handler has thrown: that would have been its end.\<close>

definition handlers_inv :: "'w dsys \<Rightarrow> bool" where
  "handlers_inv s \<longleftrightarrow> (\<forall>k. ds_end s = Running \<longrightarrow> ds_worker s = Some k \<longrightarrow> \<not> handler_threw (ds_handlers s) k)"

lemma threw_new_handler:
  "\<forall>i \<in> set hs. i < length (ws_closers k) \<Longrightarrow>
   handler_threw (hs @ [length (ws_closers k)]) (begin_close k) \<longleftrightarrow> handler_threw hs k"
  by (auto simp: handler_threw_def nth_append)

lemma handlers_inv_dstep:
  "dstep P android threads a s s' \<Longrightarrow> daemon_inv P android threads s \<Longrightarrow> handlers_inv s \<Longrightarrow> handlers_inv s'"
proof (induction rule: dstep.induct)
  case (destroy_body s k)
  then have "\<forall>i \<in> set (ds_handlers s). i < length (ws_closers k)" by (simp add: daemon_inv_def)
  from threw_begin_close [OF this] destroy_body show ?case by (simp add: handlers_inv_def)
qed (auto simp: handlers_inv_def daemon_inv_def handler_threw_def)

lemma handlers_inv_dsignal:
  "dsignal sig s s' \<Longrightarrow> daemon_inv P android threads s \<Longrightarrow> handlers_inv s \<Longrightarrow> handlers_inv s'"
proof (induction rule: dsignal.induct)
  case (handled s k)
  then have "\<forall>i \<in> set (ds_handlers s). i < length (ws_closers k)" by (simp add: daemon_inv_def)
  from threw_new_handler [OF this] handled show ?case by (simp add: handlers_inv_def)
qed (simp_all add: handlers_inv_def)

lemma dreach_handlers: "dreach P android threads argv s \<Longrightarrow> handlers_inv s"
proof (induction rule: dreach.induct)
  case start
  show ?case by (simp add: handlers_inv_def dsys_init_def)
qed (blast intro: dreach_inv handlers_inv_dstep handlers_inv_dsignal)+

lemma handled_ending:
  assumes "dreach P android threads argv s" "ds_end s = Running" "dsignal sig s s1" "ds_end s1 = Running"
  shows "ending s1"
proof -
  have "dreach P android threads argv s1" using assms(1-3) by (rule dreach.signal)
  then have "handlers_inv s1" by (rule dreach_handlers)
  moreover have "\<exists>k. ds_worker s1 = Some k \<and> stopping k \<and> ds_handlers s1 \<noteq> []"
    using assms(3,4) by cases simp_all
  ultimately show ?thesis using assms(4) by (auto simp: ending_def shutting_down_def handlers_inv_def)
qed

section \<open>When a close fails\<close>

text \<open>
  Every \<open>close\<close> so far has thrown, so the queue is open; a handler loop that waits in \<open>pop\<close> is woken by
  nobody: the reader has ended, and the queue is empty.
\<close>

definition stranded :: "nat \<Rightarrow> 'w wsys \<Rightarrow> bool" where
  "stranded i k \<longleftrightarrow> set (ws_closers k) \<subseteq> {Close_Threw} \<and> ws_reader k = Read_Done
     \<and> q_items (ws_queue k) = [] \<and> at_loop i Loop_Pop k"

lemma stranded_stays:
  assumes "wstep P android a k k'" "a \<noteq> Is_Called" "closing_inv k" "stranded i k"
  shows "stranded i k'"
proof -
  have closer: "p = Close_Threw" if "at_closer j p k" for j p
    using that assms(4) nth_mem [of j "ws_closers k"] by (auto simp: at_closer_def stranded_def)
  have "\<not> q_shutdown (ws_queue k)" using assms(3,4) by (auto simp: closing_inv_def stranded_def)
  then have pop: "queue_pop (ws_queue k) = (Blocks, ws_queue k)"
    using assms(4) by (simp add: queue_pop_def stranded_def)
  from assms(1) show ?thesis
  proof cases
  qed (use assms(2,4) closer pop in \<open>auto simp: stranded_def at_loop_def nth_list_update\<close>)
qed

lemma stranded_daemon_step:
  assumes "dstep P android threads a s s'" "daemon_inv P android threads s" "ds_end s = Running"
    and "ds_main s = Join_Threads" "ds_worker s = Some k" "stranded i k" "ds_handlers s = []"
  obtains k' where "ds_main s' = Join_Threads" "ds_worker s' = Some k'" "stranded i k'" "ds_end s' = Running"
    "ds_handlers s' = []"
  using assms(1)
proof cases
  case (join_threads k')
  with assms(5,6) show thesis by (auto simp: threads_done_def stranded_def at_loop_def dest!: nth_mem)
next
  case (worker_moves k1 k2)
  have "closing_inv k" using assms(2,5) wreach_closing by (auto simp: daemon_inv_def)
  then have "stranded i k2" using stranded_stays assms(5,6) worker_moves by auto
  with worker_moves assms show thesis by (intro that [of k2]) (simp_all add: handler_threw_def)
qed (use assms in simp_all)

lemma stranded_runs:
  assumes "druns P android threads n s s'" "daemon_inv P android threads s" "ds_end s = Running"
    and "ds_main s = Join_Threads" "ds_worker s = Some k" "stranded i k" "ds_handlers s = []"
  shows "daemon_inv P android threads s' \<and> ds_main s' = Join_Threads \<and> ds_end s' = Running
    \<and> ds_handlers s' = [] \<and> (\<exists>k'. ds_worker s' = Some k' \<and> stranded i k')"
  using assms
proof (induction rule: druns.induct)
  case (one_more n s s1 a s2)
  then obtain k1 where s1: "daemon_inv P android threads s1" "ds_main s1 = Join_Threads" "ds_end s1 = Running"
    "ds_handlers s1 = []" "ds_worker s1 = Some k1" "stranded i k1" by blast
  obtain k2 where "ds_main s2 = Join_Threads" "ds_worker s2 = Some k2" "stranded i k2" "ds_end s2 = Running"
    "ds_handlers s2 = []"
    using stranded_daemon_step [OF one_more.hyps(3) s1(1,3,2,5,6,4)] .
  with dstep_inv [OF one_more.hyps(3) s1(1)] show ?case by blast
qed simp

text \<open>No handler runs or has run where every \<open>close\<close> has thrown and the daemon is still running.\<close>

lemma stranded_no_handler:
  assumes "dreach P android threads argv s" "ds_end s = Running" "ds_worker s = Some k" "set (ws_closers k) \<subseteq> {Close_Threw}"
  shows "ds_handlers s = []"
proof -
  have "\<not> handler_threw (ds_handlers s) k" and "\<forall>i \<in> set (ds_handlers s). i < length (ws_closers k)"
    using dreach_handlers [OF assms(1)] dreach_inv [OF assms(1)] assms(2,3)
    by (simp_all add: handlers_inv_def daemon_inv_def)
  moreover have "ws_closers k ! i = Close_Threw" if "i < length (ws_closers k)" for i
    using nth_mem [OF that] assms(4) by blast
  ultimately have "set (ds_handlers s) = {}" by (auto simp: handler_threw_def)
  then show ?thesis by simp
qed

section \<open>An example\<close>

text \<open>A daemon whose worker has one handler loop and gets no command.\<close>

definition quiet_worker :: "msg_reader \<Rightarrow> handler_loop \<Rightarrow> bool \<Rightarrow> closer list \<Rightarrow> unit wsys" where
  "quiet_worker rd p stops cs = (wsys_init 2 ())
     \<lparr>ws_worker := new_worker\<lparr>wk_should_stop := stops\<rparr>, ws_reader := rd, ws_loops := [p], ws_closers := cs\<rparr>"

definition quiet_daemon :: "daemon_main \<Rightarrow> unit wsys \<Rightarrow> unit dsys" where
  "quiet_daemon m k = \<lparr>ds_main = m, ds_function = (m \<notin> {Construct, Set_Function}),
     ds_int = (m \<notin> {Construct, Set_Function, Set_Int}),
     ds_term = (m \<notin> {Construct, Set_Function, Set_Int, Set_Term}), ds_worker = Some k, ds_handlers = [],
     ds_end = Running\<rparr>"

abbreviation example_argv :: "string list" where
  "example_argv \<equiv> [''zcworkerd'', ''10.0.0.1'', ''4444'']"

abbreviation example_dreach :: "unit dsys \<Rightarrow> bool" where
  "example_dreach \<equiv> dreach (failing_posix EIO) False 2 example_argv"

lemmas quiet_defs = quiet_worker_def quiet_daemon_def wsys_init_def new_worker_def new_queue_def
  handler_loops_def loop_to_def stop_def at_loop_def queue_pop_def begin_close_def closer_to_def at_closer_def

lemma dreach_to:
  "dreach P android threads argv s \<Longrightarrow> ds_end s = Running \<Longrightarrow> dstep P android threads a s s1 \<Longrightarrow> s1 = s' \<Longrightarrow>
   dreach P android threads argv s'"
  by (blast intro: dreach.step)

lemma quiet_moves:
  assumes "example_dreach (quiet_daemon m k)" "wstep (failing_posix EIO) False a k k1" "a \<noteq> Is_Called" "k1 = k'"
  shows "example_dreach (quiet_daemon m k')"
  using assms(2-4)
  by (intro dreach_to [OF assms(1) _ dstep.worker_moves]) (simp_all add: quiet_daemon_def handler_threw_def)

lemma quiet_waits: "example_dreach (quiet_daemon Wait (quiet_worker Read_Test Loop_Test False []))"
proof -
  have "zcworkerd_main example_argv = Runs ''10.0.0.1'' 4444" by code_simp
  then have start: "(dsys_init example_argv :: unit dsys) = \<lparr>ds_main = Construct, ds_function = False,
      ds_int = False, ds_term = False, ds_worker = None, ds_handlers = [], ds_end = Running\<rparr>"
    by (simp add: dsys_init_def)
  have "example_dreach (quiet_daemon Set_Function (quiet_worker Read_Test Loop_Test False []))"
    by (rule dreach_to [OF dreach.start _ dstep.construct [where w = "()"]]) (simp_all add: start, simp add: quiet_defs)
  then have "example_dreach (quiet_daemon Set_Int (quiet_worker Read_Test Loop_Test False []))"
    by (rule dreach_to [OF _ _ dstep.set_function]) (simp_all add: quiet_daemon_def)
  then have "example_dreach (quiet_daemon Set_Term (quiet_worker Read_Test Loop_Test False []))"
    by (rule dreach_to [OF _ _ dstep.set_int]) (simp_all add: quiet_daemon_def)
  then show ?thesis
    by (rule dreach_to [OF _ _ dstep.set_term]) (simp_all add: quiet_daemon_def)
qed

text \<open>The connection is lost, and in the destructor the cancellation pipe cannot be written.\<close>

lemma quiet_stranded: "example_dreach (quiet_daemon Join_Threads (quiet_worker Read_Done Loop_Pop True [Close_Threw]))"
proof -
  let ?k = "quiet_worker Read_Done Loop_Pop True"
  have "example_dreach (quiet_daemon Wait (quiet_worker Read_Test Loop_Pop False []))"
    by (rule quiet_moves [OF quiet_waits wstep.loop_test [where i = 0]]) (simp_all add: quiet_defs)
  then have "example_dreach (quiet_daemon Wait (quiet_worker Read_Try Loop_Pop False []))"
    by (rule quiet_moves [OF _ wstep.read_test]) (simp_all add: quiet_defs)
  then have "example_dreach (quiet_daemon Wait (quiet_worker Read_Test Loop_Pop True []))"
    by (rule quiet_moves [OF _ wstep.read_throws]) (simp_all add: quiet_defs)
  then have "example_dreach (quiet_daemon Wait (?k []))"
    by (rule quiet_moves [OF _ wstep.read_test]) (simp_all add: quiet_defs)
  then have "example_dreach (quiet_daemon Destroy_Body (?k []))"
    by (rule dreach_to [OF _ _ dstep.wait [where k = "?k []"]]) (simp_all add: quiet_defs)
  then have "example_dreach (quiet_daemon (Destroy_Close 0) (?k [Close_Notify]))"
    by (rule dreach_to [OF _ _ dstep.destroy_body [where k = "?k []"]]) (simp_all add: quiet_defs)
  then have "example_dreach (quiet_daemon (Destroy_Close 0) (?k [Close_Threw]))"
    by (rule quiet_moves [OF _ wstep.notify_throws [where i = 0]]) (simp_all add: quiet_defs)
  then show ?thesis
    by (rule dreach_to [OF _ _ dstep.destroy_close [where i = 0 and k = "?k [Close_Threw]"]])
      (simp_all add: quiet_defs close_over_def)
qed


section \<open>Properties\<close>

text \<open>
  C12. The signals stop the daemon: from the moment a handler is called every run without another signal is
  bounded, and it goes on by itself until the program exits with status 0, whatever the connection does;
  the only other end is an exception that leaves a handler, when the cancellation pipe cannot be written.
\<close>

theorem handled_signal_ends_daemon:
  assumes "dreach P android threads argv s" "ds_end s = Running" "dsignal sig s s1" "ds_end s1 = Running"
    and "druns P android threads n s1 s2"
  shows "n \<le> daemon_left s1
    \<and> (ds_end s2 = Exited 0
       \<or> ds_end s2 = Running \<and> (\<exists>s3. dstep P android threads By_Itself s2 s3)
       \<or> ds_end s2 = Undefined_End \<and> (\<exists>k. ds_worker s2 = Some k \<and> handler_threw (ds_handlers s2) k))"
proof -
  have inv: "daemon_inv P android threads s1" using dreach_inv [OF dreach.signal [OF assms(1-3)]] .
  from ending_runs [OF assms(5) inv handled_ending [OF assms(1-4)]] shutdown_goes_on
  show ?thesis by (fastforce simp: ending_def)
qed

theorem handled_signal_ends_daemon_witness:
  "\<exists>s s1 :: unit dsys. example_dreach s \<and> dsignal SIGINT s s1 \<and> ds_end s1 = Running
     \<and> (\<exists>s3. dstep (failing_posix EIO) False 2 By_Itself s1 s3)"
proof -
  let ?k = "quiet_worker Read_Test Loop_Test False []"
  let ?s = "quiet_daemon Wait ?k\<lparr>ds_worker := Some (begin_close ?k), ds_handlers := [0]\<rparr>"
  have "dsignal SIGINT (quiet_daemon Wait ?k) (quiet_daemon Wait ?k\<lparr>ds_worker := Some (begin_close ?k),
      ds_handlers := ds_handlers (quiet_daemon Wait ?k) @ [length (ws_closers ?k)]\<rparr>)"
    by (rule dsignal.handled) (simp_all add: quiet_daemon_def)
  then have signal: "dsignal SIGINT (quiet_daemon Wait ?k) ?s" by (simp add: quiet_daemon_def quiet_worker_def)
  have run: "ds_end (quiet_daemon Wait ?k) = Running" "ds_end ?s = Running" by (simp_all add: quiet_daemon_def)
  from handled_signal_ends_daemon [OF quiet_waits run(1) signal run(2) druns.no_step] run(2)
  have "\<exists>s3. dstep (failing_posix EIO) False 2 By_Itself ?s s3" by auto
  with quiet_waits signal run(2) show ?thesis by blast
qed



text \<open>
  C14. When \<open>close\<close> has thrown in the destructor, as has every other call of it, the message queue has not
  been shut. With the reader gone and the queue empty, a handler loop that waits in \<open>pop\<close> waits in every
  run without a signal, and main, which joins the threads, never gets on. (A signal calls \<open>close\<close> once more.)
\<close>

theorem failed_close_hangs_daemon:
  assumes "dreach P android threads argv s" "ds_end s = Running" "ds_main s = Join_Threads" "ds_worker s = Some k"
    and "set (ws_closers k) \<subseteq> {Close_Threw}" "ws_reader k = Read_Done" "q_items (ws_queue k) = []"
    and "at_loop i Loop_Pop k" "druns P android threads n s s2"
  shows "ds_end s2 = Running \<and> ds_main s2 = Join_Threads
    \<and> (\<exists>k2. ds_worker s2 = Some k2 \<and> at_loop i Loop_Pop k2 \<and> \<not> q_shutdown (ws_queue k2))"
proof -
  have "stranded i k" using assms(5-8) by (simp add: stranded_def)
  from stranded_runs [OF assms(9) dreach_inv [OF assms(1)] assms(2,3,4) this stranded_no_handler [OF assms(1,2,4,5)]]
  obtain k2 where k2: "daemon_inv P android threads s2" "ds_main s2 = Join_Threads" "ds_end s2 = Running"
    "ds_worker s2 = Some k2" "stranded i k2" by blast
  then have "closing_inv k2" using wreach_closing by (auto simp: daemon_inv_def)
  with k2 show ?thesis by (auto simp: stranded_def closing_inv_def)
qed

theorem failed_close_hangs_daemon_witness:
  "\<exists>s :: unit dsys. example_dreach s
     \<and> (\<forall>n s2. druns (failing_posix EIO) False 2 n s s2 \<longrightarrow> ds_end s2 = Running \<and> ds_main s2 = Join_Threads)"
proof -
  let ?k = "quiet_worker Read_Done Loop_Pop True [Close_Threw]" and ?s = "quiet_daemon Join_Threads"
  have "ds_end s2 = Running \<and> ds_main s2 = Join_Threads"
    if "druns (failing_posix EIO) False 2 n (?s ?k) s2" for n s2
    using failed_close_hangs_daemon [OF quiet_stranded, of ?k 0, OF _ _ _ _ _ _ _ that] by (simp add: quiet_defs)
  with quiet_stranded show ?thesis by blast
qed

end
