(* ===== verification/Spec2Isabelle.thy ===== *)
theory Spec2Isabelle
  imports Handles Test_Programs Logger Pool_System Server_System Session_System Daemon_System
begin

text \<open>
  ZControl lets one machine work on the files of others. Every controlled machine runs
  \<open>zcworkerd\<close>, whose \<open>Worker\<close> connects to the controlling machine, reads command messages and
  answers each with a result. The controlling machine runs \<open>zcfs\<close>, a FUSE file system: its
  \<open>Server\<close> accepts the workers and keeps a \<open>Commander\<close> for each, and a callback on the path
  \<open>/client/rest\<close> asks the commander of \<open>client\<close> to carry out the operation on \<open>/rest\<close>. Messages
  travel over one TCP connection per worker, framed by \<open>MessageTransport\<close> and encoded by
  \<open>BinarySerializer\<close> and \<open>BinaryDeserializer\<close>.

  \<^bold>\<open>Theories, from the bottom up.\<close>
  \<^item> \<open>Prelude\<close>: integers of fixed width, exceptions as the values \<open>Inl e\<close> of a sum, big-endian bytes,
    C strings, and \<open>cause\<close>: whether a step needs only its own thread, the kernel or the other end of a
    connection, or a caller. \<open>Std_Map\<close>: \<open>std::map\<close> as a sorted association list and the contract \<open>dict\<close> its
    clients use.
  \<^item> \<open>Binary_Serializer\<close>, \<open>Binary_Deserializer\<close> (\<open>common/\<close>): the operations on the byte vector and
    the 32-bit index. \<open>Codec\<close>: the contract \<open>codec\<close> (decoding what was encoded gives the value and
    leaves the rest; a cut encoding is refused) and its interpretations for every format.
  \<^item> \<open>Posix\<close>: the C library and the kernel as two records of functions, parameters of the model.
    \<open>Sockets\<close>: \<open>base/Pipe\<close>, \<open>base/AddressInfo\<close>, \<open>base/TcpSocket\<close>, \<open>common/CancellationPipe\<close>.
  \<^item> \<open>Concurrent_Queue\<close> (\<open>base/ConcurrentQueue.hpp\<close>): the operations, and the machine \<open>qstep\<close> of any
    number of threads on the mutex and the condition variable. \<open>Thread_Pool\<close> (\<open>base/ThreadPool\<close>);
    \<open>Pool_System\<close>: the pool with its threads as \<open>pstep\<close>. \<open>Logger\<close> (\<open>base/Logger\<close>).
  \<^item> \<open>Message_Transport\<close> (\<open>common/MessageTransport\<close>): message types, framing, exact reads.
  \<^item> \<open>Command_Handler\<close>, \<open>File_Handler\<close>, \<open>Dir_Handler\<close> (\<open>worker/*CommandsHandler\<close>): one function per
    handler on the state of its class, and the contract \<open>descriptor_table\<close> of the tables of open
    files and directories, interpreted on all three tables.
  \<^item> \<open>Worker\<close> (\<open>worker/Worker\<close>): \<open>_do_command\<close>. \<open>Worker_System\<close>: the reader thread, the handler loops
    and the calls of \<open>close\<close> as the step relation \<open>wstep\<close>: a reader in \<open>read\<close> is woken by the byte that
    \<open>close\<close> puts into the cancellation pipe, a loop in \<open>pop\<close> by the queue being shut. \<open>Handles\<close>: open files over sequences of commands.
  \<^item> \<open>Commander\<close> (\<open>commander/Commander\<close>): promises, the critical sections, one call at a time.
    \<open>Commander_System\<close>: all callers and the reader thread as the step relation \<open>cstep\<close>.
    \<open>Commander_Ops\<close>: the twenty-one remote operations. \<open>Server\<close> (\<open>commander/Server\<close>);
    \<open>Server_System\<close>: the acceptor, the callbacks and the shared pointers they hold as \<open>sstep\<close>; an acceptor
    in \<open>accept\<close> goes on by itself only when \<open>close\<close> has closed the listening socket, and the destructor
    of a connected commander only when its worker has replied or the connection has failed.
  \<^item> \<open>Decimal\<close>: \<open>strtol\<close> and \<open>std::stoi\<close> for base ten. \<open>Zcfs\<close> (\<open>zcfs/main.cpp\<close>): the callbacks;
    \<open>File_System\<close>: the table of operations, \<open>main\<close>, and the states \<open>fs_reach\<close> of the mounted file system.
    \<open>Worker_Lifecycle\<close> (\<open>worker/Worker\<close>): construction and destruction of the worker and its members.
    \<open>Zcworkerd\<close> (\<open>zcworkerd/main.cpp\<close>): the arguments, the worker that is run, the exit status;
    \<open>Daemon_System\<close>: its main thread, the worker's threads and the signals as \<open>dstep\<close> and \<open>dsignal\<close>,
    with the members of the worker alive until its threads have been joined.
  \<^item> \<open>Rpc\<close>: commander, transport and worker put together: what each remote operation does to the other
    machine. \<open>End_To_End\<close>: the same for the callbacks of the mounted file system. \<open>Session_System\<close>: all
    threads of both machines and the messages in flight as one step relation \<open>zstep\<close>.
  \<^item> \<open>Local_Files\<close>: the abstract specification of one client, a process on its machine that makes the
    system calls itself (\<open>local_op\<close>, \<open>local_run\<close>), and the proof that the operations of \<open>zcfs\<close> on a connected
    client refine it. \<open>Mounted_Files\<close>: the specification of the whole mount point, a map from names to such
    processes with its root directory (\<open>mount_op\<close>, \<open>mount_run\<close>), refined by any sequence of calls.
    \<open>Lost_Connections\<close>: the same with connections that break at any command of a call (\<open>cut_peer\<close>), which are
    crashes in the specification (\<open>crash_op\<close>, and \<open>cut_op\<close> for what has been done and filled until then).
    \<open>Test_Programs\<close>: the tests of the repository, which pass, and their set-up.

  \<^bold>\<open>State.\<close> A C++ object is a record of its fields (\<open>serializer\<close>, \<open>cqueue\<close>, \<open>file_handler\<close>,
  \<open>worker\<close>, \<open>commander\<close>, \<open>server\<close>), a handler or method a function from it to the new one. What
  the C library keeps is the field \<open>os\<close> of a \<open>world\<close>, next to \<open>errno\<close>; the records \<open>posix\<close> and \<open>net\<close>
  give one function per system call and nothing is assumed about them except in the hypotheses of
  a theorem. A promise and its future are a number, the place of their shared state in
  \<open>cm_futures\<close>. Threads appear in seven step relations whose steps are the critical sections, the
  accesses to atomic variables and the calls of the transport.

  \<^bold>\<open>Errors.\<close> Every throw is a value \<open>Inl e\<close>. \<open>Undefined\<close> marks undefined behaviour and the end of the
  program by \<open>std::terminate\<close>, \<open>Blocked\<close> a call that never returns; no model of a \<open>catch\<close> catches
  these two.

  \<^bold>\<open>Bounds and termination.\<close> \<open>read_exactly_loop\<close>, \<open>read_entries\<close>, \<open>poll_queue\<close> and \<open>await\<close> terminate by
  measures (bytes wanted, bytes unread, tasks queued, promises in the table). \<open>readdir_batches\<close> may
  run for ever when the worker goes on sending full batches and is a partial function whose \<open>None\<close>
  is that; the end-to-end theorem shows that it returns for a directory of any finite size.
  \<open>accept_connections\<close> takes the number of connections to serve.

  \<^bold>\<open>Groups of theorems.\<close> The integrity of the encodings (\<open>Codec\<close>, \<open>Message_Transport\<close>); the queue
  (\<open>Concurrent_Queue\<close>: no lost wake-up, first in first out); one reply for every command, in any
  state and for any bytes (\<open>Worker\<close>, \<open>Worker_System\<close>); every caller gets the response to its own
  command, or is released when the connection fails (\<open>Commander_System\<close>); a result that reaches a
  caller is what the worker answered to the command of that caller (\<open>Session_System\<close>); handles stay
  valid (\<open>Handles\<close>); descriptors are closed by the object that opened them (\<open>Message_Transport\<close>, with
  the ledger of \<open>Sockets\<close>); paths, ports and handles (\<open>Zcfs\<close>); a callback waits
  for nothing but the transport, and for as long as its worker stays silent, and the table of clients is
  a map in every reachable state (\<open>File_System\<close>); every task of the
  pool starts once, in order, and no handler loop waits for another (\<open>Pool_System\<close>); the callbacks do to
  the remote machine what the system call of their name does there (\<open>End_To_End\<close>), so that any
  sequence of them is indistinguishable from local processes on the clients (\<open>Mounted_Files\<close>),
  of which one crashes when its connection breaks, while handles of the time before name other files once
  the worker is back (\<open>Lost_Connections\<close>); no commander is used after
  its destructor, each is destroyed once, and the server can be closed (\<open>Server_System\<close>); a signal ends
  the worker daemon, unless closing fails or it comes when the worker's members are being destroyed
  (\<open>Daemon_System\<close>); the set-up of the tests does not wait for a worker (\<open>Test_Programs\<close>).

  \<^bold>\<open>Not modelled.\<close> The calls of the logger (output only); libfuse, whose option parser and main loop are
  parameters of \<open>zcfs_main\<close>; a signal that interrupts a thread inside a critical section;
  exhaustion of memory; and the ordering of memory accesses weaker than the order of the steps.
\<close>

end
